(* ===== verification/Go_Prelude.thy ===== *)
theory Go_Prelude
  imports Complex_Main "HOL-Library.Word" "HOL-Library.Char_ord" "HOL-Library.List_Lexorder"
begin

text \<open>
  What the Go language itself gives to every component: run-time panics as values, the
  sequencing of steps that may panic, byte slices with a length and a capacity, the
  wrap-around of the 64-bit \<open>int\<close>, and instants and durations in nanoseconds.
  The lemma collections \<open>go_eval\<close> (equations that evaluate the model on concrete input)
  and \<open>go_unfold\<close> (definitions of the small helpers) are declared here and filled by
  every theory above.
\<close>

named_theorems go_eval \<open>equations that evaluate the model on concrete input\<close>
named_theorems go_unfold \<open>definitions of the small helpers\<close>

unbundle bit_operations_syntax

type_synonym u8 = "8 word"
type_synonym u16 = "16 word"
type_synonym u32 = "32 word"
type_synonym u64 = "64 word"

section \<open>Panics\<close>

text \<open>
  A Go expression either yields a value or panics. A panic is the left part of a sum, so
  every index, slice, nil dereference and allocation of the source that can panic is a
  branch of the model. An \<open>error\<close> that the source returns is a value, not a panic.
  A recursion that exhausts the goroutine's stack kills the program: \<open>StackOverflow\<close>.
\<close>

datatype go_panic =
    IndexOutOfRange
  | SliceBounds
  | NilDeref
  | NilMapWrite
  | MakeSliceCap
  | DivideByZero
  | SendOnClosedChan
  | CloseOfClosedChan
  | StackOverflow

type_synonym 'a go = "go_panic + 'a"

definition go_bind :: "'e + 'a \<Rightarrow> ('a \<Rightarrow> 'e + 'b) \<Rightarrow> 'e + 'b" where
  "go_bind m f = (case m of Inl p \<Rightarrow> Inl p | Inr x \<Rightarrow> f x)"

lemma go_bind_Inr [simp]: "go_bind (Inr x) f = f x"
  by (simp add: go_bind_def)

lemma go_bind_Inl [simp]: "go_bind (Inl p) f = Inl p"
  by (simp add: go_bind_def)

lemma go_bind_eq_Inr: "go_bind m f = Inr y \<longleftrightarrow> (\<exists>x. m = Inr x \<and> f x = Inr y)"
  by (cases m) auto

lemma go_bind_assoc: "go_bind (go_bind m f) g = go_bind m (\<lambda>x. go_bind (f x) g)"
  by (cases m) auto

section \<open>The 64-bit int\<close>

text \<open>
  Go's \<open>int\<close> has 64 bits on the platforms the program runs on. Where a sum of the source
  can leave that range the model writes the wrap-around out with \<open>wrap64\<close>.
\<close>

definition wrap64 :: "int \<Rightarrow> int" where
  "wrap64 x = (x + 2 ^ 63) mod 2 ^ 64 - 2 ^ 63"

definition min_int64 :: int where "min_int64 = - (2 ^ 63)"
definition max_int64 :: int where "max_int64 = 2 ^ 63 - 1"

lemma wrap64_id: "min_int64 \<le> x \<Longrightarrow> x \<le> max_int64 \<Longrightarrow> wrap64 x = x"
  by (simp add: wrap64_def min_int64_def max_int64_def)

lemma wrap64_range: "min_int64 \<le> wrap64 x \<and> wrap64 x \<le> max_int64"
proof -
  have "0 \<le> (x + 2 ^ 63) mod 2 ^ 64" "(x + 2 ^ 63) mod 2 ^ 64 < (2 ^ 64 :: int)"
    by simp_all
  then show ?thesis by (simp add: wrap64_def min_int64_def max_int64_def)
qed

lemma wrap64_over:
  "max_int64 < x \<Longrightarrow> x \<le> 2 ^ 64 + max_int64 \<Longrightarrow> wrap64 x = x - 2 ^ 64"
proof -
  assume a: "max_int64 < x" "x \<le> 2 ^ 64 + max_int64"
  have "(x + 2 ^ 63) mod 2 ^ 64 = (x + 2 ^ 63 - 2 ^ 64) mod (2 ^ 64 :: int)"
    by (metis minus_mod_self2)
  also have "\<dots> = x + 2 ^ 63 - 2 ^ 64"
    using a by (intro mod_pos_pos_trivial) (simp_all add: max_int64_def)
  finally show ?thesis by (simp add: wrap64_def)
qed

text \<open>\<open>int64(x)\<close> of an unsigned 64-bit value reads the same bits as two's complement.\<close>

definition int64_of_u64 :: "u64 \<Rightarrow> int" where
  "int64_of_u64 w = sint w"

lemma int64_of_u64_range: "min_int64 \<le> int64_of_u64 w \<and> int64_of_u64 w \<le> max_int64"
  using sint_range_size [of w]
  by (simp add: int64_of_u64_def min_int64_def max_int64_def word_size)

lemma int64_of_u64_small: "uint w < 2 ^ 63 \<Longrightarrow> int64_of_u64 w = uint w"
proof -
  assume "uint w < 2 ^ 63"
  moreover have "- (2 ^ 63) \<le> uint w"
    by (rule order_trans [of _ 0]) simp_all
  ultimately show ?thesis
    by (simp add: int64_of_u64_def sint_uint signed_take_bit_int_eq_self_iff)
qed

lemma int64_of_u64_wrap: "int64_of_u64 w = wrap64 (uint w)"
  by (simp add: int64_of_u64_def sint_uint signed_take_bit_eq_take_bit_shift take_bit_eq_mod
      wrap64_def)

lemma int64_of_u64_large: "\<not> uint w < 2 ^ 63 \<Longrightarrow> int64_of_u64 w = uint w - 2 ^ 64"
  unfolding int64_of_u64_wrap
  by (rule wrap64_over) (use uint_lt2p [of w] in \<open>simp_all add: max_int64_def\<close>)

section \<open>Byte slices\<close>

text \<open>
  A byte is an 8-bit \<^typ>\<open>char\<close>; a Go \<open>string\<close> is a list of bytes. A \<open>[]byte\<close>
  is a window on an array: \<open>sl_buf\<close> holds the bytes from the start of the slice to its
  capacity, \<open>sl_len\<close> how many of them the slice shows. Slicing may reach up to the
  capacity, beyond the length; indexing may not.
\<close>

record bslice =
  sl_buf :: string
  sl_len :: nat

definition sl_wf :: "bslice \<Rightarrow> bool" where
  "sl_wf s \<longleftrightarrow> sl_len s \<le> length (sl_buf s)"

definition sl_bytes :: "bslice \<Rightarrow> string" where
  "sl_bytes s = take (sl_len s) (sl_buf s)"

definition sl_of :: "string \<Rightarrow> bslice" where
  "sl_of bs = \<lparr>sl_buf = bs, sl_len = length bs\<rparr>"

text \<open>\<open>s[i]\<close>, \<open>s[a:b]\<close> and \<open>s[a:]\<close>.\<close>

definition sl_at :: "bslice \<Rightarrow> nat \<Rightarrow> char go" where
  "sl_at s i = (if i < sl_len s then Inr (sl_buf s ! i) else Inl IndexOutOfRange)"

definition sl_sub :: "bslice \<Rightarrow> int \<Rightarrow> int \<Rightarrow> bslice go" where
  "sl_sub s a b =
     (if 0 \<le> a \<and> a \<le> b \<and> b \<le> int (length (sl_buf s))
      then Inr \<lparr>sl_buf = drop (nat a) (sl_buf s), sl_len = nat (b - a)\<rparr>
      else Inl SliceBounds)"

text \<open>\<open>str[a:b]\<close> on a string, or on a slice whose capacity is its length.\<close>

definition str_sub :: "string \<Rightarrow> int \<Rightarrow> int \<Rightarrow> string go" where
  "str_sub s a b =
     (if 0 \<le> a \<and> a \<le> b \<and> b \<le> int (length s)
      then Inr (take (nat (b - a)) (drop (nat a) s))
      else Inl SliceBounds)"

lemma sl_bytes_sl_of [simp]: "sl_bytes (sl_of bs) = bs"
  by (simp add: sl_bytes_def sl_of_def)

lemma sl_wf_sl_of [simp]: "sl_wf (sl_of bs)"
  by (simp add: sl_wf_def sl_of_def)

lemma sl_len_sl_of [simp]: "sl_len (sl_of bs) = length bs"
  by (simp add: sl_of_def)

lemma sl_buf_sl_of [simp]: "sl_buf (sl_of bs) = bs"
  by (simp add: sl_of_def)

lemma length_sl_bytes: "sl_wf s \<Longrightarrow> length (sl_bytes s) = sl_len s"
  by (simp add: sl_wf_def sl_bytes_def)

lemma sl_sub_wf: "sl_sub s a b = Inr t \<Longrightarrow> sl_wf t"
  by (auto simp: sl_sub_def sl_wf_def split: if_splits)

lemma sl_sub_bytes:
  "sl_sub s a b = Inr t \<Longrightarrow> sl_bytes t = take (nat (b - a)) (drop (nat a) (sl_buf s))"
  by (auto simp: sl_sub_def sl_bytes_def split: if_splits)

lemma str_sub_nat:
  "a \<le> b \<Longrightarrow> b \<le> length s \<Longrightarrow>
   str_sub s (int a) (int b) = Inr (take (b - a) (drop a s))"
  by (simp add: str_sub_def nat_diff_distrib)

text \<open>\<open>binary.BigEndian\<close> on the first bytes of a slice; \<open>uint32(b) << 24 | ...\<close>.\<close>

definition be_uint32 :: "string \<Rightarrow> u32" where
  "be_uint32 bs =
     push_bit 24 (of_char (bs ! 0)) OR push_bit 16 (of_char (bs ! 1)) OR
     push_bit 8 (of_char (bs ! 2)) OR of_char (bs ! 3)"

definition be_uint64 :: "string \<Rightarrow> u64" where
  "be_uint64 bs =
     push_bit 56 (of_char (bs ! 0)) OR push_bit 48 (of_char (bs ! 1)) OR
     push_bit 40 (of_char (bs ! 2)) OR push_bit 32 (of_char (bs ! 3)) OR
     push_bit 24 (of_char (bs ! 4)) OR push_bit 16 (of_char (bs ! 5)) OR
     push_bit 8 (of_char (bs ! 6)) OR of_char (bs ! 7)"

text \<open>Reference encoders, the inverses of the big-endian readers.\<close>

definition low_byte :: "'a::len word \<Rightarrow> char" where
  "low_byte w = char_of (unat (ucast w :: u8))"

definition be_bytes32 :: "u32 \<Rightarrow> string" where
  "be_bytes32 w = [low_byte (drop_bit 24 w), low_byte (drop_bit 16 w), low_byte (drop_bit 8 w), low_byte w]"

definition be_bytes64 :: "u64 \<Rightarrow> string" where
  "be_bytes64 w =
     [low_byte (drop_bit 56 w), low_byte (drop_bit 48 w), low_byte (drop_bit 40 w),
      low_byte (drop_bit 32 w), low_byte (drop_bit 24 w), low_byte (drop_bit 16 w),
      low_byte (drop_bit 8 w), low_byte w]"

lemma of_char_low_byte: "(of_char (low_byte w) :: 'b::len word) = ucast (ucast w :: u8)"
proof -
  have c: "(of_char (low_byte w) :: 'b word) = of_nat (of_char (low_byte w) :: nat)"
    by (simp only: of_nat_of_char)
  have "unat (ucast w :: u8) < 2 ^ LENGTH(8)"
    by (rule unsigned_less)
  then have "(of_char (low_byte w) :: nat) = unat (ucast w :: u8)"
    by (simp add: low_byte_def)
  with c show ?thesis by simp
qed

lemma length_be_bytes [simp]: "length (be_bytes32 w) = 4" "length (be_bytes64 v) = 8"
  by (simp_all add: be_bytes32_def be_bytes64_def)

lemma be_uint32_bytes [simp]: "be_uint32 (be_bytes32 w) = w"
proof (rule bit_word_eqI)
  fix n assume "n < LENGTH(32)"
  then have n: "n < 32" by simp
  consider "n < 8" | "8 \<le> n" "n < 16" | "16 \<le> n" "n < 24" | "24 \<le> n" by linarith
  then show "bit (be_uint32 (be_bytes32 w)) n = bit w n"
    by cases (use n in \<open>simp_all add: be_uint32_def be_bytes32_def of_char_low_byte bit_simps
        less_diff_conv2\<close>)
qed

lemma be_uint64_bytes [simp]: "be_uint64 (be_bytes64 w) = w"
proof (rule bit_word_eqI)
  fix n assume "n < LENGTH(64)"
  then have n: "n < 64" by simp
  consider "n < 8" | "8 \<le> n" "n < 16" | "16 \<le> n" "n < 24" | "24 \<le> n" "n < 32"
    | "32 \<le> n" "n < 40" | "40 \<le> n" "n < 48" | "48 \<le> n" "n < 56" | "56 \<le> n" by linarith
  then show "bit (be_uint64 (be_bytes64 w)) n = bit w n"
    by cases (use n in \<open>simp_all add: be_uint64_def be_bytes64_def of_char_low_byte bit_simps
        less_diff_conv2\<close>)
qed

section \<open>Instants and durations\<close>

text \<open>
  A \<open>time.Time\<close> is its number of nanoseconds since the Unix epoch; a
  \<open>time.Duration\<close> is a 64-bit number of nanoseconds. \<open>t.Sub(u)\<close> saturates at
  the ends of that range. \<open>zero_time\<close> is Go's zero \<open>time.Time\<close>, 1 January of year 1.
\<close>

type_synonym gtime = int
type_synonym gduration = int

definition zero_time :: gtime where
  "zero_time = - 62135596800 * 10 ^ 9"

definition second :: gduration where "second = 10 ^ 9"
definition millisecond :: gduration where "millisecond = 10 ^ 6"

definition time_sub :: "gtime \<Rightarrow> gtime \<Rightarrow> gduration" where
  "time_sub t u = max min_int64 (min max_int64 (t - u))"

lemma time_sub_exact:
  "min_int64 \<le> t - u \<Longrightarrow> t - u \<le> max_int64 \<Longrightarrow> time_sub t u = t - u"
  by (simp add: time_sub_def)

lemma time_sub_nonneg: "u \<le> t \<Longrightarrow> 0 \<le> time_sub t u"
  by (simp add: time_sub_def max_int64_def)

end
