(* ===== verification/Go_Strings.thy ===== *)
theory Go_Strings
  imports Go_Prelude
begin

text \<open>
  The functions of Go's \<open>strings\<close>, \<open>bytes\<close>, \<open>strconv\<close> and \<open>encoding/hex\<close> packages
  that the program calls, on lists of bytes. \<open>Index\<close> returns an option: \<open>None\<close> is Go's
  \<open>-1\<close>. White space is Go's \<open>unicode.IsSpace\<close>, with the non-ASCII spaces recognised by
  their UTF-8 bytes (an UTF-8 lead byte never occurs inside another character, so
  scanning byte by byte finds the same spaces as scanning rune by rune). \<open>ToUpper\<close> and
  \<open>ToLower\<close> change ASCII letters only; Unicode's case tables are not reproduced.
\<close>

section \<open>Prefixes and substrings\<close>

fun has_prefix :: "string \<Rightarrow> string \<Rightarrow> bool" where
  "has_prefix [] s = True"
| "has_prefix (c # p) [] = False"
| "has_prefix (c # p) (d # s) = (c = d \<and> has_prefix p s)"

lemma has_prefix_iff: "has_prefix p s \<longleftrightarrow> (\<exists>t. s = p @ t)"
  by (induction p s rule: has_prefix.induct) auto

lemma has_prefix_length: "has_prefix p s \<Longrightarrow> length p \<le> length s"
  by (auto simp: has_prefix_iff)

lemma has_prefix_append [simp]: "has_prefix p (p @ s)"
  by (auto simp: has_prefix_iff)

lemma has_prefix_take: "has_prefix p s \<Longrightarrow> take (length p) s = p"
  by (auto simp: has_prefix_iff)

text \<open>\<open>strings.Index(s, sub)\<close> / \<open>bytes.Index\<close>: the first occurrence.\<close>

fun str_index :: "string \<Rightarrow> string \<Rightarrow> nat option" where
  "str_index sub [] = (if sub = [] then Some 0 else None)"
| "str_index sub (c # s) =
     (if has_prefix sub (c # s) then Some 0 else map_option Suc (str_index sub s))"

lemma str_index_Some_prefix:
  "str_index sub s = Some i \<Longrightarrow> has_prefix sub (drop i s) \<and> i + length sub \<le> length s"
proof (induction s arbitrary: i)
  case Nil
  then show ?case by (auto split: if_splits)
next
  case (Cons c s)
  then show ?case
    by (fastforce dest: has_prefix_length split: if_splits)
qed

lemma str_index_bound: "str_index sub s = Some i \<Longrightarrow> i + length sub \<le> length s"
  by (simp add: str_index_Some_prefix)

lemma str_index_least:
  "str_index sub s = Some i \<Longrightarrow> j < i \<Longrightarrow> \<not> has_prefix sub (drop j s)"
proof (induction s arbitrary: i j)
  case Nil
  then show ?case by (auto split: if_splits)
next
  case (Cons c s)
  show ?case
  proof (cases j)
    case 0
    with Cons.prems show ?thesis by (auto split: if_splits)
  next
    case (Suc k)
    with Cons show ?thesis by (auto split: if_splits)
  qed
qed

lemma str_index_None: "str_index sub s = None \<Longrightarrow> \<not> has_prefix sub (drop j s)"
proof (induction s arbitrary: j)
  case Nil
  then show ?case by (cases sub) auto
next
  case (Cons c s)
  then show ?case by (cases j) (auto split: if_splits)
qed

lemma str_index_cut:
  assumes "str_index sub s = Some i"
  shows "s = take i s @ sub @ drop (i + length sub) s"
proof -
  from assms have "has_prefix sub (drop i s)"
    by (simp add: str_index_Some_prefix)
  then have "drop i s = sub @ drop (length sub) (drop i s)"
    by (metis append_take_drop_id has_prefix_take)
  then show ?thesis
    by (metis append_take_drop_id drop_drop add.commute)
qed

text \<open>The first occurrence of a single byte (\<open>bytes.IndexByte\<close> is the same search).\<close>

lemma str_index_char_append:
  "c \<notin> set s \<Longrightarrow> str_index [c] (s @ c # t) = Some (length s)"
  by (induction s) auto

lemma str_index_char_None: "c \<notin> set s \<Longrightarrow> str_index [c] s = None"
  by (induction s) auto

section \<open>Splitting and joining\<close>

text \<open>
  \<open>strings.Split(s, sep)\<close> and \<open>strings.SplitN(s, sep, 2)\<close>. The program never splits on
  the empty separator, for which Go would explode the string into its characters.
\<close>

function str_split :: "string \<Rightarrow> string \<Rightarrow> string list" where
  "str_split sep s =
     (if sep = [] then [s]
      else case str_index sep s of
             None \<Rightarrow> [s]
           | Some i \<Rightarrow> take i s # str_split sep (drop (i + length sep) s))"
  by pat_completeness auto
termination
proof (relation "measure (\<lambda>(sep, s). length s)", goal_cases)
  case 1
  show ?case by simp
next
  case (2 sep s i)
  from 2(2) have "i + length sep \<le> length s" by (rule str_index_bound)
  moreover from 2(1) have "0 < length sep" by simp
  ultimately have "0 < i + length sep" "0 < length s" by linarith+
  then show ?case by simp
qed

declare str_split.simps [simp del]

definition str_split2 :: "string \<Rightarrow> string \<Rightarrow> string list" where
  "str_split2 sep s =
     (case str_index sep s of
        None \<Rightarrow> [s]
      | Some i \<Rightarrow> [take i s, drop (i + length sep) s])"

fun str_join :: "string \<Rightarrow> string list \<Rightarrow> string" where
  "str_join sep [] = []"
| "str_join sep [s] = s"
| "str_join sep (s # t # ss) = s @ sep @ str_join sep (t # ss)"

lemma str_split_nonempty [simp]: "str_split sep s \<noteq> []"
  by (subst str_split.simps) (auto split: option.splits)

lemma str_join_Cons: "ss \<noteq> [] \<Longrightarrow> str_join sep (s # ss) = s @ sep @ str_join sep ss"
  by (cases ss) auto

text \<open>Joining what was split gives the string back, whatever the separator.\<close>

lemma str_join_split: "str_join sep (str_split sep s) = s"
proof (induction sep s rule: str_split.induct)
  case (1 sep s)
  show ?case
  proof (cases "sep = [] \<or> str_index sep s = None")
    case True
    then show ?thesis by (subst str_split.simps) auto
  next
    case False
    then obtain i where "sep \<noteq> []" and i: "str_index sep s = Some i" by auto
    then have "str_join sep (str_split sep s) =
        take i s @ sep @ str_join sep (str_split sep (drop (i + length sep) s))"
      by (subst str_split.simps) (simp add: str_join_Cons)
    also have "\<dots> = take i s @ sep @ drop (i + length sep) s"
      using "1.IH" \<open>sep \<noteq> []\<close> i by simp
    also have "\<dots> = s"
      using str_index_cut [OF i] by simp
    finally show ?thesis .
  qed
qed

text \<open>Splitting on one byte undoes joining, when no part holds that byte.\<close>

lemma str_split_char_step:
  "c \<notin> set s \<Longrightarrow> str_split [c] (s @ c # t) = s # str_split [c] t"
  by (subst str_split.simps) (simp add: str_index_char_append)

lemma str_split_char_none: "c \<notin> set s \<Longrightarrow> str_split [c] s = [s]"
  by (subst str_split.simps) (simp add: str_index_char_None)

lemma str_split_join_char:
  "ss \<noteq> [] \<Longrightarrow> (\<And>s. s \<in> set ss \<Longrightarrow> c \<notin> set s) \<Longrightarrow> str_split [c] (str_join [c] ss) = ss"
proof (induction ss)
  case Nil
  then show ?case by simp
next
  case (Cons s ss)
  show ?case
  proof (cases "ss = []")
    case True
    with Cons.prems show ?thesis by (simp add: str_split_char_none)
  next
    case False
    with Cons show ?thesis by (simp add: str_join_Cons str_split_char_step)
  qed
qed

lemma str_split2_char: "c \<notin> set k \<Longrightarrow> str_split2 [c] (k @ c # v) = [k, v]"
  by (simp add: str_split2_def str_index_char_append)

lemma str_split2_length: "length (str_split2 sep s) = 1 \<or> length (str_split2 sep s) = 2"
  by (auto simp: str_split2_def split: option.splits)

section \<open>White space\<close>

text \<open>
  \<open>ws_len s\<close> is the number of bytes of the white-space character that \<open>s\<close> starts
  with, 0 when it starts with none: the ASCII spaces, U+0085, U+00A0, U+1680,
  U+2000 to U+200A, U+2028, U+2029, U+202F, U+205F and U+3000. \<open>ws_len_rev\<close> reads the
  same characters from the end of the string, given reversed.
\<close>

definition ascii_space :: "char \<Rightarrow> bool" where
  "ascii_space c \<longleftrightarrow>
     c = CHR 0x09 \<or> c = CHR 0x0A \<or> c = CHR 0x0B \<or> c = CHR 0x0C \<or> c = CHR 0x0D \<or> c = CHR 0x20"

definition wide_space3 :: "char \<Rightarrow> char \<Rightarrow> char \<Rightarrow> bool" where
  "wide_space3 a b c \<longleftrightarrow>
     (a = CHR 0xE1 \<and> b = CHR 0x9A \<and> c = CHR 0x80) \<or>
     (a = CHR 0xE2 \<and> b = CHR 0x80 \<and>
        (c \<in> {CHR 0x80, CHR 0x81, CHR 0x82, CHR 0x83, CHR 0x84, CHR 0x85, CHR 0x86,
              CHR 0x87, CHR 0x88, CHR 0x89, CHR 0x8A, CHR 0xA8, CHR 0xA9, CHR 0xAF})) \<or>
     (a = CHR 0xE2 \<and> b = CHR 0x81 \<and> c = CHR 0x9F) \<or>
     (a = CHR 0xE3 \<and> b = CHR 0x80 \<and> c = CHR 0x80)"

definition wide_space2 :: "char \<Rightarrow> char \<Rightarrow> bool" where
  "wide_space2 a b \<longleftrightarrow> a = CHR 0xC2 \<and> (b = CHR 0x85 \<or> b = CHR 0xA0)"

fun ws_len :: "string \<Rightarrow> nat" where
  "ws_len [] = 0"
| "ws_len [a] = (if ascii_space a then 1 else 0)"
| "ws_len [a, b] = (if ascii_space a then 1 else if wide_space2 a b then 2 else 0)"
| "ws_len (a # b # c # s) =
     (if ascii_space a then 1 else if wide_space2 a b then 2
      else if wide_space3 a b c then 3 else 0)"

fun ws_len_rev :: "string \<Rightarrow> nat" where
  "ws_len_rev [] = 0"
| "ws_len_rev [a] = (if ascii_space a then 1 else 0)"
| "ws_len_rev [a, b] = (if ascii_space a then 1 else if wide_space2 b a then 2 else 0)"
| "ws_len_rev (a # b # c # s) =
     (if ascii_space a then 1 else if wide_space2 b a then 2
      else if wide_space3 c b a then 3 else 0)"

lemma ws_len_le: "ws_len s \<le> length s"
  by (induction s rule: ws_len.induct) auto

lemma ws_len_rev_le: "ws_len_rev s \<le> length s"
  by (induction s rule: ws_len_rev.induct) auto

text \<open>\<open>strings.TrimSpace\<close>.\<close>

function trim_left :: "string \<Rightarrow> string" where
  "trim_left s = (if ws_len s = 0 then s else trim_left (drop (ws_len s) s))"
  by pat_completeness auto
termination
proof (relation "measure length", goal_cases)
  case 1
  show ?case by simp
next
  case (2 s)
  then show ?case using ws_len_le [of s] by simp
qed

function trim_left_rev :: "string \<Rightarrow> string" where
  "trim_left_rev s = (if ws_len_rev s = 0 then s else trim_left_rev (drop (ws_len_rev s) s))"
  by pat_completeness auto
termination
proof (relation "measure length", goal_cases)
  case 1
  show ?case by simp
next
  case (2 s)
  then show ?case using ws_len_rev_le [of s] by simp
qed

declare trim_left.simps [simp del] trim_left_rev.simps [simp del]

definition trim_space :: "string \<Rightarrow> string" where
  "trim_space s = rev (trim_left_rev (rev (trim_left s)))"

lemma trim_left_id: "ws_len s = 0 \<Longrightarrow> trim_left s = s"
  by (subst trim_left.simps) simp

lemma trim_left_rev_id: "ws_len_rev s = 0 \<Longrightarrow> trim_left_rev s = s"
  by (subst trim_left_rev.simps) simp

text \<open>A string with no white space at either end is left alone; NUL is not white space.\<close>

lemma trim_space_id: "ws_len s = 0 \<Longrightarrow> ws_len_rev (rev s) = 0 \<Longrightarrow> trim_space s = s"
  by (simp add: trim_space_def trim_left_id trim_left_rev_id)

text \<open>
  \<open>strings.Fields\<close>: the maximal runs without white space. \<open>acc\<close> holds the bytes of
  the current run, reversed.
\<close>

function fields_from :: "string \<Rightarrow> string \<Rightarrow> string list" where
  "fields_from acc s =
     (if s = [] then (if acc = [] then [] else [rev acc])
      else if ws_len s = 0 then fields_from (hd s # acc) (tl s)
      else (if acc = [] then [] else [rev acc]) @ fields_from [] (drop (ws_len s) s))"
  by pat_completeness auto
termination
proof (relation "measure (\<lambda>(acc, s). length s)", goal_cases)
  case 1
  show ?case by simp
next
  case (2 acc s)
  then show ?case by (cases s) auto
next
  case (3 acc s)
  then show ?case using ws_len_le [of s] by simp
qed

declare fields_from.simps [simp del]

definition str_fields :: "string \<Rightarrow> string list" where
  "str_fields s = fields_from [] s"

lemma fields_from_nonempty: "f \<in> set (fields_from acc s) \<Longrightarrow> f \<noteq> []"
proof (induction acc s rule: fields_from.induct)
  case (1 acc s)
  show ?case
  proof (cases "s = []")
    case True
    with "1.prems" show ?thesis
      by (simp add: fields_from.simps [of acc "[]"] split: if_splits)
  next
    case False
    with 1 show ?thesis
      by (auto simp: fields_from.simps [of acc s] split: if_splits)
  qed
qed

lemma str_fields_nonempty: "f \<in> set (str_fields s) \<Longrightarrow> f \<noteq> []"
  by (simp add: str_fields_def fields_from_nonempty)

section \<open>Letter case\<close>

definition upper_char :: "char \<Rightarrow> char" where
  "upper_char c =
     (if CHR ''a'' \<le> c \<and> c \<le> CHR ''z'' then char_of (of_char c - 32 :: nat) else c)"

definition lower_char :: "char \<Rightarrow> char" where
  "lower_char c =
     (if CHR ''A'' \<le> c \<and> c \<le> CHR ''Z'' then char_of (of_char c + 32 :: nat) else c)"

definition to_upper :: "string \<Rightarrow> string" where "to_upper s = map upper_char s"
definition to_lower :: "string \<Rightarrow> string" where "to_lower s = map lower_char s"

lemma length_to_upper [simp]: "length (to_upper s) = length s"
  by (simp add: to_upper_def)

lemma length_to_lower [simp]: "length (to_lower s) = length s"
  by (simp add: to_lower_def)

section \<open>Numbers\<close>

text \<open>\<open>%d\<close> and \<open>strconv.Itoa\<close>.\<close>

definition digit_char :: "nat \<Rightarrow> char" where
  "digit_char d = char_of (48 + d)"

fun nat_dec :: "nat \<Rightarrow> string" where
  "nat_dec n = (if n < 10 then [digit_char n] else nat_dec (n div 10) @ [digit_char (n mod 10)])"

declare nat_dec.simps [simp del]

definition int_dec :: "int \<Rightarrow> string" where
  "int_dec n = (if n < 0 then CHR ''-'' # nat_dec (nat (- n)) else nat_dec (nat n))"

definition is_digit :: "char \<Rightarrow> bool" where
  "is_digit c \<longleftrightarrow> CHR ''0'' \<le> c \<and> c \<le> CHR ''9''"

definition digit_val :: "char \<Rightarrow> nat" where
  "digit_val c = of_char c - 48"

fun digits_val :: "nat \<Rightarrow> string \<Rightarrow> nat" where
  "digits_val acc [] = acc"
| "digits_val acc (c # s) = digits_val (10 * acc + digit_val c) s"

text \<open>
  \<open>strconv.Atoi\<close>: an optional sign, then at least one decimal digit; \<open>None\<close> is the
  error (bad syntax, or out of the 64-bit range).
\<close>

definition atoi :: "string \<Rightarrow> int option" where
  "atoi s =
     (let neg = (case s of c # _ \<Rightarrow> c = CHR ''-'' | [] \<Rightarrow> False);
          ds = (case s of c # t \<Rightarrow> if c = CHR ''-'' \<or> c = CHR ''+'' then t else s | [] \<Rightarrow> s);
          v = int (digits_val 0 ds);
          n = (if neg then - v else v)
      in if ds = [] \<or> \<not> list_all is_digit ds then None
         else if min_int64 \<le> n \<and> n \<le> max_int64 then Some n else None)"

lemma digit_char_code: "d < 10 \<Longrightarrow> of_char (digit_char d) = (48 + d :: nat)"
  by (simp add: digit_char_def)

lemma is_digit_digit_char [simp]: "d < 10 \<Longrightarrow> is_digit (digit_char d)"
  by (simp add: is_digit_def less_eq_char_def digit_char_code)

lemma digit_val_digit_char [simp]: "d < 10 \<Longrightarrow> digit_val (digit_char d) = d"
  by (simp add: digit_val_def digit_char_code)

lemma nat_dec_digits: "list_all is_digit (nat_dec n)"
proof (induction n rule: nat_dec.induct)
  case (1 n)
  then show ?case by (subst nat_dec.simps) auto
qed

lemma nat_dec_nonempty [simp]: "nat_dec n \<noteq> []"
  by (subst nat_dec.simps) auto

lemma digits_val_append: "digits_val a (s @ t) = digits_val (digits_val a s) t"
  by (induction s arbitrary: a) auto

lemma digits_val_nat_dec: "digits_val 0 (nat_dec n) = n"
proof (induction n rule: nat_dec.induct)
  case (1 n)
  show ?case
  proof (cases "n < 10")
    case True
    then show ?thesis by (subst nat_dec.simps) simp
  next
    case False
    with 1 show ?thesis
      by (subst nat_dec.simps) (simp add: digits_val_append)
  qed
qed

lemma nat_dec_inject [simp]: "nat_dec m = nat_dec n \<longleftrightarrow> m = n"
  by (metis digits_val_nat_dec)

lemma is_digit_not_sign: "is_digit c \<Longrightarrow> c \<noteq> CHR ''-'' \<and> c \<noteq> CHR ''+''"
  by (auto simp: is_digit_def less_eq_char_def)

lemma nat_dec_Cons_digit: "nat_dec n = c # s \<Longrightarrow> is_digit c"
  using nat_dec_digits [of n] by simp

text \<open>Printing then parsing an \<open>int\<close> gives it back.\<close>

lemma atoi_int_dec:
  assumes "min_int64 \<le> n" "n \<le> max_int64"
  shows "atoi (int_dec n) = Some n"
proof (cases "n < 0")
  case True
  with assms show ?thesis
    by (simp add: atoi_def int_dec_def nat_dec_digits digits_val_nat_dec)
next
  case False
  obtain c s where cs: "nat_dec (nat n) = c # s"
    by (cases "nat_dec (nat n)") auto
  then have "is_digit c" by (rule nat_dec_Cons_digit)
  then have "c \<noteq> CHR ''-''" "c \<noteq> CHR ''+''" by (auto dest: is_digit_not_sign)
  moreover have "digits_val 0 (c # s) = nat n" "list_all is_digit (c # s)"
    using nat_dec_digits [of "nat n"] digits_val_nat_dec [of "nat n"] by (simp_all add: cs)
  ultimately show ?thesis
    using assms False by (simp add: atoi_def int_dec_def cs del: digits_val.simps)
qed

lemma atoi_range: "atoi s = Some n \<Longrightarrow> min_int64 \<le> n \<and> n \<le> max_int64"
  by (auto simp: atoi_def Let_def split: if_splits)

section \<open>Hexadecimal\<close>

definition hex_digit :: "nat \<Rightarrow> char" where
  "hex_digit d = (if d < 10 then char_of (48 + d) else char_of (87 + d))"

text \<open>\<open>hex.EncodeToString\<close>.\<close>

definition hex_byte :: "char \<Rightarrow> string" where
  "hex_byte c = [hex_digit (of_char c div 16), hex_digit (of_char c mod 16)]"

definition hex_encode :: "string \<Rightarrow> string" where
  "hex_encode bs = concat (map hex_byte bs)"

lemma length_hex_encode [simp]: "length (hex_encode bs) = 2 * length bs"
  by (induction bs) (auto simp: hex_encode_def hex_byte_def)

section \<open>Lines\<close>

text \<open>The separator of the text protocols, and what splitting on it gives.\<close>

definition crlf :: string where
  "crlf = [CHR 0x0D, CHR 0x0A]"

lemma str_index_crlf: "CHR 0x0D \<notin> set s \<Longrightarrow> str_index crlf (s @ crlf @ t) = Some (length s)"
  by (induction s) (auto simp: crlf_def)

lemma nat_dec_no_cr: "CHR 0x0D \<notin> set (nat_dec n)"
proof
  assume "CHR 0x0D \<in> set (nat_dec n)"
  with nat_dec_digits [of n] have "is_digit CHR 0x0D" by (simp add: list_all_iff)
  then show False by (simp add: is_digit_def less_eq_char_def)
qed

lemma int_dec_of_nat: "int_dec (int n) = nat_dec n"
  by (simp add: int_dec_def)

lemma atoi_nat_dec: "int n \<le> max_int64 \<Longrightarrow> atoi (nat_dec n) = Some (int n)"
  using atoi_int_dec [of "int n"] by (simp add: int_dec_of_nat min_int64_def)

lemma str_sub_mid:
  "str_sub (pre @ mid @ post) (int (length pre)) (int (length pre + length mid)) = Inr mid"
  by (simp add: str_sub_def)

lemma str_sub_at:
  "s = pre @ mid @ post \<Longrightarrow> a = int (length pre) \<Longrightarrow> b = int (length pre + length mid) \<Longrightarrow>
   str_sub s a b = Inr mid"
  by (simp only: str_sub_mid)

lemma crlf_nonempty [simp]: "crlf \<noteq> []"
  by (simp add: crlf_def)

lemma str_index_crlf_None: "CHR 0x0D \<notin> set s \<Longrightarrow> str_index crlf s = None"
  by (induction s) (auto simp: crlf_def)

lemma str_split_crlf_step:
  "CHR 0x0D \<notin> set s \<Longrightarrow> str_split crlf (s @ crlf @ t) = s # str_split crlf t"
  by (subst str_split.simps) (simp add: str_index_crlf)

lemma str_split_crlf_none: "CHR 0x0D \<notin> set s \<Longrightarrow> str_split crlf s = [s]"
  by (subst str_split.simps) (simp add: str_index_crlf_None)

lemma str_split_crlf_lines:
  "(\<And>s. s \<in> set ss \<Longrightarrow> CHR 0x0D \<notin> set s) \<Longrightarrow>
   str_split crlf (concat (map (\<lambda>s. s @ crlf) ss) @ t) = ss @ str_split crlf t"
  by (induction ss) (auto simp: str_split_crlf_step)

end
