(* ===== verification/Go_Float.thy ===== *)
theory Go_Float
  imports Go_Prelude
begin

text \<open>
  Go's \<open>float64\<close>. A value is a finite number, one of the two infinities or NaN, and the
  operations follow IEEE 754 on the special values: comparisons with NaN are false,
  \<open>x / 0\<close> is an infinity and \<open>0 / 0\<close> is NaN, none of them panics. Between finite
  values the arithmetic is the exact one: rounding, overflow to infinity and the sign of
  zero are not modelled.
\<close>

datatype f64 = Fin real | PInf | NInf | NaN

fun f_neg :: "f64 \<Rightarrow> f64" where
  "f_neg (Fin a) = Fin (- a)"
| "f_neg PInf = NInf"
| "f_neg NInf = PInf"
| "f_neg NaN = NaN"

fun f_add :: "f64 \<Rightarrow> f64 \<Rightarrow> f64" where
  "f_add NaN _ = NaN"
| "f_add _ NaN = NaN"
| "f_add (Fin a) (Fin b) = Fin (a + b)"
| "f_add PInf NInf = NaN"
| "f_add NInf PInf = NaN"
| "f_add PInf _ = PInf"
| "f_add NInf _ = NInf"
| "f_add _ x = x"

definition f_sub :: "f64 \<Rightarrow> f64 \<Rightarrow> f64" where
  "f_sub x y = f_add x (f_neg y)"

text \<open>\<open>f_inf a\<close> is the infinity with the sign of \<open>a\<close>, NaN for 0.\<close>

definition f_inf :: "real \<Rightarrow> f64" where
  "f_inf a = (if 0 < a then PInf else if a < 0 then NInf else NaN)"

fun f_mul :: "f64 \<Rightarrow> f64 \<Rightarrow> f64" where
  "f_mul NaN _ = NaN"
| "f_mul _ NaN = NaN"
| "f_mul (Fin a) (Fin b) = Fin (a * b)"
| "f_mul (Fin a) PInf = f_inf a"
| "f_mul (Fin a) NInf = f_inf (- a)"
| "f_mul PInf (Fin b) = f_inf b"
| "f_mul NInf (Fin b) = f_inf (- b)"
| "f_mul PInf PInf = PInf"
| "f_mul PInf NInf = NInf"
| "f_mul NInf PInf = NInf"
| "f_mul NInf NInf = PInf"

fun f_div :: "f64 \<Rightarrow> f64 \<Rightarrow> f64" where
  "f_div NaN _ = NaN"
| "f_div _ NaN = NaN"
| "f_div (Fin a) (Fin b) = (if b = 0 then f_inf a else Fin (a / b))"
| "f_div (Fin a) _ = Fin 0"
| "f_div PInf (Fin b) = (if b < 0 then NInf else PInf)"
| "f_div NInf (Fin b) = (if b < 0 then PInf else NInf)"
| "f_div _ _ = NaN"

fun f_lt :: "f64 \<Rightarrow> f64 \<Rightarrow> bool" where
  "f_lt NaN _ = False"
| "f_lt _ NaN = False"
| "f_lt (Fin a) (Fin b) = (a < b)"
| "f_lt (Fin _) PInf = True"
| "f_lt (Fin _) NInf = False"
| "f_lt NInf NInf = False"
| "f_lt NInf _ = True"
| "f_lt PInf _ = False"

fun f_le :: "f64 \<Rightarrow> f64 \<Rightarrow> bool" where
  "f_le NaN _ = False"
| "f_le _ NaN = False"
| "f_le (Fin a) (Fin b) = (a \<le> b)"
| "f_le (Fin _) PInf = True"
| "f_le (Fin _) NInf = False"
| "f_le NInf _ = True"
| "f_le PInf PInf = True"
| "f_le PInf _ = False"

text \<open>\<open>x == y\<close> on floats: NaN is not equal to itself.\<close>

definition f_eq :: "f64 \<Rightarrow> f64 \<Rightarrow> bool" where
  "f_eq x y \<longleftrightarrow> f_le x y \<and> f_le y x"

text \<open>\<open>math.Sqrt\<close> and \<open>math.Max\<close> (an infinity wins over NaN in \<open>math.Max\<close>).\<close>

fun f_sqrt :: "f64 \<Rightarrow> f64" where
  "f_sqrt (Fin a) = (if a < 0 then NaN else Fin (sqrt a))"
| "f_sqrt PInf = PInf"
| "f_sqrt NInf = NaN"
| "f_sqrt NaN = NaN"

definition f_max :: "f64 \<Rightarrow> f64 \<Rightarrow> f64" where
  "f_max x y =
     (if x = PInf \<or> y = PInf then PInf
      else if x = NaN \<or> y = NaN then NaN
      else if f_lt x y then y else x)"

text \<open>\<open>float64(n)\<close> of the integer types the program uses.\<close>

definition f_of_int :: "int \<Rightarrow> f64" where
  "f_of_int n = Fin (real_of_int n)"

definition f_of_u64 :: "u64 \<Rightarrow> f64" where
  "f_of_u64 w = Fin (real_of_int (uint w))"

fun f_finite :: "f64 \<Rightarrow> bool" where
  "f_finite (Fin _) = True"
| "f_finite _ = False"

fun f_val :: "f64 \<Rightarrow> real" where
  "f_val (Fin a) = a"
| "f_val _ = 0"

lemma f_sub_Fin [simp]: "f_sub (Fin a) (Fin b) = Fin (a - b)"
  by (simp add: f_sub_def)

lemma f_eq_Fin [simp]: "f_eq (Fin a) (Fin b) \<longleftrightarrow> a = b"
  by (auto simp: f_eq_def)

lemma f_max_Fin [simp]: "f_max (Fin a) (Fin b) = Fin (max a b)"
  by (auto simp: f_max_def max_def)

lemma f_eq_NaN [simp]: "\<not> f_eq NaN x" "\<not> f_eq x NaN"
  by (cases x; simp add: f_eq_def)+

lemma f_finite_iff: "f_finite x \<longleftrightarrow> (\<exists>a. x = Fin a)"
  by (cases x) auto

lemma f_finiteE [elim]: "f_finite x \<Longrightarrow> (\<And>a. x = Fin a \<Longrightarrow> P) \<Longrightarrow> P"
  by (cases x) auto

lemma f_lt_irrefl [simp]: "\<not> f_lt x x"
  by (cases x) auto

lemma f_lt_le: "f_lt x y \<Longrightarrow> f_le x y"
  by (cases x; cases y) auto

lemma f_lt_not_le: "f_lt x y \<Longrightarrow> \<not> f_le y x"
  by (cases x; cases y) auto

lemma f_le_trans: "f_le x y \<Longrightarrow> f_le y z \<Longrightarrow> f_le x z"
  by (cases x; cases y; cases z) auto

lemma f_not_NaN_total: "x \<noteq> NaN \<Longrightarrow> y \<noteq> NaN \<Longrightarrow> f_lt x y \<or> f_le y x"
  by (cases x; cases y) auto

end
