(* ===== verification/Trace_Model.thy ===== *)
theory Trace_Model
  imports Go_Strings Go_Float
begin

text \<open>
  \<open>pkg/model/trace.go\<close>: the raw kernel event, the span and the trace, the conversion
  of an event to a span, and \<open>BuildTraceTree\<close>. Spans are shared through pointers (the
  spans of a trace point at their children), so a span lives at an address of a heap and
  \<open>BuildTraceTree\<close> is a function on heaps. Random bytes are arguments.
\<close>

section \<open>Event types and protocols\<close>

type_synonym event_type = u8
type_synonym protocol = u8

definition EventTypeConnect :: event_type where "EventTypeConnect = 0"
definition EventTypeAccept :: event_type where "EventTypeAccept = 1"
definition EventTypeSendTo :: event_type where "EventTypeSendTo = 2"
definition EventTypeRecvFrom :: event_type where "EventTypeRecvFrom = 3"
definition EventTypeClose :: event_type where "EventTypeClose = 4"

lemmas event_type_defs [go_eval] =
  EventTypeConnect_def EventTypeAccept_def EventTypeSendTo_def EventTypeRecvFrom_def
  EventTypeClose_def

definition EventType_String :: "event_type \<Rightarrow> string" where
  "EventType_String e =
     (if e = EventTypeConnect then ''connect''
      else if e = EventTypeAccept then ''accept''
      else if e = EventTypeSendTo then ''send''
      else if e = EventTypeRecvFrom then ''recv''
      else if e = EventTypeClose then ''close''
      else ''unknown'')"

definition ProtocolHTTP :: protocol where "ProtocolHTTP = 0"
definition ProtocolGRPC :: protocol where "ProtocolGRPC = 1"
definition ProtocolRedis :: protocol where "ProtocolRedis = 2"
definition ProtocolEnvoy :: protocol where "ProtocolEnvoy = 3"
definition ProtocolUnknown :: protocol where "ProtocolUnknown = 4"

lemmas protocol_defs [go_eval] =
  ProtocolHTTP_def ProtocolGRPC_def ProtocolRedis_def ProtocolEnvoy_def ProtocolUnknown_def

definition Protocol_String :: "protocol \<Rightarrow> string" where
  "Protocol_String p =
     (if p = ProtocolHTTP then ''http''
      else if p = ProtocolGRPC then ''grpc''
      else if p = ProtocolRedis then ''redis''
      else if p = ProtocolEnvoy then ''envoy''
      else ''unknown'')"

section \<open>Data\<close>

text \<open>The fixed-size arrays of the event are byte lists of the lengths in \<open>raw_wf\<close>.\<close>

record raw_event =
  ev_Timestamp :: u64
  ev_PID :: u32
  ev_TID :: u32
  ev_UID :: u32
  ev_GID :: u32
  ev_Comm :: string
  ev_EventType :: u8
  ev_Protocol :: u8
  ev_SAddr :: u32
  ev_DAddr :: u32
  ev_SPort :: u16
  ev_DPort :: u16
  ev_DurationNs :: u64
  ev_ErrorCode :: "32 word"
  ev_PayloadSize :: u32
  ev_Payload :: string
  ev_TraceID :: string
  ev_SpanID :: string
  ev_ParentSpanID :: string
  ev_Path :: string

definition raw_wf :: "raw_event \<Rightarrow> bool" where
  "raw_wf raw \<longleftrightarrow>
     length (ev_Comm raw) = 16 \<and> length (ev_Payload raw) = 1024 \<and>
     length (ev_TraceID raw) = 33 \<and> length (ev_SpanID raw) = 17 \<and>
     length (ev_ParentSpanID raw) = 17 \<and> length (ev_Path raw) = 256"

text \<open>The dynamic values that the program stores as tags.\<close>

datatype tag_value =
    TagInt int
  | TagU64 u64
  | TagU32 u32
  | TagU8 u8
  | TagBool bool
  | TagStr string

type_synonym addr = nat

text \<open>\<open>sp_Tags = None\<close> is the nil map. \<open>int32\<close> error codes are two's complement words.\<close>

record span =
  sp_TraceID :: string
  sp_SpanID :: string
  sp_ParentSpanID :: string
  sp_ServiceName :: string
  sp_Operation :: string
  sp_Protocol :: string
  sp_EventType :: string
  sp_StartTime :: gtime
  sp_EndTime :: gtime
  sp_DurationMs :: f64
  sp_ErrorCode :: "32 word"
  sp_PayloadSize :: u32
  sp_Payload :: string
  sp_SourceIP :: string
  sp_DestIP :: string
  sp_SourcePort :: u16
  sp_DestPort :: u16
  sp_PID :: u32
  sp_Comm :: string
  sp_Path :: string
  sp_Children :: "addr list"
  sp_Tags :: "(string \<rightharpoonup> tag_value) option"

type_synonym heap = "addr \<rightharpoonup> span"

text \<open>The zero value of the struct, which a literal starts from.\<close>

definition zero_span :: span where
  "zero_span = \<lparr>sp_TraceID = [], sp_SpanID = [], sp_ParentSpanID = [], sp_ServiceName = [],
     sp_Operation = [], sp_Protocol = [], sp_EventType = [], sp_StartTime = zero_time,
     sp_EndTime = zero_time, sp_DurationMs = Fin 0, sp_ErrorCode = 0, sp_PayloadSize = 0,
     sp_Payload = [], sp_SourceIP = [], sp_DestIP = [], sp_SourcePort = 0, sp_DestPort = 0,
     sp_PID = 0, sp_Comm = [], sp_Path = [], sp_Children = [], sp_Tags = None\<rparr>"

definition SetTag :: "span \<Rightarrow> string \<Rightarrow> tag_value \<Rightarrow> span" where
  "SetTag s key value =
     s\<lparr>sp_Tags := Some ((case sp_Tags s of None \<Rightarrow> Map.empty | Some m \<Rightarrow> m)(key \<mapsto> value))\<rparr>"

record trace =
  tr_TraceID :: string
  tr_Spans :: "addr list"
  tr_RootSpan :: "addr option"
  tr_StartTime :: gtime
  tr_EndTime :: gtime
  tr_Duration :: f64

record trace_query =
  tq_TraceID :: string
  tq_ServiceName :: string
  tq_StartTime :: "gtime option"
  tq_EndTime :: "gtime option"
  tq_MinLatencyMs :: "f64 option"
  tq_MaxLatencyMs :: "f64 option"
  tq_Protocol :: string
  tq_Limit :: int
  tq_Offset :: int

definition tag :: "span \<Rightarrow> string \<Rightarrow> tag_value option" where
  "tag s key = Option.bind (sp_Tags s) (\<lambda>m. m key)"

lemma tag_SetTag [simp]: "tag (SetTag s k v) k' = (if k' = k then Some v else tag s k')"
  by (auto simp: tag_def SetTag_def split: option.splits)

lemma SetTag_frame [simp]:
  "sp_TraceID (SetTag s k v) = sp_TraceID s" "sp_SpanID (SetTag s k v) = sp_SpanID s"
  "sp_ParentSpanID (SetTag s k v) = sp_ParentSpanID s"
  "sp_ServiceName (SetTag s k v) = sp_ServiceName s"
  "sp_Operation (SetTag s k v) = sp_Operation s" "sp_Protocol (SetTag s k v) = sp_Protocol s"
  "sp_EventType (SetTag s k v) = sp_EventType s" "sp_StartTime (SetTag s k v) = sp_StartTime s"
  "sp_EndTime (SetTag s k v) = sp_EndTime s" "sp_DurationMs (SetTag s k v) = sp_DurationMs s"
  "sp_ErrorCode (SetTag s k v) = sp_ErrorCode s" "sp_PayloadSize (SetTag s k v) = sp_PayloadSize s"
  "sp_Payload (SetTag s k v) = sp_Payload s" "sp_SourceIP (SetTag s k v) = sp_SourceIP s"
  "sp_DestIP (SetTag s k v) = sp_DestIP s" "sp_SourcePort (SetTag s k v) = sp_SourcePort s"
  "sp_DestPort (SetTag s k v) = sp_DestPort s" "sp_PID (SetTag s k v) = sp_PID s"
  "sp_Comm (SetTag s k v) = sp_Comm s" "sp_Path (SetTag s k v) = sp_Path s"
  "sp_Children (SetTag s k v) = sp_Children s"
  by (simp_all add: SetTag_def)

section \<open>From a raw event to a span\<close>

definition GenerateTraceID :: "string \<Rightarrow> string" where
  "GenerateTraceID rnd = hex_encode rnd"

definition GenerateSpanID :: "string \<Rightarrow> string" where
  "GenerateSpanID rnd = hex_encode rnd"

definition byte_dec :: "u32 \<Rightarrow> string" where
  "byte_dec w = nat_dec (unat (ucast w :: u8))"

definition intToIP :: "u32 \<Rightarrow> string" where
  "intToIP ip =
     byte_dec ip @ ''.'' @ byte_dec (drop_bit 8 ip) @ ''.'' @
     byte_dec (drop_bit 16 ip) @ ''.'' @ byte_dec (drop_bit 24 ip)"

definition ntohs :: "u16 \<Rightarrow> u16" where
  "ntohs port = drop_bit 8 port OR push_bit 8 port"

text \<open>
  \<open>rnd_trace\<close> and \<open>rnd_span\<close> are the 16 and 8 bytes that \<open>rand.Read\<close> would deliver to
  \<open>GenerateTraceID\<close> and \<open>GenerateSpanID\<close>.
\<close>

definition ConvertRawEventToSpan :: "raw_event \<Rightarrow> string \<Rightarrow> string \<Rightarrow> span" where
  "ConvertRawEventToSpan raw rnd_trace rnd_span =
     (let start = int64_of_u64 (ev_Timestamp raw);
          s0 = \<lparr>sp_TraceID = ev_TraceID raw,
                sp_SpanID = ev_SpanID raw,
                sp_ParentSpanID = ev_ParentSpanID raw,
                sp_ServiceName = ev_Comm raw,
                sp_Operation = EventType_String (ev_EventType raw),
                sp_Protocol = Protocol_String (ev_Protocol raw),
                sp_EventType = EventType_String (ev_EventType raw),
                sp_StartTime = start,
                sp_EndTime = zero_time,
                sp_DurationMs = Fin 0,
                sp_ErrorCode = ev_ErrorCode raw,
                sp_PayloadSize = ev_PayloadSize raw,
                sp_Payload = ev_Payload raw,
                sp_SourceIP = intToIP (ev_SAddr raw),
                sp_DestIP = intToIP (ev_DAddr raw),
                sp_SourcePort = ntohs (ev_SPort raw),
                sp_DestPort = ntohs (ev_DPort raw),
                sp_PID = ev_PID raw,
                sp_Comm = ev_Comm raw,
                sp_Path = ev_Path raw,
                sp_Children = [],
                sp_Tags = None\<rparr>;
          s1 = (if sp_TraceID s0 = '''' then s0\<lparr>sp_TraceID := GenerateTraceID rnd_trace\<rparr> else s0);
          s2 = (if sp_SpanID s1 = '''' then s1\<lparr>sp_SpanID := GenerateSpanID rnd_span\<rparr> else s1);
          s3 = s2\<lparr>sp_DurationMs := f_div (f_of_u64 (ev_DurationNs raw)) (Fin (10 ^ 6))\<rparr>
      in s3\<lparr>sp_EndTime := sp_StartTime s3 + int64_of_u64 (ev_DurationNs raw)\<rparr>)"

section \<open>BuildTraceTree\<close>

text \<open>The first loop: \<open>spanMap\<close> (the last span with an id wins) and \<open>root\<close>.\<close>

fun bt_index ::
  "heap \<Rightarrow> addr list \<Rightarrow> (string \<rightharpoonup> addr) \<Rightarrow> addr option \<Rightarrow> ((string \<rightharpoonup> addr) \<times> addr option) go"
where
  "bt_index h [] spanMap rt = Inr (spanMap, rt)"
| "bt_index h (a # as) spanMap rt =
     (case h a of
        None \<Rightarrow> Inl NilDeref
      | Some s \<Rightarrow> bt_index h as (spanMap(sp_SpanID s \<mapsto> a))
                    (if sp_ParentSpanID s = '''' then Some a else rt))"

text \<open>The second loop: every span with a known parent is appended to its children.\<close>

fun bt_link :: "(string \<rightharpoonup> addr) \<Rightarrow> addr list \<Rightarrow> heap \<Rightarrow> heap go" where
  "bt_link spanMap [] h = Inr h"
| "bt_link spanMap (a # as) h =
     (case h a of
        None \<Rightarrow> Inl NilDeref
      | Some s \<Rightarrow>
          if sp_ParentSpanID s \<noteq> '''' then
            (case spanMap (sp_ParentSpanID s) of
               None \<Rightarrow> bt_link spanMap as h
             | Some p \<Rightarrow>
                 (case h p of
                    None \<Rightarrow> Inl NilDeref
                  | Some ps \<Rightarrow>
                      bt_link spanMap as (h(p \<mapsto> ps\<lparr>sp_Children := sp_Children ps @ [a]\<rparr>))))
          else bt_link spanMap as h)"

text \<open>The third loop: earliest start and latest end.\<close>

fun bt_bounds :: "heap \<Rightarrow> addr list \<Rightarrow> gtime \<Rightarrow> gtime \<Rightarrow> (gtime \<times> gtime) go" where
  "bt_bounds h [] st en = Inr (st, en)"
| "bt_bounds h (a # as) st en =
     (case h a of
        None \<Rightarrow> Inl NilDeref
      | Some s \<Rightarrow> bt_bounds h as
                    (if sp_StartTime s < st then sp_StartTime s else st)
                    (if sp_EndTime s > en then sp_EndTime s else en))"

definition deref :: "heap \<Rightarrow> addr \<Rightarrow> span go" where
  "deref h a = (case h a of None \<Rightarrow> Inl NilDeref | Some s \<Rightarrow> Inr s)"

definition BuildTraceTree :: "heap \<Rightarrow> addr list \<Rightarrow> (heap \<times> trace option) go" where
  "BuildTraceTree h spans =
     (case spans of
        [] \<Rightarrow> Inr (h, None)
      | a # _ \<Rightarrow>
          go_bind (bt_index h spans Map.empty None) (\<lambda>(spanMap, rt).
          go_bind (bt_link spanMap spans h) (\<lambda>h'.
          go_bind (deref h' a) (\<lambda>s.
          go_bind (bt_bounds h' spans (sp_StartTime s) (sp_EndTime s)) (\<lambda>(st, en).
            Inr (h', Some
              \<lparr>tr_TraceID = sp_TraceID s,
               tr_Spans = spans,
               tr_RootSpan = rt,
               tr_StartTime = st,
               tr_EndTime = en,
               tr_Duration = f_div (f_of_int (time_sub en st)) (Fin (10 ^ 6))\<rparr>))))))"

section \<open>Lemmas on the conversion\<close>

lemma convert_ids [simp]:
  assumes "raw_wf raw"
  shows "sp_TraceID (ConvertRawEventToSpan raw r1 r2) = ev_TraceID raw"
    and "sp_SpanID (ConvertRawEventToSpan raw r1 r2) = ev_SpanID raw"
    and "sp_ParentSpanID (ConvertRawEventToSpan raw r1 r2) = ev_ParentSpanID raw"
proof -
  from assms have "ev_TraceID raw \<noteq> []" "ev_SpanID raw \<noteq> []"
    by (auto simp: raw_wf_def)
  then show "sp_TraceID (ConvertRawEventToSpan raw r1 r2) = ev_TraceID raw"
    and "sp_SpanID (ConvertRawEventToSpan raw r1 r2) = ev_SpanID raw"
    and "sp_ParentSpanID (ConvertRawEventToSpan raw r1 r2) = ev_ParentSpanID raw"
    by (simp_all add: ConvertRawEventToSpan_def Let_def)
qed

lemma convert_frame [simp]:
  "sp_ServiceName (ConvertRawEventToSpan raw r1 r2) = ev_Comm raw"
  "sp_Comm (ConvertRawEventToSpan raw r1 r2) = ev_Comm raw"
  "sp_PID (ConvertRawEventToSpan raw r1 r2) = ev_PID raw"
  "sp_SourceIP (ConvertRawEventToSpan raw r1 r2) = intToIP (ev_SAddr raw)"
  "sp_DestIP (ConvertRawEventToSpan raw r1 r2) = intToIP (ev_DAddr raw)"
  "sp_SourcePort (ConvertRawEventToSpan raw r1 r2) = ntohs (ev_SPort raw)"
  "sp_DestPort (ConvertRawEventToSpan raw r1 r2) = ntohs (ev_DPort raw)"
  "sp_StartTime (ConvertRawEventToSpan raw r1 r2) = int64_of_u64 (ev_Timestamp raw)"
  "sp_EndTime (ConvertRawEventToSpan raw r1 r2) =
     int64_of_u64 (ev_Timestamp raw) + int64_of_u64 (ev_DurationNs raw)"
  "sp_DurationMs (ConvertRawEventToSpan raw r1 r2) =
     Fin (real_of_int (uint (ev_DurationNs raw)) / 10 ^ 6)"
  "sp_ErrorCode (ConvertRawEventToSpan raw r1 r2) = ev_ErrorCode raw"
  "sp_Children (ConvertRawEventToSpan raw r1 r2) = []"
  "sp_Tags (ConvertRawEventToSpan raw r1 r2) = None"
  by (simp_all add: ConvertRawEventToSpan_def Let_def f_of_u64_def)

lemma nat_dec_no_dot: "CHR ''.'' \<notin> set (nat_dec n)"
proof
  assume "CHR ''.'' \<in> set (nat_dec n)"
  with nat_dec_digits [of n] have "is_digit CHR ''.''"
    by (simp add: list_all_iff)
  then show False by (simp add: is_digit_def less_eq_char_def)
qed

lemma intToIP_join:
  "intToIP ip = str_join ''.''
     [byte_dec ip, byte_dec (drop_bit 8 ip), byte_dec (drop_bit 16 ip), byte_dec (drop_bit 24 ip)]"
  by (simp add: intToIP_def)

lemma intToIP_split:
  "str_split ''.'' (intToIP ip) =
     [byte_dec ip, byte_dec (drop_bit 8 ip), byte_dec (drop_bit 16 ip), byte_dec (drop_bit 24 ip)]"
  unfolding intToIP_join
  by (rule str_split_join_char) (auto simp: byte_dec_def nat_dec_no_dot)

lemma byte_dec_inject [simp]: "byte_dec a = byte_dec b \<longleftrightarrow> (ucast a :: u8) = ucast b"
  unfolding byte_dec_def nat_dec_inject by (rule word_unat_eq_iff [symmetric])

lemma u32_eq_bytes:
  fixes a b :: u32
  assumes "(ucast a :: u8) = ucast b"
    and "(ucast (drop_bit 8 a) :: u8) = ucast (drop_bit 8 b)"
    and "(ucast (drop_bit 16 a) :: u8) = ucast (drop_bit 16 b)"
    and "(ucast (drop_bit 24 a) :: u8) = ucast (drop_bit 24 b)"
  shows "a = b"
proof (rule bit_word_eqI)
  fix n assume "n < LENGTH(32)"
  then have n: "n < 32" by simp
  have bits: "bit a (k + m) = bit b (k + m)"
    if "m < 8" "(ucast (drop_bit k a) :: u8) = ucast (drop_bit k b)" for k m
  proof -
    from that(2) have "bit (ucast (drop_bit k a) :: u8) m = bit (ucast (drop_bit k b) :: u8) m"
      by simp
    with that(1) show ?thesis by (simp add: bit_simps)
  qed
  consider "n < 8" | "8 \<le> n" "n < 16" | "16 \<le> n" "n < 24" | "24 \<le> n"
    by linarith
  then show "bit a n = bit b n"
  proof cases
    case 1
    with bits [of n 0] assms(1) show ?thesis by simp
  next
    case 2
    with bits [of "n - 8" 8] assms(2) show ?thesis by simp
  next
    case 3
    with bits [of "n - 16" 16] assms(3) show ?thesis by simp
  next
    case 4
    with n bits [of "n - 24" 24] assms(4) show ?thesis by simp
  qed
qed

lemma intToIP_eqD: "intToIP a = intToIP b \<Longrightarrow> a = b"
  using intToIP_split [of a] intToIP_split [of b] by (auto intro: u32_eq_bytes)

section \<open>Properties of the conversion\<close>

text \<open>The zero value of the event struct, as the kernel program starts from.\<close>

definition zero_event :: raw_event where
  "zero_event =
     \<lparr>ev_Timestamp = 0, ev_PID = 0, ev_TID = 0, ev_UID = 0, ev_GID = 0,
      ev_Comm = replicate 16 CHR 0x00, ev_EventType = 0, ev_Protocol = 0,
      ev_SAddr = 0, ev_DAddr = 0, ev_SPort = 0, ev_DPort = 0,
      ev_DurationNs = 0, ev_ErrorCode = 0, ev_PayloadSize = 0,
      ev_Payload = replicate 1024 CHR 0x00, ev_TraceID = replicate 33 CHR 0x00,
      ev_SpanID = replicate 17 CHR 0x00, ev_ParentSpanID = replicate 17 CHR 0x00,
      ev_Path = replicate 256 CHR 0x00\<rparr>"

lemma raw_wf_zero_event [simp]: "raw_wf zero_event"
  by (simp add: raw_wf_def zero_event_def)

text \<open>
  The three id fields of an event are fixed-size arrays, so the strings made from them
  are never empty: the span keeps all 33, 17 and 17 bytes, NUL padding included, and the
  random ids that \<open>ConvertRawEventToSpan\<close> holds ready for empty ids are never used.
\<close>

theorem convert_never_generates_ids:
  assumes "raw_wf raw"
  shows "ConvertRawEventToSpan raw rt rs = ConvertRawEventToSpan raw rt' rs' \<and>
         length (sp_TraceID (ConvertRawEventToSpan raw rt rs)) = 33 \<and>
         length (sp_SpanID (ConvertRawEventToSpan raw rt rs)) = 17 \<and>
         length (sp_ParentSpanID (ConvertRawEventToSpan raw rt rs)) = 17"
proof -
  from assms have "ev_TraceID raw \<noteq> []" "ev_SpanID raw \<noteq> []"
    by (auto simp: raw_wf_def)
  then have "ConvertRawEventToSpan raw rt rs = ConvertRawEventToSpan raw rt' rs'"
    by (simp add: ConvertRawEventToSpan_def Let_def)
  with assms show ?thesis by (simp add: raw_wf_def)
qed

theorem convert_never_generates_ids_witness:
  "sp_ParentSpanID (ConvertRawEventToSpan zero_event ''r'' ''s'') \<noteq> '''' \<and>
   length (sp_TraceID (ConvertRawEventToSpan zero_event ''r'' ''s'')) = 33"
  using convert_never_generates_ids [OF raw_wf_zero_event, of "''r''" "''s''" "''r''" "''s''"]
  by auto

text \<open>
  The end of a span minus its start is the duration the kernel measured, and
  \<open>DurationMs\<close> is that number of nanoseconds in milliseconds, for every duration below
  $2^{63}$ ns; from there on \<open>time.Duration\<close> turns negative and the span ends before it
  starts.
\<close>

theorem convert_duration:
  "sp_EndTime (ConvertRawEventToSpan raw rt rs) - sp_StartTime (ConvertRawEventToSpan raw rt rs) =
     (if uint (ev_DurationNs raw) < 2 ^ 63 then uint (ev_DurationNs raw)
      else uint (ev_DurationNs raw) - 2 ^ 64) \<and>
   sp_DurationMs (ConvertRawEventToSpan raw rt rs) =
     Fin (real_of_int (uint (ev_DurationNs raw)) / 10 ^ 6)"
  by (simp add: int64_of_u64_small int64_of_u64_large)

text \<open>
  Addresses print injectively: two different IPv4 addresses never give spans with the
  same IP text, so connection keys built from the text tell hosts apart.
\<close>

theorem intToIP_injective: "intToIP a = intToIP b \<longleftrightarrow> a = b"
  by (auto dest: intToIP_eqD)

text \<open>
  \<open>ntohs\<close> swaps the two bytes of a port, so applying it twice gives the port back.
\<close>

theorem ntohs_involution:
  "ntohs (ntohs p) = p \<and>
   (ucast (ntohs p) :: u8) = ucast (drop_bit 8 p) \<and> (ucast (drop_bit 8 (ntohs p)) :: u8) = ucast p"
proof (intro conjI)
  show "ntohs (ntohs p) = p"
  proof (rule bit_word_eqI)
    fix n assume "n < LENGTH(16)"
    then show "bit (ntohs (ntohs p)) n = bit p n"
      by (cases "n < 8") (auto simp: ntohs_def bit_simps)
  qed
  show "(ucast (ntohs p) :: u8) = ucast (drop_bit 8 p)"
    by (rule bit_word_eqI) (auto simp: ntohs_def bit_simps)
  show "(ucast (drop_bit 8 (ntohs p)) :: u8) = ucast p"
    by (rule bit_word_eqI) (auto simp: ntohs_def bit_simps)
qed

end
