(* ===== verification/Trace_Tree.thy ===== *)
theory Trace_Tree
  imports Trace_Model
begin

text \<open>
  What \<open>BuildTraceTree\<close> computes: which span each span is attached to, the root, the time
  bounds, and that the structure it hangs under the root is a finite tree.
\<close>

section \<open>The first loop\<close>

text \<open>The span that carries an id: the last one in the slice.\<close>

definition last_with :: "heap \<Rightarrow> addr list \<Rightarrow> string \<Rightarrow> addr option" where
  "last_with h as sid = find (\<lambda>a. map_option sp_SpanID (h a) = Some sid) (rev as)"

definition last_root :: "heap \<Rightarrow> addr list \<Rightarrow> addr option" where
  "last_root h as = find (\<lambda>a. map_option sp_ParentSpanID (h a) = Some '''') (rev as)"

definition parent_of :: "heap \<Rightarrow> addr list \<Rightarrow> addr \<Rightarrow> addr option" where
  "parent_of h as c =
     (case h c of
        None \<Rightarrow> None
      | Some s \<Rightarrow> if sp_ParentSpanID s = '''' then None else last_with h as (sp_ParentSpanID s))"

definition allocated :: "heap \<Rightarrow> addr list \<Rightarrow> bool" where
  "allocated h as \<longleftrightarrow> (\<forall>a\<in>set as. h a \<noteq> None)"

lemma find_snoc: "find P (xs @ [x]) = (case find P xs of None \<Rightarrow> (if P x then Some x else None) | Some y \<Rightarrow> Some y)"
  by (induction xs) auto

lemma last_with_Cons:
  "last_with h (a # as) k =
     (case last_with h as k of
        None \<Rightarrow> (if map_option sp_SpanID (h a) = Some k then Some a else None)
      | Some b \<Rightarrow> Some b)"
  by (simp only: last_with_def rev.simps find_snoc)

lemma last_root_Cons:
  "last_root h (a # as) =
     (case last_root h as of
        None \<Rightarrow> (if map_option sp_ParentSpanID (h a) = Some '''' then Some a else None)
      | Some b \<Rightarrow> Some b)"
  by (simp only: last_root_def rev.simps find_snoc)

lemma last_with_Some: "last_with h as k = Some a \<Longrightarrow> a \<in> set as \<and> map_option sp_SpanID (h a) = Some k"
  by (auto simp: last_with_def find_Some_iff) (metis nth_mem length_rev set_rev)

lemma last_root_Some:
  "last_root h as = Some a \<Longrightarrow> a \<in> set as \<and> map_option sp_ParentSpanID (h a) = Some ''''"
  by (auto simp: last_root_def find_Some_iff) (metis nth_mem length_rev set_rev)

lemma bt_index_eq:
  assumes "allocated h as"
  shows "bt_index h as m r =
     Inr (\<lambda>k. case last_with h as k of None \<Rightarrow> m k | Some a \<Rightarrow> Some a,
          case last_root h as of None \<Rightarrow> r | Some a \<Rightarrow> Some a)"
  using assms
proof (induction as arbitrary: m r)
  case Nil
  then show ?case by (simp add: last_with_def last_root_def)
next
  case (Cons a as)
  then obtain s where s: "h a = Some s" and "allocated h as"
    by (auto simp: allocated_def)
  have "(case last_with h as k of None \<Rightarrow> (m(sp_SpanID s \<mapsto> a)) k | Some a \<Rightarrow> Some a) =
        (case last_with h (a # as) k of None \<Rightarrow> m k | Some a \<Rightarrow> Some a)" for k
    by (auto simp: last_with_Cons s split: option.splits)
  moreover have "(case last_root h as of
          None \<Rightarrow> (if sp_ParentSpanID s = '''' then Some a else r) | Some a \<Rightarrow> Some a) =
        (case last_root h (a # as) of None \<Rightarrow> r | Some a \<Rightarrow> Some a)"
    by (auto simp: last_root_Cons s split: option.splits)
  ultimately show ?case
    using Cons.IH [OF \<open>allocated h as\<close>] s by simp
qed

section \<open>The second loop\<close>

definition link_target :: "(string \<rightharpoonup> addr) \<Rightarrow> heap \<Rightarrow> addr \<Rightarrow> addr option" where
  "link_target m h c =
     (case h c of
        None \<Rightarrow> None
      | Some s \<Rightarrow> if sp_ParentSpanID s = '''' then None else m (sp_ParentSpanID s))"

definition link_heap :: "(string \<rightharpoonup> addr) \<Rightarrow> addr list \<Rightarrow> heap \<Rightarrow> heap" where
  "link_heap m as h = (\<lambda>p. map_option
     (\<lambda>s. s\<lparr>sp_Children := sp_Children s @ filter (\<lambda>c. link_target m h c = Some p) as\<rparr>) (h p))"

lemma link_target_children:
  "h p = Some ps \<Longrightarrow> link_target m (h(p \<mapsto> ps\<lparr>sp_Children := cs\<rparr>)) = link_target m h"
  by (rule ext) (simp add: link_target_def)

lemma link_heap_skip: "link_target m h a = None \<Longrightarrow> link_heap m (a # as) h = link_heap m as h"
  by (simp add: link_heap_def)

lemma link_heap_step:
  assumes "link_target m h a = Some p" "h p = Some ps"
  shows "link_heap m (a # as) h = link_heap m as (h(p \<mapsto> ps\<lparr>sp_Children := sp_Children ps @ [a]\<rparr>))"
proof
  fix q
  show "link_heap m (a # as) h q =
        link_heap m as (h(p \<mapsto> ps\<lparr>sp_Children := sp_Children ps @ [a]\<rparr>)) q"
    using assms by (cases "q = p") (auto simp: link_heap_def link_target_children)
qed

lemma bt_link_eq:
  assumes "allocated h as" "\<And>k p. m k = Some p \<Longrightarrow> h p \<noteq> None"
  shows "bt_link m as h = Inr (link_heap m as h)"
  using assms
proof (induction as arbitrary: h)
  case Nil
  have "link_heap m [] h = h"
    by (rule ext) (simp add: link_heap_def option.map_ident)
  then show ?case by simp
next
  case (Cons a as)
  then obtain s where s: "h a = Some s" and al: "allocated h as"
    by (auto simp: allocated_def)
  show ?case
  proof (cases "link_target m h a")
    case None
    then have "bt_link m (a # as) h = bt_link m as h"
      using s by (auto simp: link_target_def split: if_splits option.splits)
    with Cons.IH [OF al Cons.prems(2)] None show ?thesis
      by (simp add: link_heap_skip)
  next
    case (Some p)
    with s have p: "m (sp_ParentSpanID s) = Some p" "sp_ParentSpanID s \<noteq> ''''"
      by (auto simp: link_target_def split: if_splits)
    with Cons.prems(2) obtain ps where ps: "h p = Some ps" by blast
    let ?h = "h(p \<mapsto> ps\<lparr>sp_Children := sp_Children ps @ [a]\<rparr>)"
    have "allocated ?h as" using al by (auto simp: allocated_def)
    moreover have "\<And>k q. m k = Some q \<Longrightarrow> ?h q \<noteq> None"
      using Cons.prems(2) by auto
    ultimately have "bt_link m as ?h = Inr (link_heap m as ?h)" by (rule Cons.IH)
    with s p ps Some show ?thesis by (simp add: link_heap_step)
  qed
qed

section \<open>The third loop\<close>

definition sp_at :: "heap \<Rightarrow> addr \<Rightarrow> span" where
  "sp_at h a = the (h a)"

lemma bt_bounds_spec:
  assumes "allocated h as"
  shows "\<exists>st' en'. bt_bounds h as st en = Inr (st', en') \<and>
     st' \<le> st \<and> en \<le> en' \<and>
     (\<forall>a\<in>set as. st' \<le> sp_StartTime (sp_at h a) \<and> sp_EndTime (sp_at h a) \<le> en') \<and>
     (st' = st \<or> st' \<in> (\<lambda>a. sp_StartTime (sp_at h a)) ` set as) \<and>
     (en' = en \<or> en' \<in> (\<lambda>a. sp_EndTime (sp_at h a)) ` set as)"
  using assms
proof (induction as arbitrary: st en)
  case Nil
  then show ?case by simp
next
  case (Cons a as)
  then obtain s where s: "h a = Some s" and al: "allocated h as"
    by (auto simp: allocated_def)
  have sa: "sp_at h a = s" using s by (simp add: sp_at_def)
  from Cons.IH [OF al, of "if sp_StartTime s < st then sp_StartTime s else st"
      "if sp_EndTime s > en then sp_EndTime s else en"]
  obtain st' en' where
    *: "bt_bounds h as (if sp_StartTime s < st then sp_StartTime s else st)
          (if sp_EndTime s > en then sp_EndTime s else en) = Inr (st', en')"
    and st: "st' \<le> (if sp_StartTime s < st then sp_StartTime s else st)"
    and en: "(if sp_EndTime s > en then sp_EndTime s else en) \<le> en'"
    and all: "\<forall>a\<in>set as. st' \<le> sp_StartTime (sp_at h a) \<and> sp_EndTime (sp_at h a) \<le> en'"
    and st_or: "st' = (if sp_StartTime s < st then sp_StartTime s else st) \<or>
        st' \<in> (\<lambda>a. sp_StartTime (sp_at h a)) ` set as"
    and en_or: "en' = (if sp_EndTime s > en then sp_EndTime s else en) \<or>
        en' \<in> (\<lambda>a. sp_EndTime (sp_at h a)) ` set as"
    by blast
  have "bt_bounds h (a # as) st en = Inr (st', en')"
    using * s by simp
  moreover have "st' \<le> st" "st' \<le> sp_StartTime s" using st by (auto split: if_splits)
  moreover have "en \<le> en'" "sp_EndTime s \<le> en'" using en by (auto split: if_splits)
  moreover have "st' = st \<or> st' \<in> (\<lambda>a. sp_StartTime (sp_at h a)) ` set (a # as)"
    using st_or sa by (auto split: if_splits)
  moreover have "en' = en \<or> en' \<in> (\<lambda>a. sp_EndTime (sp_at h a)) ` set (a # as)"
    using en_or sa by (auto split: if_splits)
  ultimately show ?case using all sa by auto
qed

section \<open>The whole function\<close>

text \<open>The heap that linking leaves: children appended, nothing else changed.\<close>

definition tree_heap :: "heap \<Rightarrow> addr list \<Rightarrow> heap" where
  "tree_heap h as = (\<lambda>p. map_option
     (\<lambda>s. s\<lparr>sp_Children := sp_Children s @ filter (\<lambda>c. parent_of h as c = Some p) as\<rparr>) (h p))"

lemma link_target_last_with: "link_target (last_with h as) h c = parent_of h as c"
  by (simp add: link_target_def parent_of_def)

lemma link_heap_last_with: "link_heap (last_with h as) as h = tree_heap h as"
  by (simp add: link_heap_def tree_heap_def link_target_last_with)

lemma tree_heap_allocated: "allocated h as \<Longrightarrow> allocated (tree_heap h as) as"
  by (simp add: allocated_def tree_heap_def)

lemma tree_heap_times [simp]:
  "h a \<noteq> None \<Longrightarrow> sp_StartTime (sp_at (tree_heap h as) a) = sp_StartTime (sp_at h a)"
  "h a \<noteq> None \<Longrightarrow> sp_EndTime (sp_at (tree_heap h as) a) = sp_EndTime (sp_at h a)"
  "h a \<noteq> None \<Longrightarrow> sp_TraceID (sp_at (tree_heap h as) a) = sp_TraceID (sp_at h a)"
  by (auto simp: sp_at_def tree_heap_def)

lemma BuildTraceTree_eq:
  assumes "allocated h as" "as \<noteq> []"
  shows "\<exists>st en. BuildTraceTree h as =
      Inr (tree_heap h as, Some
        \<lparr>tr_TraceID = sp_TraceID (sp_at h (hd as)), tr_Spans = as, tr_RootSpan = last_root h as,
         tr_StartTime = st, tr_EndTime = en,
         tr_Duration = f_div (f_of_int (time_sub en st)) (Fin (10 ^ 6))\<rparr>) \<and>
      (\<forall>a\<in>set as. st \<le> sp_StartTime (sp_at h a) \<and> sp_EndTime (sp_at h a) \<le> en) \<and>
      st \<in> (\<lambda>a. sp_StartTime (sp_at h a)) ` set as \<and>
      en \<in> (\<lambda>a. sp_EndTime (sp_at h a)) ` set as"
proof -
  obtain a as' where as: "as = a # as'" using assms(2) by (cases as) auto
  let ?h = "tree_heap h as"
  have "bt_index h as Map.empty None = Inr (last_with h as, last_root h as)"
    using bt_index_eq [OF assms(1), of Map.empty None]
    by (simp add: option.case_distrib cong: option.case_cong)
       (simp add: fun_eq_iff split: option.splits)
  moreover have "bt_link (last_with h as) as h = Inr ?h"
    using bt_link_eq [OF assms(1), of "last_with h as"] assms(1)
    by (force simp: link_heap_last_with allocated_def dest: last_with_Some)
  moreover have ha: "h a \<noteq> None" using assms(1) as by (simp add: allocated_def)
  then have "deref ?h a = Inr (sp_at ?h a)"
    by (auto simp: deref_def tree_heap_def sp_at_def)
  moreover obtain st en where
    "bt_bounds ?h as (sp_StartTime (sp_at ?h a)) (sp_EndTime (sp_at ?h a)) = Inr (st, en)"
    and bnd: "\<forall>a\<in>set as. st \<le> sp_StartTime (sp_at ?h a) \<and> sp_EndTime (sp_at ?h a) \<le> en"
    and st: "st = sp_StartTime (sp_at ?h a) \<or> st \<in> (\<lambda>a. sp_StartTime (sp_at ?h a)) ` set as"
    and en: "en = sp_EndTime (sp_at ?h a) \<or> en \<in> (\<lambda>a. sp_EndTime (sp_at ?h a)) ` set as"
    using bt_bounds_spec [OF tree_heap_allocated [OF assms(1)], of "sp_StartTime (sp_at ?h a)"
        "sp_EndTime (sp_at ?h a)"] by blast
  moreover have times: "(\<lambda>a. sp_StartTime (sp_at ?h a)) ` set as = (\<lambda>a. sp_StartTime (sp_at h a)) ` set as"
      "(\<lambda>a. sp_EndTime (sp_at ?h a)) ` set as = (\<lambda>a. sp_EndTime (sp_at h a)) ` set as"
    using assms(1) by (auto simp: allocated_def intro!: image_cong)
  have "st \<in> (\<lambda>a. sp_StartTime (sp_at h a)) ` set as" "en \<in> (\<lambda>a. sp_EndTime (sp_at h a)) ` set as"
    unfolding times [symmetric] using st en as by (metis imageI list.set_intros(1))+
  moreover have "\<forall>a\<in>set as. st \<le> sp_StartTime (sp_at h a) \<and> sp_EndTime (sp_at h a) \<le> en"
    using bnd assms(1) by (auto simp: allocated_def)
  moreover have "sp_TraceID (sp_at ?h a) = sp_TraceID (sp_at h a)" using ha by simp
  ultimately show ?thesis
    by (intro exI [of _ st] exI [of _ en]) (simp add: BuildTraceTree_def as)
qed

section \<open>The spans under the root form a finite tree\<close>

text \<open>
  The consumers of a trace (\<open>CompressTrace\<close>, the flame graph) recurse over
  \<open>Children\<close>. \<open>unfold_tree\<close> is that recursion with fuel: it follows the pointers from
  an address and gives the tree, or \<open>None\<close> when it meets an unallocated address or is
  still running after the given number of levels.
\<close>

datatype span_tree = SNode (st_root: addr) (st_kids: "span_tree list")

fun unfold_tree :: "heap \<Rightarrow> nat \<Rightarrow> addr \<Rightarrow> span_tree option" where
  "unfold_tree h 0 a = None"
| "unfold_tree h (Suc n) a =
     (case h a of
        None \<Rightarrow> None
      | Some s \<Rightarrow> map_option (SNode a) (those (map (unfold_tree h n) (sp_Children s))))"

definition kids :: "heap \<Rightarrow> addr \<Rightarrow> addr list" where
  "kids h a = (case h a of None \<Rightarrow> [] | Some s \<Rightarrow> sp_Children s)"

fun walk :: "heap \<Rightarrow> addr \<Rightarrow> addr list \<Rightarrow> bool" where
  "walk h a [] = True"
| "walk h a (v # vs) = (v \<in> set (kids h a) \<and> walk h v vs)"

lemma those_None_iff: "those xs = None \<longleftrightarrow> None \<in> set xs"
  by (induction xs) (auto split: option.splits)

text \<open>Running out of fuel means there is a walk down the pointers that long.\<close>

lemma unfold_None_walk:
  assumes "\<And>p c. c \<in> set (kids h p) \<Longrightarrow> h c \<noteq> None" "h a \<noteq> None" "unfold_tree h n a = None"
  shows "\<exists>vs. length vs = n \<and> walk h a vs"
  using assms(2,3)
proof (induction n arbitrary: a)
  case 0
  then show ?case by simp
next
  case (Suc n)
  from Suc.prems obtain s where s: "h a = Some s" by auto
  with Suc.prems obtain c where c: "c \<in> set (sp_Children s)" "unfold_tree h n c = None"
    by (auto simp: those_None_iff)
  then have kid: "c \<in> set (kids h a)" using s by (simp add: kids_def)
  with assms(1) have "h c \<noteq> None" by blast
  with Suc.IH c(2) obtain vs where "length vs = n" "walk h c vs" by blast
  with kid show ?case by (intro exI [of _ "c # vs"]) simp
qed

text \<open>Climbing \<open>n\<close> parents.\<close>

fun climb :: "(addr \<rightharpoonup> addr) \<Rightarrow> nat \<Rightarrow> addr \<Rightarrow> addr option" where
  "climb par 0 a = Some a"
| "climb par (Suc n) a = Option.bind (par a) (climb par n)"

lemma climb_add: "climb par (m + n) a = Option.bind (climb par m a) (climb par n)"
proof (induction m arbitrary: a)
  case 0
  then show ?case by simp
next
  case (Suc m)
  then show ?case by (cases "par a") simp_all
qed

lemma climb_snoc: "climb par m a = Some b \<Longrightarrow> par b = Some c \<Longrightarrow> climb par (Suc m) a = Some c"
  using climb_add [of par m 1 a] by simp

text \<open>On a walk from \<open>r\<close> the node at position \<open>i\<close> climbs back to \<open>r\<close> in \<open>i\<close> steps.\<close>

lemma walk_climb:
  assumes "\<And>p c. c \<in> set (kids h p) \<Longrightarrow> par c = Some p"
    and "walk h r vs" "i < length vs"
  shows "climb par (Suc i) (vs ! i) = Some r"
  using assms(2,3)
proof (induction vs arbitrary: r i)
  case Nil
  then show ?case by simp
next
  case (Cons v vs)
  from Cons.prems have par: "par v = Some r" using assms(1) by simp
  show ?case
  proof (cases i)
    case 0
    with par show ?thesis by simp
  next
    case (Suc j)
    with Cons have "climb par (Suc j) (vs ! j) = Some v" by simp
    with par have "climb par (Suc (Suc j)) (vs ! j) = Some r" by (rule climb_snoc [rotated])
    with Suc show ?thesis by simp
  qed
qed

lemma walk_distinct:
  assumes par: "\<And>p c. c \<in> set (kids h p) \<Longrightarrow> par c = Some p"
    and r: "par r = None" and w: "walk h r vs"
  shows "distinct (r # vs)"
proof -
  have climb_back: "climb par i ((r # vs) ! i) = Some r" if "i < length (r # vs)" for i
    using walk_climb [OF par w, where i = "i - 1"] that by (cases i) auto
  have "(r # vs) ! i \<noteq> (r # vs) ! j" if "i < j" "j < length (r # vs)" for i j
  proof
    assume eq: "(r # vs) ! i = (r # vs) ! j"
    obtain k where k: "j = i + Suc k" using \<open>i < j\<close> less_imp_Suc_add by auto
    have "Some r = Option.bind (climb par i ((r # vs) ! j)) (climb par (Suc k))"
      using climb_back [of j] that by (simp only: k climb_add)
    also have "\<dots> = climb par (Suc k) r"
      using climb_back [of i] that eq by simp
    also have "\<dots> = None" using r by simp
    finally show False by simp
  qed
  then show ?thesis
    by (metis distinct_conv_nth nat_neq_iff)
qed

lemma walk_subset:
  assumes "\<And>p c. c \<in> set (kids h p) \<Longrightarrow> c \<in> A" and "walk h r vs"
  shows "set vs \<subseteq> A"
  using assms(2) by (induction vs arbitrary: r) (auto dest: assms(1))

text \<open>A pointer structure with one parent per node and none for the root is a finite tree.\<close>

lemma unfold_tree_total:
  assumes par: "\<And>p c. c \<in> set (kids h p) \<Longrightarrow> par c = Some p"
    and sub: "\<And>p c. c \<in> set (kids h p) \<Longrightarrow> c \<in> set as"
    and al: "allocated h as" and r: "r \<in> set as" "par r = None"
  shows "\<exists>t. unfold_tree h (length as) r = Some t"
proof (rule ccontr)
  assume "\<not> ?thesis"
  then have none: "unfold_tree h (length as) r = None" by simp
  have kid: "h c \<noteq> None" if "c \<in> set (kids h p)" for p c
    using sub [OF that] al by (simp add: allocated_def)
  have "h r \<noteq> None"
    using al r(1) by (simp add: allocated_def)
  then have "\<exists>vs. length vs = length as \<and> walk h r vs"
    using kid none by (intro unfold_None_walk)
  then obtain vs where len: "length vs = length as" and w: "walk h r vs" by blast
  have "distinct (r # vs)" using par r(2) w by (rule walk_distinct)
  then have "Suc (length as) = card (set (r # vs))"
    using len by (simp only: distinct_card length_Cons)
  also have "\<dots> \<le> card (set as)"
    using walk_subset [OF sub w] r(1) by (intro card_mono) auto
  also have "\<dots> \<le> length as" by (rule card_length)
  finally show False by simp
qed

lemma those_map_mono:
  "(\<And>x y. x \<in> set xs \<Longrightarrow> f x = Some y \<Longrightarrow> g x = Some y) \<Longrightarrow>
   those (map f xs) = Some ys \<Longrightarrow> those (map g xs) = Some ys"
proof (induction xs arbitrary: ys)
  case Nil
  then show ?case by simp
next
  case (Cons x xs)
  then obtain y zs where "f x = Some y" "those (map f xs) = Some zs" "ys = y # zs"
    by (auto split: option.splits)
  with Cons show ?case by simp
qed

lemma unfold_tree_mono:
  "g \<subseteq>\<^sub>m h \<Longrightarrow> unfold_tree g n a = Some t \<Longrightarrow> unfold_tree h n a = Some t"
proof (induction n arbitrary: a t)
  case 0
  then show ?case by simp
next
  case (Suc n)
  then obtain s ts where s: "g a = Some s" and t: "t = SNode a ts"
    and ts: "those (map (unfold_tree g n) (sp_Children s)) = Some ts"
    by (auto split: option.splits)
  from s Suc.prems(1) have "h a = Some s"
    by (auto simp: map_le_def dom_def)
  moreover have "those (map (unfold_tree h n) (sp_Children s)) = Some ts"
    using Suc.IH [OF Suc.prems(1)] ts by (rule those_map_mono)
  ultimately show ?case using t by simp
qed

section \<open>Properties of BuildTraceTree\<close>

definition fresh_spans :: "heap \<Rightarrow> addr list \<Rightarrow> bool" where
  "fresh_spans h as \<longleftrightarrow> allocated h as \<and> (\<forall>a\<in>set as. sp_Children (sp_at h a) = [])"

lemma fresh_at:
  assumes "fresh_spans h as" "p \<in> set as"
  obtains s where "h p = Some s" "sp_Children s = []"
  using assms by (fastforce simp: fresh_spans_def allocated_def sp_at_def)

lemma fresh_kids:
  assumes "fresh_spans h as" "p \<in> set as"
  shows "kids (tree_heap h as) p = filter (\<lambda>c. parent_of h as c = Some p) as"
proof -
  from fresh_at [OF assms] obtain s where "h p = Some s" "sp_Children s = []" .
  then show ?thesis by (simp add: kids_def tree_heap_def)
qed

lemma last_root_no_parent: "last_root h as = Some r \<Longrightarrow> parent_of h as r = None"
  by (auto simp: parent_of_def dest: last_root_Some split: option.splits)

text \<open>Three spans, given child first: the root, its child and its grandchild.\<close>

definition demo_span :: "string \<Rightarrow> string \<Rightarrow> gtime \<Rightarrow> gtime \<Rightarrow> span" where
  "demo_span sid pid st en =
     (ConvertRawEventToSpan zero_event [] [])
       \<lparr>sp_TraceID := ''t'', sp_SpanID := sid, sp_ParentSpanID := pid,
        sp_StartTime := st, sp_EndTime := en\<rparr>"

definition demo_heap :: heap where
  "demo_heap = [3 \<mapsto> demo_span ''c'' ''b'' 4 5, 4 \<mapsto> demo_span ''a'' '''' 0 9,
                5 \<mapsto> demo_span ''b'' ''a'' 2 7]"

lemma demo_span_sel [simp]:
  "sp_SpanID (demo_span s p a b) = s" "sp_ParentSpanID (demo_span s p a b) = p"
  "sp_StartTime (demo_span s p a b) = a" "sp_EndTime (demo_span s p a b) = b"
  "sp_Children (demo_span s p a b) = []" "sp_TraceID (demo_span s p a b) = ''t''"
  by (simp_all add: demo_span_def)

lemma demo_fresh: "fresh_spans demo_heap [3, 4, 5]"
  by (simp add: fresh_spans_def allocated_def demo_heap_def sp_at_def)

lemma demo_root: "last_root demo_heap [3, 4, 5] = Some 4"
  by (simp add: last_root_def demo_heap_def)

lemma demo_parent: "parent_of demo_heap [3, 4, 5] 5 = Some 4"
  by (simp add: parent_of_def last_with_def demo_heap_def)

text \<open>
  C16: \<open>BuildTraceTree\<close> on spans with no children yet never panics. Its root is the last
  span with an empty parent id, and the children of every span are exactly the spans whose
  parent id is the id of that span (of the last span with that id, if several have it), in
  the order of the input; nothing else in any span changes.
\<close>

theorem BuildTraceTree_links:
  assumes "fresh_spans h as" "as \<noteq> []"
  shows "\<exists>h' t. BuildTraceTree h as = Inr (h', Some t) \<and>
     tr_RootSpan t = last_root h as \<and> tr_Spans t = as \<and>
     dom h' = dom h \<and>
     (\<forall>p\<in>set as. sp_Children (sp_at h' p) = filter (\<lambda>c. parent_of h as c = Some p) as \<and>
        (sp_at h' p)\<lparr>sp_Children := []\<rparr> = sp_at h p)"
proof -
  from BuildTraceTree_eq [of h as] assms obtain t where
    t: "BuildTraceTree h as = Inr (tree_heap h as, Some t)" "tr_RootSpan t = last_root h as"
      "tr_Spans t = as"
    by (auto simp: fresh_spans_def)
  moreover have "dom (tree_heap h as) = dom h"
    by (auto simp: tree_heap_def)
  moreover have "sp_Children (sp_at (tree_heap h as) p) = filter (\<lambda>c. parent_of h as c = Some p) as \<and>
      (sp_at (tree_heap h as) p)\<lparr>sp_Children := []\<rparr> = sp_at h p" if "p \<in> set as" for p
  proof -
    from fresh_at [OF assms(1) that] obtain s where "h p = Some s" "sp_Children s = []" .
    then show ?thesis by (simp add: tree_heap_def sp_at_def)
  qed
  ultimately show ?thesis by blast
qed

theorem BuildTraceTree_links_witness:
  "\<exists>h' t. BuildTraceTree demo_heap [3, 4, 5] = Inr (h', Some t) \<and>
     tr_RootSpan t = Some 4 \<and> 5 \<in> set (sp_Children (sp_at h' 4))"
proof -
  from BuildTraceTree_links [OF demo_fresh] obtain h' t where
    "BuildTraceTree demo_heap [3, 4, 5] = Inr (h', Some t)" "tr_RootSpan t = Some 4"
    "sp_Children (sp_at h' 4) = filter (\<lambda>c. parent_of demo_heap [3, 4, 5] c = Some 4) [3, 4, 5]"
    by (auto simp: demo_root)
  then show ?thesis using demo_parent by auto
qed

text \<open>
  The time span of a built trace covers every span and is tight: its start is the start
  of one of the spans, its end the end of one of them, and \<open>Duration\<close> is their distance in
  milliseconds.
\<close>

theorem BuildTraceTree_bounds:
  assumes "allocated h as" "as \<noteq> []"
  shows "\<exists>h' t. BuildTraceTree h as = Inr (h', Some t) \<and>
     (\<forall>a\<in>set as. tr_StartTime t \<le> sp_StartTime (sp_at h a) \<and>
        sp_EndTime (sp_at h a) \<le> tr_EndTime t) \<and>
     (\<exists>a\<in>set as. tr_StartTime t = sp_StartTime (sp_at h a)) \<and>
     (\<exists>a\<in>set as. tr_EndTime t = sp_EndTime (sp_at h a)) \<and>
     tr_Duration t = Fin (real_of_int (time_sub (tr_EndTime t) (tr_StartTime t)) / 10 ^ 6)"
proof -
  from BuildTraceTree_eq [OF assms] obtain st en where
    b: "BuildTraceTree h as = Inr (tree_heap h as, Some
        \<lparr>tr_TraceID = sp_TraceID (sp_at h (hd as)), tr_Spans = as, tr_RootSpan = last_root h as,
         tr_StartTime = st, tr_EndTime = en,
         tr_Duration = f_div (f_of_int (time_sub en st)) (Fin (10 ^ 6))\<rparr>)"
    and bnd: "\<forall>a\<in>set as. st \<le> sp_StartTime (sp_at h a) \<and> sp_EndTime (sp_at h a) \<le> en"
      "st \<in> (\<lambda>a. sp_StartTime (sp_at h a)) ` set as"
      "en \<in> (\<lambda>a. sp_EndTime (sp_at h a)) ` set as"
    by blast
  let ?t = "\<lparr>tr_TraceID = sp_TraceID (sp_at h (hd as)), tr_Spans = as, tr_RootSpan = last_root h as,
      tr_StartTime = st, tr_EndTime = en,
      tr_Duration = f_div (f_of_int (time_sub en st)) (Fin (10 ^ 6))\<rparr>"
  show ?thesis
    by (rule exI [of _ "tree_heap h as"], rule exI [of _ ?t])
       (use b bnd in \<open>auto simp: f_of_int_def\<close>)
qed

theorem BuildTraceTree_bounds_witness:
  "\<exists>h' t. BuildTraceTree demo_heap [3, 4, 5] = Inr (h', Some t) \<and>
     tr_StartTime t \<le> 0 \<and> 9 \<le> tr_EndTime t"
  using BuildTraceTree_bounds [of demo_heap "[3, 4, 5]"] demo_fresh
  by (fastforce simp: fresh_spans_def sp_at_def demo_heap_def)

text \<open>
  The pointers among the spans of the slice: a child is a span of the slice whose parent it is,
  and the pointers under the root form a finite tree.
\<close>

definition span_pointers :: "heap \<Rightarrow> addr list \<Rightarrow> heap" where
  "span_pointers h as = tree_heap h as |` set as"

lemma span_pointers_kids:
  assumes "fresh_spans h as"
  shows "kids (span_pointers h as) p = (if p \<in> set as then filter (\<lambda>c. parent_of h as c = Some p) as else [])"
proof (cases "p \<in> set as")
  case True
  then have "kids (span_pointers h as) p = kids (tree_heap h as) p" by (simp add: kids_def span_pointers_def)
  with fresh_kids [OF assms True] True show ?thesis by simp
qed (simp add: kids_def span_pointers_def)

lemma built_tree:
  assumes "fresh_spans h as" "last_root h as = Some r"
  obtains t tr where "BuildTraceTree h as = Inr (tree_heap h as, Some t)" "tr_RootSpan t = Some r"
    "unfold_tree (span_pointers h as) (length as) r = Some tr"
    "unfold_tree (tree_heap h as) (length as) r = Some tr"
proof -
  let ?g = "span_pointers h as"
  have al: "allocated h as" using assms(1) by (simp add: fresh_spans_def)
  have r: "r \<in> set as" using last_root_Some [OF assms(2)] by simp
  then have "as \<noteq> []" by auto
  have kid: "parent_of h as c = Some p \<and> c \<in> set as" if "c \<in> set (kids ?g p)" for p c
    using that span_pointers_kids [OF assms(1)] by (auto split: if_splits)
  have "allocated ?g as" using tree_heap_allocated [OF al] by (simp add: allocated_def span_pointers_def)
  moreover have "parent_of h as r = None" using assms(2) by (rule last_root_no_parent)
  ultimately obtain tr where u: "unfold_tree ?g (length as) r = Some tr"
    using unfold_tree_total [of ?g "parent_of h as" as r] kid r by blast
  then have "unfold_tree (tree_heap h as) (length as) r = Some tr"
    by (rule unfold_tree_mono [rotated]) (simp add: map_le_def span_pointers_def)
  with BuildTraceTree_eq [OF al \<open>as \<noteq> []\<close>] assms(2) u that show thesis by fastforce
qed

text \<open>
  Whatever the parent ids say (cycles, self-references, missing parents, duplicate
  ids), the pointers that \<open>BuildTraceTree\<close> leaves under its root form a finite tree of at
  most as many levels as there are spans, so the recursions over a trace come to an end.
\<close>

theorem BuildTraceTree_terminates:
  assumes "fresh_spans h as" "last_root h as = Some r"
  shows "\<exists>h' t tr. BuildTraceTree h as = Inr (h', Some t) \<and> tr_RootSpan t = Some r \<and>
     unfold_tree h' (length as) r = Some tr"
  using built_tree [OF assms] by metis

theorem BuildTraceTree_terminates_witness:
  "\<exists>h' t tr. BuildTraceTree demo_heap [3, 4, 5] = Inr (h', Some t) \<and> tr_RootSpan t = Some 4 \<and>
     unfold_tree h' (length [3 :: nat, 4, 5]) 4 = Some tr"
  using BuildTraceTree_terminates [OF demo_fresh demo_root] .

end
