(* ===== verification/Config.thy ===== *)
theory Config
  imports Go_Strings Go_Float
begin

text \<open>
  \<open>pkg/config/config.go\<close>: the sections of the configuration, the global \<open>AppConfig\<close> and the
  data source name. Reading and decoding the YAML file is the business of the viper package;
  its answers are arguments of \<open>Load\<close>.
\<close>

record server_config =
  sv_HTTPPort :: int
  sv_GRPCPort :: int

record clickhouse_config =
  ch_Host :: string
  ch_Port :: int
  ch_Database :: string
  ch_Username :: string
  ch_Password :: string
  ch_MaxOpenConns :: int
  ch_MaxIdleConns :: int
  ch_BatchSize :: int
  ch_QueueCapacity :: int
  ch_FlushInterval :: int
  ch_MaxRetries :: int

record sampling_config =
  sc_HighLatencyThresholdMs :: int
  sc_HighLatencySampleRate :: f64
  sc_LowLatencySampleRate :: f64

record ebpf_config =
  eb_PerfBufferSize :: int
  eb_PollTimeoutMs :: int

record protocol_config =
  pc_Enabled :: bool
  pc_Ports :: "int list"

record protocols_config =
  ps_HTTP :: protocol_config
  ps_GRPC :: protocol_config
  ps_Redis :: protocol_config

record alertmanager_section =
  ac_Enabled :: bool
  ac_URL :: string
  ac_TimeoutMs :: int

record anomaly_config =
  an_Enabled :: bool
  an_Alpha :: f64
  an_DeviationThreshold :: f64
  an_MinSamples :: int
  an_CooldownSeconds :: int
  an_AlertManager :: alertmanager_section

record compression_config =
  zc_Enabled :: bool
  zc_CompressionLevel :: int
  zc_MaxCacheSize :: int
  zc_SimilarityThreshold :: f64

record flamegraph_config =
  fg_Enabled :: bool
  fg_DefaultWidth :: int
  fg_HeightPerFrame :: int
  fg_MaxDepth :: int

record envoy_config =
  ec_Enabled :: bool
  ec_DetectAllPorts :: bool

record config =
  cg_Server :: server_config
  cg_ClickHouse :: clickhouse_config
  cg_Sampling :: sampling_config
  cg_EBPF :: ebpf_config
  cg_Protocols :: protocols_config
  cg_Anomaly :: anomaly_config
  cg_Compression :: compression_config
  cg_FlameGraph :: flamegraph_config
  cg_Envoy :: envoy_config

text \<open>
  \<open>Load\<close> sets the global \<open>AppConfig\<close>. What viper answers is an argument: the error of
  reading the file, and the error of decoding it with the sections as they are decoded. A file
  that cannot be read leaves \<open>AppConfig\<close> alone; one that cannot be decoded replaces it all
  the same, by what has been decoded so far.
\<close>

definition Load ::
  "string option \<Rightarrow> string option \<times> config \<Rightarrow> config option \<Rightarrow> string option \<times> config option"
where
  "Load read unmarshal appConfig =
     (case read of
        Some err \<Rightarrow> (Some (''failed to read config file: '' @ err), appConfig)
      | None \<Rightarrow> (case unmarshal of
          (Some err, c) \<Rightarrow> (Some (''failed to unmarshal config: '' @ err), Some c)
        | (None, c) \<Rightarrow> (None, Some c)))"

definition DSN :: "clickhouse_config \<Rightarrow> string" where
  "DSN c = ''clickhouse://'' @ ch_Username c @ '':'' @ ch_Password c @ ''@'' @ ch_Host c @ '':'' @
     int_dec (ch_Port c) @ ''/'' @ ch_Database c"

end
