(* ===== verification/Go_Chan.thy ===== *)
theory Go_Chan
  imports Go_Prelude
begin

text \<open>
  Buffered channels. The program uses them as lossy queues: a non-blocking send
  (\<open>select\<close> with a \<open>default\<close> branch) that drops the value when the buffer is full, and a
  receive that takes the oldest value. The locale \<open>lossy_queue\<close> is that contract for a
  component that holds such a channel; the storage queue and the alert channel are its
  interpretations. The locale \<open>sliding_queue\<close> is the opposite policy, a bounded queue that
  makes room by dropping its oldest entry; the in-flight queues of the correlator are its
  interpretation.
\<close>

definition chan_send :: "nat \<Rightarrow> 'a list \<Rightarrow> 'a \<Rightarrow> 'a list option" where
  "chan_send cap q x = (if length q < cap then Some (q @ [x]) else None)"

lemma chan_send_Some: "chan_send cap q x = Some q' \<longleftrightarrow> length q < cap \<and> q' = q @ [x]"
  by (auto simp: chan_send_def)

lemma chan_send_None: "chan_send cap q x = None \<longleftrightarrow> cap \<le> length q"
  by (auto simp: chan_send_def)

locale lossy_queue =
  fixes offer :: "'a \<Rightarrow> 's \<Rightarrow> 's"
    and queue :: "'s \<Rightarrow> 'b list"
    and entry :: "'a \<Rightarrow> 'b"
    and cap :: "'s \<Rightarrow> nat"
  assumes accepted: "length (queue s) < cap s \<Longrightarrow> queue (offer x s) = queue s @ [entry x]"
    and full: "cap s \<le> length (queue s) \<Longrightarrow> queue (offer x s) = queue s"
    and cap_fixed: "cap (offer x s) = cap s"
begin

lemma cap_run: "cap (fold offer xs s) = cap s"
  by (induction xs arbitrary: s) (simp_all add: cap_fixed)

text \<open>The queue never outgrows its capacity, keeps the order, and loses only the newest.\<close>

lemma bounded: "length (queue s) \<le> cap s \<Longrightarrow> length (queue (offer x s)) \<le> cap (offer x s)"
  by (cases "length (queue s) < cap s") (simp_all add: accepted full cap_fixed)

lemma bounded_run: "length (queue s) \<le> cap s \<Longrightarrow> length (queue (fold offer xs s)) \<le> cap s"
proof (induction xs arbitrary: s)
  case (Cons x xs)
  from Cons.IH [OF bounded [OF Cons.prems]] show ?case by (simp add: cap_fixed)
qed simp

lemma keeps_oldest:
  "length (queue s) \<le> cap s \<Longrightarrow>
   queue (fold offer xs s) = queue s @ take (cap s - length (queue s)) (map entry xs)"
proof (induction xs arbitrary: s)
  case Nil
  then show ?case by simp
next
  case (Cons x xs)
  show ?case
  proof (cases "length (queue s) < cap s")
    case True
    then have "cap s - length (queue s) = Suc (cap s - Suc (length (queue s)))" by simp
    with True Cons.IH [of "offer x s"] show ?thesis by (simp add: accepted cap_fixed)
  next
    case False
    with Cons.prems Cons.IH [of "offer x s"] show ?thesis by (simp add: full cap_fixed)
  qed
qed

end


lemma take_keeps_newest:
  "length q \<le> n \<Longrightarrow>
   drop (length (drop (length q + 1 - n) (q @ [x])) + length ys - n) (drop (length q + 1 - n) (q @ [x]) @ ys) =
   drop (length q + Suc (length ys) - n) (q @ x # ys)"
proof -
  assume le: "length q \<le> n"
  show ?thesis
  proof (cases "length q < n")
    case True
    then show ?thesis by simp
  next
    case False
    with le have n: "n = length q" by simp
    show ?thesis by (cases q) (simp_all add: n)
  qed
qed

locale sliding_queue =
  fixes push :: "'a \<Rightarrow> 's \<Rightarrow> 's"
    and queue :: "'s \<Rightarrow> 'b list"
    and entry :: "'a \<Rightarrow> 'b"
    and cap :: "'s \<Rightarrow> nat"
    and fits :: "'a \<Rightarrow> bool"
  assumes pushed: "fits x \<Longrightarrow> 0 < cap s \<Longrightarrow> length (queue s) \<le> cap s \<Longrightarrow>
      queue (push x s) = (if length (queue s) = cap s then tl (queue s) else queue s) @ [entry x]"
    and cap_fixed: "fits x \<Longrightarrow> cap (push x s) = cap s"
begin

lemma pushed_drop:
  assumes "fits x" "0 < cap s" "length (queue s) \<le> cap s"
  shows "queue (push x s) = drop (length (queue s) + 1 - cap s) (queue s @ [entry x])"
  using pushed [OF assms] assms(2,3) by (cases "queue s") auto

lemma bounded:
  assumes "fits x" "0 < cap s" "length (queue s) \<le> cap s"
  shows "length (queue (push x s)) \<le> cap (push x s)"
  using pushed_drop [OF assms] assms(2,3) by (simp add: cap_fixed [OF assms(1)])

text \<open>After any number of pushes the queue holds the newest entries, in order.\<close>

lemma keeps_newest:
  "list_all fits xs \<Longrightarrow> 0 < cap s \<Longrightarrow> length (queue s) \<le> cap s \<Longrightarrow>
   queue (fold push xs s) =
     drop (length (queue s) + length xs - cap s) (queue s @ map entry xs)"
proof (induction xs arbitrary: s)
  case Nil
  then show ?case by simp
next
  case (Cons x xs)
  then have x: "fits x" "0 < cap s" "length (queue s) \<le> cap s" by simp_all
  have "queue (fold push xs (push x s)) =
      drop (length (queue (push x s)) + length xs - cap s) (queue (push x s) @ map entry xs)"
    using Cons.IH [of "push x s"] Cons.prems bounded [OF x] by (simp add: cap_fixed)
  with take_keeps_newest [OF x(3), of "entry x" "map entry xs"] show ?case
    by (simp add: pushed_drop [OF x])
qed

end

end
