(* ===== verification/Storage.thy ===== *)
theory Storage
  imports Trace_Tree Config Go_Chan
begin

text \<open>
  \<open>pkg/storage/clickhouse.go\<close>: the bounded write queue, the batch writer with its retries,
  the rows it inserts and how they are read back, and the query builder. The ClickHouse
  driver is outside the program: the outcome of each of its calls is an argument, the rows a
  query yields are an argument too. Queue and batches hold pointers, as in the code; a row is
  built from the span when the batch is flushed.
\<close>

section \<open>Data\<close>

record store_stats =
  sa_TotalSpans :: u64
  sa_FlushedBatches :: u64
  sa_FailedBatches :: u64
  sa_RetriedBatches :: u64
  sa_DroppedSpans :: u64

definition zero_store_stats :: store_stats where
  "zero_store_stats = \<lparr>sa_TotalSpans = 0, sa_FlushedBatches = 0, sa_FailedBatches = 0,
     sa_RetriedBatches = 0, sa_DroppedSpans = 0\<rparr>"

text \<open>
  The store with the local variable \<open>batch\<close> of its writer. \<open>cs_stopped\<close> and
  \<open>cs_queueClosed\<close>: the two channels are closed; \<open>cs_wg\<close> is the counter of the wait group.
\<close>

record clickhouse_store =
  cs_database :: string
  cs_writeQueue :: "addr list"
  cs_queueCapacity :: nat
  cs_batchSize :: nat
  cs_flushInterval :: gduration
  cs_maxRetries :: nat
  cs_stats :: store_stats
  cs_stopped :: bool
  cs_queueClosed :: bool
  cs_wg :: nat
  cs_batch :: "addr list"

text \<open>The store as \<open>NewClickHouseStore\<close> returns it once the server has answered.\<close>

definition NewClickHouseStore :: "clickhouse_config \<Rightarrow> clickhouse_store" where
  "NewClickHouseStore cfg =
     \<lparr>cs_database = ch_Database cfg,
      cs_writeQueue = [],
      cs_queueCapacity = (if 0 < ch_QueueCapacity cfg then nat (ch_QueueCapacity cfg) else 100000),
      cs_batchSize = (if 0 < ch_BatchSize cfg then nat (ch_BatchSize cfg) else 10000),
      cs_flushInterval = (if 0 < ch_FlushInterval cfg
                          then wrap64 (ch_FlushInterval cfg * second) else 5 * second),
      cs_maxRetries = (if 0 < ch_MaxRetries cfg then nat (ch_MaxRetries cfg) else 3),
      cs_stats = zero_store_stats,
      cs_stopped = False, cs_queueClosed = False, cs_wg = 2, cs_batch = []\<rparr>"

section \<open>Strings and tags\<close>

definition padString :: "string \<Rightarrow> nat \<Rightarrow> string" where
  "padString s n = (if n \<le> length s then take n s else s @ replicate (n - length s) CHR 0x00)"

definition truncate_str :: "string \<Rightarrow> nat \<Rightarrow> string" where
  "truncate_str s maxLen = (if length s \<le> maxLen then s else take maxLen s)"

definition str_contains :: "string \<Rightarrow> string \<Rightarrow> bool" where
  "str_contains s sub \<longleftrightarrow> str_index sub s \<noteq> None"

text \<open>\<open>err\<close> is the text of the error, \<open>None\<close> the nil error.\<close>

definition isTooManyParts :: "string option \<Rightarrow> bool" where
  "isTooManyParts err \<longleftrightarrow> (case err of None \<Rightarrow> False | Some t \<Rightarrow> str_contains t ''Too many parts'')"

text \<open>\<open>%v\<close> of a tag value.\<close>

fun tag_text :: "tag_value \<Rightarrow> string" where
  "tag_text (TagInt i) = int_dec i"
| "tag_text (TagU64 w) = nat_dec (unat w)"
| "tag_text (TagU32 w) = nat_dec (unat w)"
| "tag_text (TagU8 w) = nat_dec (unat w)"
| "tag_text (TagBool b) = (if b then ''true'' else ''false'')"
| "tag_text (TagStr s) = s"

text \<open>The order in which Go visits the map is unspecified: \<open>keys\<close> is that order.\<close>

definition spanTagsToString :: "string list \<Rightarrow> (string \<rightharpoonup> tag_value) \<Rightarrow> string" where
  "spanTagsToString keys tags =
     (if keys = [] then ''''
      else str_join '','' (map (\<lambda>k. k @ ''='' @ tag_text (the (tags k))) keys))"

fun parse_tag_parts :: "string list \<Rightarrow> (string \<rightharpoonup> tag_value) \<Rightarrow> (string \<rightharpoonup> tag_value)" where
  "parse_tag_parts [] tags = tags"
| "parse_tag_parts (part # parts) tags =
     (case str_split2 ''='' part of
        [k, v] \<Rightarrow> parse_tag_parts parts (tags(k \<mapsto> TagStr v))
      | _ \<Rightarrow> parse_tag_parts parts tags)"

definition parseSpanTags :: "string \<Rightarrow> (string \<rightharpoonup> tag_value)" where
  "parseSpanTags s =
     (if s = '''' then Map.empty else parse_tag_parts (str_split '','' s) Map.empty)"

section \<open>Rows\<close>

text \<open>\<open>net.ParseIP\<close> on dotted decimal text (the program stores no other addresses).\<close>

definition ip_octet :: "string \<Rightarrow> nat option" where
  "ip_octet s =
     (if s = '''' \<or> \<not> list_all is_digit s \<or> 3 < length s \<or> (1 < length s \<and> s ! 0 = CHR ''0'') then None
      else if 255 < digits_val 0 s then None else Some (digits_val 0 s))"

definition ParseIP :: "string \<Rightarrow> nat list option" where
  "ParseIP s =
     (case map ip_octet (str_split ''.'' s) of
        [Some a, Some b, Some c, Some d] \<Rightarrow> Some [a, b, c, d]
      | _ \<Rightarrow> None)"

definition IP_String :: "nat list option \<Rightarrow> string" where
  "IP_String ip = (case ip of None \<Rightarrow> ''<nil>'' | Some bs \<Rightarrow> str_join ''.'' (map nat_dec bs))"

record span_row =
  rw_timestamp :: gtime
  rw_trace_id :: string
  rw_span_id :: string
  rw_parent_span_id :: string
  rw_service_name :: string
  rw_operation :: string
  rw_protocol :: string
  rw_event_type :: string
  rw_start_time :: gtime
  rw_end_time :: gtime
  rw_duration_ms :: f64
  rw_error_code :: "32 word"
  rw_payload_size :: u32
  rw_payload :: string
  rw_source_ip :: "nat list option"
  rw_dest_ip :: "nat list option"
  rw_source_port :: u16
  rw_dest_port :: u16
  rw_pid :: u32
  rw_comm :: string
  rw_path :: string
  rw_tags :: string

text \<open>The values that \<open>doFlush\<close> appends for one span.\<close>

definition span_row_of :: "string list \<Rightarrow> span \<Rightarrow> span_row" where
  "span_row_of keys sp =
     \<lparr>rw_timestamp = sp_StartTime sp,
      rw_trace_id = padString (sp_TraceID sp) 32,
      rw_span_id = padString (sp_SpanID sp) 16,
      rw_parent_span_id = padString (sp_ParentSpanID sp) 16,
      rw_service_name = sp_ServiceName sp,
      rw_operation = sp_Operation sp,
      rw_protocol = sp_Protocol sp,
      rw_event_type = sp_EventType sp,
      rw_start_time = sp_StartTime sp,
      rw_end_time = sp_EndTime sp,
      rw_duration_ms = sp_DurationMs sp,
      rw_error_code = sp_ErrorCode sp,
      rw_payload_size = sp_PayloadSize sp,
      rw_payload = truncate_str (sp_Payload sp) 1024,
      rw_source_ip = ParseIP (sp_SourceIP sp),
      rw_dest_ip = ParseIP (sp_DestIP sp),
      rw_source_port = sp_SourcePort sp,
      rw_dest_port = sp_DestPort sp,
      rw_pid = sp_PID sp,
      rw_comm = sp_Comm sp,
      rw_path = sp_Path sp,
      rw_tags = (case sp_Tags sp of None \<Rightarrow> '''' | Some tags \<Rightarrow> spanTagsToString keys tags)\<rparr>"

text \<open>The span that \<open>GetTraceByID\<close> makes of a row.\<close>

definition span_of_row :: "span_row \<Rightarrow> span" where
  "span_of_row r =
     \<lparr>sp_TraceID = trim_space (rw_trace_id r),
      sp_SpanID = trim_space (rw_span_id r),
      sp_ParentSpanID = trim_space (rw_parent_span_id r),
      sp_ServiceName = rw_service_name r,
      sp_Operation = rw_operation r,
      sp_Protocol = rw_protocol r,
      sp_EventType = rw_event_type r,
      sp_StartTime = rw_start_time r,
      sp_EndTime = rw_end_time r,
      sp_DurationMs = rw_duration_ms r,
      sp_ErrorCode = rw_error_code r,
      sp_PayloadSize = rw_payload_size r,
      sp_Payload = rw_payload r,
      sp_SourceIP = IP_String (rw_source_ip r),
      sp_DestIP = IP_String (rw_dest_ip r),
      sp_SourcePort = rw_source_port r,
      sp_DestPort = rw_dest_port r,
      sp_PID = rw_pid r,
      sp_Comm = rw_comm r,
      sp_Path = rw_path r,
      sp_Children = [],
      sp_Tags = Some (parseSpanTags (rw_tags r))\<rparr>"

section \<open>Writing\<close>

definition SaveSpan :: "addr \<Rightarrow> clickhouse_store \<Rightarrow> (string option \<times> clickhouse_store) go" where
  "SaveSpan a s =
     (let s = s\<lparr>cs_stats := (cs_stats s)\<lparr>sa_TotalSpans := sa_TotalSpans (cs_stats s) + 1\<rparr>\<rparr> in
      if cs_queueClosed s then Inl SendOnClosedChan
      else
        case chan_send (cs_queueCapacity s) (cs_writeQueue s) a of
          Some q \<Rightarrow> Inr (None, s\<lparr>cs_writeQueue := q\<rparr>)
        | None \<Rightarrow>
            Inr (Some ''write queue full'',
                 s\<lparr>cs_stats := (cs_stats s)\<lparr>sa_DroppedSpans := sa_DroppedSpans (cs_stats s) + 1\<rparr>\<rparr>))"

text \<open>
  One attempt to insert a batch: the driver prepares, takes the rows (\<open>app a\<close> tells whether
  it takes the row of \<open>a\<close>, a refused row is skipped) and sends.
\<close>

datatype send_outcome = PrepareFails string | SendFails string | SendOk

fun batch_rows ::
  "(addr \<Rightarrow> string list) \<Rightarrow> heap \<Rightarrow> (addr \<Rightarrow> bool) \<Rightarrow> addr list \<Rightarrow> span_row list go"
where
  "batch_rows keys h app [] = Inr []"
| "batch_rows keys h app (a # as) =
     go_bind (deref h a) (\<lambda>sp.
     go_bind (batch_rows keys h app as) (\<lambda>rs.
       Inr (if app a then span_row_of (keys a) sp # rs else rs)))"

definition doFlush ::
  "(addr \<Rightarrow> string list) \<Rightarrow> heap \<Rightarrow> (addr \<Rightarrow> bool) \<Rightarrow> send_outcome \<Rightarrow> addr list \<Rightarrow>
   (string option \<times> span_row list) go"
where
  "doFlush keys h app out batch =
     (case out of
        PrepareFails t \<Rightarrow> Inr (Some (''preparing batch: '' @ t), [])
      | SendFails t \<Rightarrow>
          go_bind (batch_rows keys h app batch) (\<lambda>_. Inr (Some (''sending batch: '' @ t), []))
      | SendOk \<Rightarrow> go_bind (batch_rows keys h app batch) (\<lambda>rs. Inr (None, rs)))"

text \<open>The deadline of the attempt.\<close>

definition flush_timeout :: "nat \<Rightarrow> gduration" where
  "flush_timeout n =
     (let t = wrap64 (int (n div 1000) * second);
          t = (if t < 10 * second then 10 * second else t)
      in if 60 * second < t then 60 * second else t)"

text \<open>\<open>time.Duration(1<<uint(attempt)) * 100 * time.Millisecond\<close>\<close>

definition backoff :: "nat \<Rightarrow> gduration" where
  "backoff attempt =
     wrap64 ((if attempt < 64 then wrap64 (2 ^ attempt) else 0) * 100 * millisecond)"

text \<open>
  The retry loop: \<open>n\<close> attempts are left, \<open>out i\<close> is the error of attempt \<open>i\<close> (\<open>None\<close> for
  success). The result is the last error, the number of retries and the sleeps.
\<close>

fun retry_loop ::
  "(nat \<Rightarrow> string option) \<Rightarrow> nat \<Rightarrow> nat \<Rightarrow> string option \<Rightarrow> string option \<times> nat \<times> gduration list"
where
  "retry_loop out 0 attempt lastErr = (lastErr, 0, [])"
| "retry_loop out (Suc n) attempt lastErr =
     (let retries = (if 0 < attempt then 1 else 0);
          pause = (if 0 < attempt then [backoff attempt] else [])
      in case out attempt of
           None \<Rightarrow> (None, retries, pause)
         | Some e \<Rightarrow>
             (case retry_loop out n (attempt + 1) (Some e) of
                (res, r, p) \<Rightarrow>
                  (res, retries + r,
                   pause @ (if isTooManyParts (Some e) then [2 * second] else []) @ p)))"

definition flushWithRetry ::
  "(nat \<Rightarrow> string option) \<Rightarrow> clickhouse_store \<Rightarrow> string option \<times> clickhouse_store"
where
  "flushWithRetry out s =
     (case retry_loop out (cs_maxRetries s + 1) 0 None of
        (err, retries, _) \<Rightarrow>
          (map_option (\<lambda>e. ''flush failed after '' @ nat_dec (cs_maxRetries s) @ '' attempts: '' @ e) err,
           s\<lparr>cs_stats := (cs_stats s)\<lparr>sa_RetriedBatches :=
               sa_RetriedBatches (cs_stats s) + of_nat retries\<rparr>\<rparr>))"

definition flushBatch ::
  "(nat \<Rightarrow> string option) \<Rightarrow> addr list \<Rightarrow> clickhouse_store \<Rightarrow> clickhouse_store"
where
  "flushBatch out batch s =
     (if batch = [] then s
      else
        case flushWithRetry out s of
          (Some e, s) \<Rightarrow>
            s\<lparr>cs_stats := (cs_stats s)\<lparr>sa_FailedBatches := sa_FailedBatches (cs_stats s) + 1\<rparr>\<rparr>
        | (None, s) \<Rightarrow>
            s\<lparr>cs_stats := (cs_stats s)\<lparr>sa_FlushedBatches := sa_FlushedBatches (cs_stats s) + 1\<rparr>\<rparr>)"

text \<open>The three branches of the writer's \<open>select\<close>; receiving blocks on an empty queue.\<close>

definition writer_recv ::
  "(nat \<Rightarrow> string option) \<Rightarrow> clickhouse_store \<Rightarrow> clickhouse_store option"
where
  "writer_recv out s =
     (case cs_writeQueue s of
        [] \<Rightarrow> None
      | a # q \<Rightarrow>
          let s = s\<lparr>cs_writeQueue := q, cs_batch := cs_batch s @ [a]\<rparr> in
          Some (if cs_batchSize s \<le> length (cs_batch s)
                then (flushBatch out (cs_batch s) s)\<lparr>cs_batch := []\<rparr> else s))"

definition writer_tick ::
  "(nat \<Rightarrow> string option) \<Rightarrow> clickhouse_store \<Rightarrow> clickhouse_store"
where
  "writer_tick out s =
     (if 0 < length (cs_batch s) then (flushBatch out (cs_batch s) s)\<lparr>cs_batch := []\<rparr> else s)"

text \<open>On \<open>stopChan\<close>: the last flush, then the deferred \<open>wg.Done()\<close>.\<close>

definition writer_stop ::
  "(nat \<Rightarrow> string option) \<Rightarrow> clickhouse_store \<Rightarrow> clickhouse_store option"
where
  "writer_stop out s =
     (if cs_stopped s
      then Some ((flushBatch out (cs_batch s) s)\<lparr>cs_batch := [], cs_wg := cs_wg s - 1\<rparr>)
      else None)"

text \<open>\<open>Close\<close>: closing the stop channel, then waiting for the group, then the queue.\<close>

definition Close_begin :: "clickhouse_store \<Rightarrow> clickhouse_store go" where
  "Close_begin s = (if cs_stopped s then Inl CloseOfClosedChan else Inr (s\<lparr>cs_stopped := True\<rparr>))"

definition Close_finish :: "clickhouse_store \<Rightarrow> clickhouse_store option" where
  "Close_finish s = (if cs_wg s = 0 then Some (s\<lparr>cs_queueClosed := True\<rparr>) else None)"

record store_report =
  rp_stats :: store_stats
  rp_QueueSize :: u64
  rp_QueueCapacity :: u64

definition Store_GetStats :: "clickhouse_store \<Rightarrow> store_report" where
  "Store_GetStats s =
     \<lparr>rp_stats = cs_stats s, rp_QueueSize = of_nat (length (cs_writeQueue s)),
      rp_QueueCapacity = of_nat (cs_queueCapacity s)\<rparr>"

section \<open>Reading\<close>

text \<open>
  What a query answers: an error, or the rows in order, each scanned or refused, with the
  error that ends the iteration, if any. The loop over the rows returns at the first row that
  cannot be scanned.
\<close>

type_synonym 'r query_result = "string + (string + 'r) list \<times> string option"

fun scan_rows :: "string \<Rightarrow> (string + 'r) list \<Rightarrow> string + 'r list" where
  "scan_rows what [] = Inr []"
| "scan_rows what (r # rs) =
     (case r of
        Inl err \<Rightarrow> Inl (what @ '': '' @ err)
      | Inr x \<Rightarrow> (case scan_rows what rs of Inl err \<Rightarrow> Inl err | Inr xs \<Rightarrow> Inr (x # xs)))"

lemma scan_rows_all [simp]: "scan_rows what (map Inr xs) = Inr xs"
  by (induction xs) simp_all

text \<open>Query, scan all rows, and check \<open>rows.Err()\<close>.\<close>

definition read_rows :: "string \<Rightarrow> string \<Rightarrow> 'r query_result \<Rightarrow> string + 'r list" where
  "read_rows querying scanning res =
     (case res of
        Inl err \<Rightarrow> Inl (querying @ '': '' @ err)
      | Inr (rows, fin) \<Rightarrow>
          (case scan_rows scanning rows of
             Inl err \<Rightarrow> Inl err
           | Inr xs \<Rightarrow> (case fin of Some err \<Rightarrow> Inl (''iterating rows: '' @ err) | None \<Rightarrow> Inr xs)))"

lemma read_rows_all [simp]: "read_rows querying scanning (Inr (map Inr xs, None)) = Inr xs"
  by (simp add: read_rows_def)

definition alloc_spans :: "addr \<Rightarrow> span list \<Rightarrow> heap \<Rightarrow> heap" where
  "alloc_spans base sps h =
     h ++ map_of (zip (map (\<lambda>i. base + i) [0..<length sps]) sps)"

text \<open>
  \<open>GetTraceByID\<close>: \<open>res\<close> is what the database answers to the query for the rows with this trace
  id, padded to 32 bytes, by start time. The spans are allocated from the fresh address \<open>base\<close> on.
\<close>

definition GetTraceByID ::
  "span_row query_result \<Rightarrow> addr \<Rightarrow> heap \<Rightarrow> string \<Rightarrow> (string + heap \<times> trace option) go"
where
  "GetTraceByID res base h traceID =
     (if traceID = '''' then Inr (Inl ''trace_id is required'')
      else
        case read_rows ''querying trace'' ''scanning span'' res of
          Inl err \<Rightarrow> Inr (Inl err)
        | Inr rs \<Rightarrow>
            if rs = [] then Inr (Inl (''trace not found: '' @ traceID))
            else
              go_bind (BuildTraceTree (alloc_spans base (map span_of_row rs) h)
                         (map (\<lambda>i. base + i) [0..<length rs])) (\<lambda>r. Inr (Inr r)))"

datatype sql_arg = ArgStr string | ArgTime gtime | ArgFloat f64 | ArgInt int

text \<open>
  The text and the arguments of the query of \<open>QueryTraces\<close>; \<open>add_filter\<close> is one of its
  conditional clauses with their argument.
\<close>

definition add_filter ::
  "bool \<Rightarrow> string \<Rightarrow> sql_arg \<Rightarrow> string \<times> sql_arg list \<Rightarrow> string \<times> sql_arg list"
where
  "add_filter cond clause arg b = (if cond then (fst b @ clause, snd b @ [arg]) else b)"

definition query_traces :: "trace_query \<Rightarrow> string \<times> sql_arg list" where
  "query_traces q =
     (let b = (''SELECT DISTINCT trace_id FROM spans WHERE 1=1'', []);
          b = add_filter (tq_ServiceName q \<noteq> '''') '' AND service_name = ?'' (ArgStr (tq_ServiceName q)) b;
          b = add_filter (tq_StartTime q \<noteq> None) '' AND start_time >= ?'' (ArgTime (the (tq_StartTime q))) b;
          b = add_filter (tq_EndTime q \<noteq> None) '' AND start_time <= ?'' (ArgTime (the (tq_EndTime q))) b;
          b = add_filter (tq_MinLatencyMs q \<noteq> None) '' AND duration_ms >= ?'' (ArgFloat (the (tq_MinLatencyMs q))) b;
          b = add_filter (tq_MaxLatencyMs q \<noteq> None) '' AND duration_ms <= ?'' (ArgFloat (the (tq_MaxLatencyMs q))) b;
          b = add_filter (tq_Protocol q \<noteq> '''') '' AND protocol = ?'' (ArgStr (tq_Protocol q)) b;
          b = add_filter (tq_TraceID q \<noteq> '''') '' AND trace_id = ?'' (ArgStr (padString (tq_TraceID q) 32)) b;
          b = (fst b @ '' ORDER BY start_time DESC'', snd b);
          b = add_filter (0 < tq_Limit q) '' LIMIT ?'' (ArgInt (tq_Limit q)) b
      in add_filter (0 < tq_Offset q) '' OFFSET ?'' (ArgInt (tq_Offset q)) b)"

section \<open>The store as a system of goroutines\<close>

text \<open>
  Callers of \<open>SaveSpan\<close>, the batch writer and one caller of \<open>Close\<close> interleave; a step is
  one operation. Three ghost fields record the history: the accepted spans, the flushes with
  their outcome, and the number of refused spans. The stats reporter only reads; it never
  returns, so its share of the wait group is never given back.
\<close>

datatype close_phase = CloseIdle | CloseWaiting | CloseReturned

record store_sys =
  sy_store :: clickhouse_store
  sy_writing :: bool
  sy_close :: close_phase
  sy_accepted :: "addr list"
  sy_refused :: nat
  sy_flushes :: "(bool \<times> addr list) list"

definition flush_record :: "(nat \<Rightarrow> string option) \<Rightarrow> clickhouse_store \<Rightarrow> addr list \<Rightarrow> (bool \<times> addr list) list" where
  "flush_record out s batch =
     (if batch = [] then [] else [(fst (flushWithRetry out s) = None, batch)])"

inductive store_step :: "store_sys \<Rightarrow> store_sys \<Rightarrow> bool" where
  save_ok: "SaveSpan a (sy_store s) = Inr (None, st) \<Longrightarrow>
     store_step s (s\<lparr>sy_store := st, sy_accepted := sy_accepted s @ [a]\<rparr>)"
| save_full: "SaveSpan a (sy_store s) = Inr (Some e, st) \<Longrightarrow>
     store_step s (s\<lparr>sy_store := st, sy_refused := sy_refused s + 1\<rparr>)"
| recv: "sy_writing s \<Longrightarrow> writer_recv out (sy_store s) = Some st \<Longrightarrow>
     cs_writeQueue (sy_store s) = a # q \<Longrightarrow>
     store_step s (s\<lparr>sy_store := st, sy_flushes := sy_flushes s @
       (if cs_batchSize (sy_store s) \<le> length (cs_batch (sy_store s) @ [a])
        then flush_record out (sy_store s) (cs_batch (sy_store s) @ [a]) else [])\<rparr>)"
| tick: "sy_writing s \<Longrightarrow>
     store_step s (s\<lparr>sy_store := writer_tick out (sy_store s), sy_flushes := sy_flushes s @
       flush_record out (sy_store s) (cs_batch (sy_store s))\<rparr>)"
| stop: "sy_writing s \<Longrightarrow> writer_stop out (sy_store s) = Some st \<Longrightarrow>
     store_step s (s\<lparr>sy_store := st, sy_writing := False, sy_flushes := sy_flushes s @
       flush_record out (sy_store s) (cs_batch (sy_store s))\<rparr>)"
| close_begin: "sy_close s = CloseIdle \<Longrightarrow> Close_begin (sy_store s) = Inr st \<Longrightarrow>
     store_step s (s\<lparr>sy_store := st, sy_close := CloseWaiting\<rparr>)"
| close_finish: "sy_close s = CloseWaiting \<Longrightarrow> Close_finish (sy_store s) = Some st \<Longrightarrow>
     store_step s (s\<lparr>sy_store := st, sy_close := CloseReturned\<rparr>)"

definition initial_sys :: "clickhouse_config \<Rightarrow> store_sys" where
  "initial_sys cfg =
     \<lparr>sy_store = NewClickHouseStore cfg, sy_writing = True, sy_close = CloseIdle,
      sy_accepted = [], sy_refused = 0, sy_flushes = []\<rparr>"

inductive store_reach :: "clickhouse_config \<Rightarrow> store_sys \<Rightarrow> bool" for cfg where
  initial: "store_reach cfg (initial_sys cfg)"
| step: "store_reach cfg s \<Longrightarrow> store_step s t \<Longrightarrow> store_reach cfg t"

inductive_cases store_stepE: "store_step s t"

lemma flushWithRetry_frame:
  "cs_writeQueue (snd (flushWithRetry out s)) = cs_writeQueue s"
  "cs_queueCapacity (snd (flushWithRetry out s)) = cs_queueCapacity s"
  "cs_batchSize (snd (flushWithRetry out s)) = cs_batchSize s"
  "cs_maxRetries (snd (flushWithRetry out s)) = cs_maxRetries s"
  "cs_stopped (snd (flushWithRetry out s)) = cs_stopped s"
  "cs_queueClosed (snd (flushWithRetry out s)) = cs_queueClosed s"
  "cs_wg (snd (flushWithRetry out s)) = cs_wg s"
  "cs_batch (snd (flushWithRetry out s)) = cs_batch s"
  "sa_FlushedBatches (cs_stats (snd (flushWithRetry out s))) = sa_FlushedBatches (cs_stats s)"
  "sa_FailedBatches (cs_stats (snd (flushWithRetry out s))) = sa_FailedBatches (cs_stats s)"
  "sa_TotalSpans (cs_stats (snd (flushWithRetry out s))) = sa_TotalSpans (cs_stats s)"
  "sa_DroppedSpans (cs_stats (snd (flushWithRetry out s))) = sa_DroppedSpans (cs_stats s)"
  by (simp_all add: flushWithRetry_def case_prod_beta)

lemma flushBatch_unfold:
  "flushBatch out batch s =
     (if batch = [] then s
      else let t = snd (flushWithRetry out s); ok = (fst (flushWithRetry out s) = None) in
        t\<lparr>cs_stats := (cs_stats t)
          \<lparr>sa_FailedBatches := sa_FailedBatches (cs_stats t) + (if ok then 0 else 1),
           sa_FlushedBatches := sa_FlushedBatches (cs_stats t) + (if ok then 1 else 0)\<rparr>\<rparr>)"
  by (auto simp: flushBatch_def Let_def split: prod.splits option.splits)

lemma flushBatch_frame [simp]:
  "cs_writeQueue (flushBatch out batch s) = cs_writeQueue s"
  "cs_queueCapacity (flushBatch out batch s) = cs_queueCapacity s"
  "cs_batchSize (flushBatch out batch s) = cs_batchSize s"
  "cs_maxRetries (flushBatch out batch s) = cs_maxRetries s"
  "cs_stopped (flushBatch out batch s) = cs_stopped s"
  "cs_queueClosed (flushBatch out batch s) = cs_queueClosed s"
  "cs_wg (flushBatch out batch s) = cs_wg s"
  "cs_batch (flushBatch out batch s) = cs_batch s"
  "sa_TotalSpans (cs_stats (flushBatch out batch s)) = sa_TotalSpans (cs_stats s)"
  "sa_DroppedSpans (cs_stats (flushBatch out batch s)) = sa_DroppedSpans (cs_stats s)"
  by (simp_all add: flushBatch_unfold Let_def flushWithRetry_frame)

lemma flushBatch_counts:
  "sa_FlushedBatches (cs_stats (flushBatch out batch s)) =
     sa_FlushedBatches (cs_stats s) + of_nat (length (filter fst (flush_record out s batch)))"
  "sa_FailedBatches (cs_stats (flushBatch out batch s)) =
     sa_FailedBatches (cs_stats s) + of_nat (length (filter (\<lambda>f. \<not> fst f) (flush_record out s batch)))"
  by (simp_all add: flushBatch_unfold flush_record_def Let_def flushWithRetry_frame)

lemma flush_record_batches: "concat (map snd (flush_record out s batch)) = batch"
  by (simp add: flush_record_def)

text \<open>The outcome of a flush depends on the store only through \<open>maxRetries\<close>.\<close>

lemma flushWithRetry_outcome:
  "cs_maxRetries s = cs_maxRetries t \<Longrightarrow> fst (flushWithRetry out s) = fst (flushWithRetry out t)"
  by (simp add: flushWithRetry_def case_prod_beta)

lemma flush_record_cong:
  "cs_maxRetries s = cs_maxRetries t \<Longrightarrow> flush_record out s b = flush_record out t b"
  by (simp add: flush_record_def flushWithRetry_outcome [of s t])

text \<open>The invariant.\<close>

definition store_inv :: "store_sys \<Rightarrow> bool" where
  "store_inv s \<longleftrightarrow> (let st = sy_store s in
     concat (map snd (sy_flushes s)) @ cs_batch st @ cs_writeQueue st = sy_accepted s \<and>
     length (cs_writeQueue st) \<le> cs_queueCapacity st \<and>
     length (cs_batch st) < cs_batchSize st \<and>
     sa_FlushedBatches (cs_stats st) = of_nat (length (filter fst (sy_flushes s))) \<and>
     sa_FailedBatches (cs_stats st) = of_nat (length (filter (\<lambda>f. \<not> fst f) (sy_flushes s))) \<and>
     sa_DroppedSpans (cs_stats st) = of_nat (sy_refused s) \<and>
     sa_TotalSpans (cs_stats st) = of_nat (length (sy_accepted s) + sy_refused s) \<and>
     cs_wg st = (if sy_writing s then 2 else 1) \<and>
     \<not> cs_queueClosed st \<and> sy_close s \<noteq> CloseReturned \<and>
     (sy_writing s \<or> cs_stopped st))"

lemma store_inv_initial: "store_inv (initial_sys cfg)"
  by (simp add: store_inv_def initial_sys_def NewClickHouseStore_def zero_store_stats_def)

lemma store_inv_step:
  assumes "store_inv s" "store_step s t"
  shows "store_inv t"
  using assms(2)
proof cases
  case (save_ok a st)
  with assms(1) show ?thesis
    by (auto simp: store_inv_def SaveSpan_def Let_def chan_send_def split: if_splits option.splits)
next
  case (save_full a e st)
  with assms(1) show ?thesis
    by (auto simp: store_inv_def SaveSpan_def Let_def chan_send_def split: if_splits option.splits)
next
  case (recv out st a q)
  let ?st = "(sy_store s)\<lparr>cs_writeQueue := q, cs_batch := cs_batch (sy_store s) @ [a]\<rparr>"
  have rec: "flush_record out ?st b = flush_record out (sy_store s) b" for b
    by (rule flush_record_cong) simp
  from recv show ?thesis
    using assms(1)
    by (auto simp: store_inv_def writer_recv_def Let_def flushBatch_counts rec flush_record_batches
        split: if_splits)
next
  case (tick out)
  with assms(1) show ?thesis
    by (auto simp: store_inv_def writer_tick_def Let_def flushBatch_counts flush_record_batches
        flush_record_def)
next
  case (stop out st)
  with assms(1) show ?thesis
    by (auto simp: store_inv_def writer_stop_def Let_def flushBatch_counts flush_record_batches
        split: if_splits)
next
  case (close_begin st)
  with assms(1) show ?thesis
    by (auto simp: store_inv_def Close_begin_def Let_def split: if_splits)
next
  case (close_finish st)
  with assms(1) show ?thesis
    by (auto simp: store_inv_def Close_finish_def Let_def split: if_splits)
qed

lemma store_reach_inv: "store_reach cfg s \<Longrightarrow> store_inv s"
  by (induction rule: store_reach.induct) (auto intro: store_inv_initial store_inv_step)

text \<open>After the writer has returned nothing is flushed any more.\<close>

lemma stopped_step:
  assumes "store_step s t" "\<not> sy_writing s"
  shows "\<not> sy_writing t \<and> sy_flushes t = sy_flushes s \<and>
     (\<exists>more. cs_writeQueue (sy_store t) = cs_writeQueue (sy_store s) @ more)"
  using assms
  by cases (auto simp: SaveSpan_def Let_def chan_send_def Close_begin_def Close_finish_def
      split: if_splits option.splits)

section \<open>Retries\<close>

lemma retry_success:
  "f < n \<Longrightarrow> out (k + f) = None \<Longrightarrow> (\<And>i. i < f \<Longrightarrow> out (k + i) \<noteq> None) \<Longrightarrow>
   fst (retry_loop out n k e) = None \<and>
   fst (snd (retry_loop out n k e)) = f + (if 0 < k then 1 else 0)"
proof (induction n arbitrary: k f e)
  case 0
  then show ?case by simp
next
  case (Suc n)
  show ?case
  proof (cases f)
    case 0
    with Suc.prems show ?thesis by simp
  next
    case (Suc g)
    with Suc.prems(3) [of 0] obtain t where t: "out k = Some t" by auto
    have later: "out (k + 1 + i) \<noteq> None" if "i < g" for i
      using Suc.prems(3) [of "Suc i"] that Suc by simp
    have "g < n" "out (k + 1 + g) = None" using Suc.prems(1,2) Suc by simp_all
    from Suc.IH [OF this later, where e = "Some t"] show ?thesis
      using Suc t by (auto simp: Let_def case_prod_beta)
  qed
qed

lemma retry_failure:
  "0 < n \<Longrightarrow> (\<And>i. i < n \<Longrightarrow> out (k + i) \<noteq> None) \<Longrightarrow>
   fst (retry_loop out n k e) \<noteq> None \<and>
   fst (snd (retry_loop out n k e)) = n - 1 + (if 0 < k then 1 else 0)"
proof (induction n arbitrary: k e)
  case 0
  then show ?case by simp
next
  case (Suc n)
  from Suc.prems(2) [of 0] obtain t where t: "out k = Some t" by auto
  show ?case
  proof (cases "n = 0")
    case True
    with t show ?thesis by (simp add: Let_def)
  next
    case False
    have later: "out (k + 1 + i) \<noteq> None" if "i < n" for i
      using Suc.prems(2) [of "Suc i"] that by simp
    from Suc.IH [OF _ later, where e = "Some t"] False show ?thesis
      using t by (auto simp: Let_def case_prod_beta)
  qed
qed

interpretation writes: lossy_queue
  "\<lambda>a s. case SaveSpan a s of Inr (_, s') \<Rightarrow> s' | Inl _ \<Rightarrow> s" cs_writeQueue
  "\<lambda>a. a" "\<lambda>s. if cs_queueClosed s then length (cs_writeQueue s) else cs_queueCapacity s"
  by unfold_locales (auto simp: SaveSpan_def Let_def chan_send_def split: if_splits)

section \<open>Strings read back\<close>

lemma NUL_no_space: "ws_len (CHR 0x00 # s) = 0" "ws_len_rev (CHR 0x00 # s) = 0"
  by (cases s; cases "tl s"; simp add: ascii_space_def wide_space2_def wide_space3_def)+

text \<open>White space is trimmed from the end of a string only up to a NUL byte.\<close>

lemma trim_left_keeps_last: "\<exists>t. trim_left (s @ [CHR 0x00]) = t @ [CHR 0x00]"
proof (induction "length s" arbitrary: s rule: less_induct)
  case less
  show ?case
  proof (cases "ws_len (s @ [CHR 0x00]) = 0")
    case True
    then show ?thesis by (simp add: trim_left_id)
  next
    case False
    let ?k = "ws_len (s @ [CHR 0x00])"
    have le: "?k \<le> length s"
    proof (rule ccontr)
      assume "\<not> ?k \<le> length s"
      with ws_len_le [of "s @ [CHR 0x00]"] have k: "?k = Suc (length s)" by simp
      then show False
        by (cases s; cases "tl s"; cases "tl (tl s)")
           (auto simp: NUL_no_space ascii_space_def wide_space2_def wide_space3_def split: if_splits)
    qed
    have "trim_left (s @ [CHR 0x00]) = trim_left (drop ?k s @ [CHR 0x00])"
      using False le by (subst trim_left.simps) simp
    moreover have "length (drop ?k s) < length s" using False le by simp
    ultimately show ?thesis using less by metis
  qed
qed

lemma trim_space_keeps_NUL: "trim_space (s @ [CHR 0x00]) \<noteq> ''''"
proof -
  obtain t where "trim_left (s @ [CHR 0x00]) = t @ [CHR 0x00]" using trim_left_keeps_last by blast
  then show ?thesis
    by (simp add: trim_space_def trim_left_rev_id NUL_no_space)
qed

lemma padString_NUL:
  assumes "length s < 16 \<or> s ! 15 = CHR 0x00"
  shows "trim_space (padString s 16) \<noteq> ''''"
proof -
  have "\<exists>t. padString s 16 = t @ [CHR 0x00]"
  proof (cases "length s < 16")
    case True
    then obtain n where "16 - length s = Suc n" by (cases "16 - length s") auto
    with True show ?thesis
      by (intro exI [of _ "s @ replicate n CHR 0x00"]) (simp add: padString_def replicate_append_same [symmetric])
  next
    case False
    with assms have "take 16 s = take 15 s @ [CHR 0x00]"
      using take_Suc_conv_app_nth [of 15 s] by simp
    with False show ?thesis by (simp add: padString_def)
  qed
  with trim_space_keeps_NUL show ?thesis by metis
qed

section \<open>Addresses and tags read back\<close>

lemma nat_dec_1: "n < 10 \<Longrightarrow> nat_dec n = [digit_char n]"
  by (subst nat_dec.simps) simp

lemma nat_dec_2:
  assumes "10 \<le> n" "n < 100"
  shows "nat_dec n = [digit_char (n div 10), digit_char (n mod 10)]"
proof -
  have "n div 10 < 10" using assms by presburger
  with assms show ?thesis by (subst nat_dec.simps) (simp add: nat_dec_1)
qed

lemma nat_dec_3:
  assumes "100 \<le> n" "n < 1000"
  shows "nat_dec n = [digit_char (n div 100), digit_char (n div 10 mod 10), digit_char (n mod 10)]"
proof -
  have "10 \<le> n div 10" "n div 10 < 100" using assms by presburger+
  with assms show ?thesis
    by (subst nat_dec.simps) (simp add: nat_dec_2 div_mult2_eq [symmetric])
qed

lemma digit_char_zero: "d < 10 \<Longrightarrow> digit_char d = CHR ''0'' \<Longrightarrow> d = 0"
  using digit_char_code [of d] by auto

lemma ip_octet_dec:
  assumes "n < 256"
  shows "ip_octet (nat_dec n) = Some n"
proof -
  have ds: "list_all is_digit (nat_dec n)" "digits_val 0 (nat_dec n) = n" "nat_dec n \<noteq> []"
    by (simp_all add: nat_dec_digits digits_val_nat_dec)
  have "length (nat_dec n) \<le> 3 \<and> (1 < length (nat_dec n) \<longrightarrow> nat_dec n ! 0 \<noteq> CHR ''0'')"
  proof -
    consider "n < 10" | "10 \<le> n" "n < 100" | "100 \<le> n" by linarith
    then show ?thesis
    proof cases
      case 1
      then show ?thesis by (simp add: nat_dec_1)
    next
      case 2
      then have "0 < n div 10" "n div 10 < 10" by presburger+
      then have "digit_char (n div 10) \<noteq> CHR ''0''" using digit_char_zero by (metis less_irrefl)
      then show ?thesis using nat_dec_2 [OF 2] by simp
    next
      case 3
      with assms have "0 < n div 100" "n div 100 < 10"
        by (simp_all add: div_greater_zero_iff less_mult_imp_div_less)
      then have "digit_char (n div 100) \<noteq> CHR ''0''" using digit_char_zero by (metis less_irrefl)
      moreover have "n < 1000" using assms by simp
      ultimately show ?thesis using nat_dec_3 [OF 3] by simp
    qed
  qed
  with ds assms show ?thesis by (simp add: ip_octet_def)
qed

lemma ip_octet_byte: "ip_octet (byte_dec w) = Some (unat (ucast w :: u8))"
proof -
  have "unat (ucast w :: u8) < 2 ^ LENGTH(8)" by (rule unsigned_less)
  then have "unat (ucast w :: u8) < 256" by simp
  then show ?thesis unfolding byte_dec_def by (rule ip_octet_dec)
qed

lemma IP_roundtrip: "IP_String (ParseIP (intToIP ip)) = intToIP ip"
proof -
  have "ParseIP (intToIP ip) = Some [unat (ucast ip :: u8), unat (ucast (drop_bit 8 ip) :: u8),
      unat (ucast (drop_bit 16 ip) :: u8), unat (ucast (drop_bit 24 ip) :: u8)]"
    by (simp add: ParseIP_def intToIP_split ip_octet_byte)
  then show ?thesis by (simp add: IP_String_def intToIP_def byte_dec_def)
qed

text \<open>A tag survives the round trip when no separator occurs in it.\<close>

definition tag_clean :: "(string \<rightharpoonup> tag_value) \<Rightarrow> string \<Rightarrow> bool" where
  "tag_clean tags k \<longleftrightarrow>
     CHR '','' \<notin> set k \<and> CHR ''='' \<notin> set k \<and>
     (\<forall>v. tags k = Some v \<longrightarrow> CHR '','' \<notin> set (tag_text v))"

lemma parse_tag_parts_keys:
  "\<forall>k\<in>set keys. tag_clean tags k \<Longrightarrow>
   parse_tag_parts (map (\<lambda>k. k @ ''='' @ tag_text (the (tags k))) keys) m =
     (\<lambda>k. if k \<in> set keys then Some (TagStr (tag_text (the (tags k)))) else m k)"
proof (induction keys arbitrary: m)
  case Nil
  then show ?case by simp
next
  case (Cons k keys)
  then have "CHR ''='' \<notin> set k" by (simp add: tag_clean_def)
  then have "str_split2 ''='' (k @ ''='' @ tag_text (the (tags k))) = [k, tag_text (the (tags k))]"
    using str_split2_char [of "CHR ''=''" k] by simp
  with Cons show ?case by (auto simp: fun_eq_iff)
qed

lemma parse_tags_text:
  assumes "set keys = dom tags" "\<forall>k\<in>dom tags. tag_clean tags k"
  shows "parseSpanTags (spanTagsToString keys tags) = (\<lambda>k. map_option (TagStr \<circ> tag_text) (tags k))"
proof (cases "keys = []")
  case True
  with assms(1) have "tags = Map.empty" by auto
  with True show ?thesis by (simp add: parseSpanTags_def spanTagsToString_def)
next
  case False
  let ?parts = "map (\<lambda>k. k @ ''='' @ tag_text (the (tags k))) keys"
  have clean: "CHR '','' \<notin> set p" if "p \<in> set ?parts" for p
    using that assms by (force simp: tag_clean_def dom_def)
  have "str_split '','' (str_join '','' ?parts) = ?parts"
    by (rule str_split_join_char) (use False clean in auto)
  moreover have "str_join '','' ?parts \<noteq> ''''"
    using False by (cases keys; cases "tl keys") auto
  ultimately have "parseSpanTags (spanTagsToString keys tags) =
      (\<lambda>k. if k \<in> set keys then Some (TagStr (tag_text (the (tags k)))) else None)"
    using False parse_tag_parts_keys [of keys tags Map.empty] assms
    by (simp add: parseSpanTags_def spanTagsToString_def)
  also have "\<dots> = (\<lambda>k. map_option (TagStr \<circ> tag_text) (tags k))"
    using assms(1) by (auto simp: fun_eq_iff)
  finally show ?thesis .
qed

section \<open>Traces read back\<close>

lemma alloc_spans_at:
  "i < length sps \<Longrightarrow> alloc_spans base sps h (base + i) = Some (sps ! i)"
proof -
  assume i: "i < length sps"
  have d: "distinct (map ((+) base) [0..<length sps])" by (simp add: distinct_map)
  have "map_of (zip (map ((+) base) [0..<length sps]) sps) (map ((+) base) [0..<length sps] ! i) =
      Some (sps ! i)"
    by (rule map_of_zip_nth) (use i d in simp_all)
  with i show ?thesis by (simp add: alloc_spans_def)
qed

lemma alloc_spans_mem:
  assumes "a \<in> set (map (\<lambda>i. base + i) [0..<length sps])"
  shows "\<exists>i<length sps. a = base + i \<and> alloc_spans base sps h a = Some (sps ! i)"
proof (intro exI conjI)
  from assms have "base \<le> a" "a < base + length sps" by auto
  then show "a - base < length sps" "a = base + (a - base)" by auto
  then show "alloc_spans base sps h a = Some (sps ! (a - base))"
    using alloc_spans_at [of "a - base" sps base h] by simp
qed

lemma GetTraceByID_tree:
  assumes "traceID \<noteq> ''''" "rs \<noteq> []"
    and "read_rows ''querying trace'' ''scanning span'' res = Inr rs"
  shows "\<exists>h' t. GetTraceByID res base h traceID = Inr (Inr (h', Some t)) \<and>
     tr_RootSpan t = last_root (alloc_spans base (map span_of_row rs) h) (map (\<lambda>i. base + i) [0..<length rs]) \<and>
     tr_Spans t = map (\<lambda>i. base + i) [0..<length rs]"
proof -
  let ?as = "map (\<lambda>i. base + i) [0..<length rs]" and ?h = "alloc_spans base (map span_of_row rs) h"
  have "allocated ?h ?as"
    unfolding allocated_def using alloc_spans_mem [of _ base "map span_of_row rs" h]
    by (metis length_map option.distinct(1))
  moreover have "?as \<noteq> []" using assms(2) by simp
  ultimately obtain st en where "BuildTraceTree ?h ?as = Inr (tree_heap ?h ?as, Some
        \<lparr>tr_TraceID = sp_TraceID (sp_at ?h (hd ?as)), tr_Spans = ?as, tr_RootSpan = last_root ?h ?as,
         tr_StartTime = st, tr_EndTime = en,
         tr_Duration = f_div (f_of_int (time_sub en st)) (Fin (10 ^ 6))\<rparr>)"
    using BuildTraceTree_eq by blast
  with assms show ?thesis by (simp add: GetTraceByID_def)
qed

lemma rows_no_root:
  assumes "\<forall>r\<in>set rs. trim_space (rw_parent_span_id r) \<noteq> ''''"
  shows "last_root (alloc_spans base (map span_of_row rs) h) (map (\<lambda>i. base + i) [0..<length rs]) = None"
proof (rule ccontr)
  assume "\<not> ?thesis"
  then obtain a where a: "a \<in> set (map (\<lambda>i. base + i) [0..<length rs])"
    "map_option sp_ParentSpanID (alloc_spans base (map span_of_row rs) h a) = Some ''''"
    using last_root_Some by (metis not_None_eq)
  then obtain i where "i < length rs"
    "alloc_spans base (map span_of_row rs) h a = Some (map span_of_row rs ! i)"
    using alloc_spans_mem [of a base "map span_of_row rs" h] by (metis length_map)
  with a(2) have "trim_space (rw_parent_span_id (rs ! i)) = ''''" by (simp add: span_of_row_def)
  with assms \<open>i < length rs\<close> show False by simp
qed

section \<open>The query\<close>

definition marks :: "string \<Rightarrow> nat" where
  "marks sql = length (filter (\<lambda>c. c = CHR ''?'') sql)"

lemma marks_add:
  "marks (fst b) = length (snd b) \<Longrightarrow> marks clause = 1 \<Longrightarrow>
   marks (fst (add_filter cond clause arg b)) = length (snd (add_filter cond clause arg b))"
  by (simp add: add_filter_def marks_def)

lemma query_counts: "marks (fst (query_traces q)) = length (snd (query_traces q))"
  unfolding query_traces_def Let_def
  by (intro marks_add) (simp_all add: marks_def marks_add [unfolded marks_def])

section \<open>Properties\<close>

text \<open>
  C8: Between \<open>SaveSpan\<close> and the server no span is lost, doubled or reordered: in every
  state that the callers, the writer and \<open>Close\<close> can reach, the batches flushed so far
  (successfully or not), the batch being filled and the queue are, one after the other, the
  accepted spans in the order of their acceptance; queue and batch respect their limits, and
  the statistics count exactly the accepted, refused, flushed and failed ones.
\<close>

theorem store_keeps_accepted_spans:
  assumes "store_reach cfg s"
  shows "concat (map snd (sy_flushes s)) @ cs_batch (sy_store s) @ cs_writeQueue (sy_store s) =
       sy_accepted s \<and>
     length (cs_writeQueue (sy_store s)) \<le> cs_queueCapacity (sy_store s) \<and>
     length (cs_batch (sy_store s)) < cs_batchSize (sy_store s) \<and>
     sa_TotalSpans (cs_stats (sy_store s)) = of_nat (length (sy_accepted s) + sy_refused s) \<and>
     sa_DroppedSpans (cs_stats (sy_store s)) = of_nat (sy_refused s) \<and>
     sa_FlushedBatches (cs_stats (sy_store s)) = of_nat (length (filter fst (sy_flushes s))) \<and>
     sa_FailedBatches (cs_stats (sy_store s)) = of_nat (length (filter (\<lambda>f. \<not> fst f) (sy_flushes s)))"
  using store_reach_inv [OF assms] by (simp add: store_inv_def Let_def)

definition demo_store_config :: clickhouse_config where
  "demo_store_config =
     \<lparr>ch_Host = ''db'', ch_Port = 9000, ch_Database = ''apm'', ch_Username = '''', ch_Password = '''',
      ch_MaxOpenConns = 1, ch_MaxIdleConns = 1, ch_BatchSize = 2, ch_QueueCapacity = 1,
      ch_FlushInterval = 5, ch_MaxRetries = 3\<rparr>"

definition saved_sys :: store_sys where
  "saved_sys = (initial_sys demo_store_config)
     \<lparr>sy_store := (NewClickHouseStore demo_store_config)
        \<lparr>cs_writeQueue := [7], cs_stats := zero_store_stats\<lparr>sa_TotalSpans := 1\<rparr>\<rparr>,
      sy_accepted := [7]\<rparr>"

lemma saved_reach: "store_reach demo_store_config saved_sys"
proof -
  have "SaveSpan 7 (sy_store (initial_sys demo_store_config)) = Inr (None, sy_store saved_sys)"
    by (simp add: SaveSpan_def chan_send_def initial_sys_def saved_sys_def NewClickHouseStore_def
        demo_store_config_def zero_store_stats_def)
  from store_step.save_ok [OF this] have "store_step (initial_sys demo_store_config) saved_sys"
    by (simp add: saved_sys_def initial_sys_def)
  with store_reach.initial show ?thesis by (rule store_reach.step)
qed

theorem store_keeps_accepted_spans_witness:
  "concat (map snd (sy_flushes saved_sys)) @ cs_batch (sy_store saved_sys) @
     cs_writeQueue (sy_store saved_sys) = [7]"
  using store_keeps_accepted_spans [OF saved_reach] by (simp add: saved_sys_def)

text \<open>
  C25: \<open>Close\<close> never returns. The wait group counts two goroutines and the stats reporter
  never leaves its loop, so the counter never reaches zero, the queue is never closed and
  the connection never released.
\<close>

theorem store_close_never_returns:
  assumes "store_reach cfg s"
  shows "Close_finish (sy_store s) = None \<and> sy_close s \<noteq> CloseReturned \<and>
     \<not> cs_queueClosed (sy_store s)"
  using store_reach_inv [OF assms] by (auto simp: store_inv_def Let_def Close_finish_def split: if_splits)

theorem store_close_never_returns_witness:
  "sy_close saved_sys \<noteq> CloseReturned"
  using store_close_never_returns [OF saved_reach] by simp

text \<open>
  When the writer has stopped, the spans left in the queue are never flushed: from then
  on no step changes the flushes, and the queue only grows, although \<open>SaveSpan\<close> still
  reports success.
\<close>

theorem store_stop_abandons_queue:
  assumes "store_step\<^sup>*\<^sup>* s t" "\<not> sy_writing s"
  shows "sy_flushes t = sy_flushes s \<and>
     (\<exists>more. cs_writeQueue (sy_store t) = cs_writeQueue (sy_store s) @ more)"
proof -
  from assms have "\<not> sy_writing t \<and> sy_flushes t = sy_flushes s \<and>
     (\<exists>more. cs_writeQueue (sy_store t) = cs_writeQueue (sy_store s) @ more)"
  proof (induction rule: rtranclp_induct)
    case base
    then show ?case by simp
  next
    case (step t u)
    then show ?case using stopped_step [of t u] by auto
  qed
  then show ?thesis by blast
qed

theorem store_stop_abandons_queue_witness:
  "\<exists>t. store_step\<^sup>*\<^sup>* (saved_sys\<lparr>sy_writing := False\<rparr>) t \<and> sy_flushes t = [] \<and>
     cs_writeQueue (sy_store t) \<noteq> []"
  using store_stop_abandons_queue [of "saved_sys\<lparr>sy_writing := False\<rparr>" "saved_sys\<lparr>sy_writing := False\<rparr>"]
  by (intro exI [of _ "saved_sys\<lparr>sy_writing := False\<rparr>"]) (auto simp: saved_sys_def initial_sys_def)

text \<open>
  C24: A flush succeeds exactly when one of its \<open>maxRetries + 1\<close> attempts does; the retry
  counter grows by the number of failed attempts before the first success, or by
  \<open>maxRetries\<close> when all fail.
\<close>

theorem flush_retries_until_success:
  "(\<exists>k\<le>cs_maxRetries s. out k = None \<and> (\<forall>i<k. out i \<noteq> None) \<and>
      fst (flushWithRetry out s) = None \<and>
      sa_RetriedBatches (cs_stats (snd (flushWithRetry out s))) =
        sa_RetriedBatches (cs_stats s) + of_nat k) \<or>
   ((\<forall>i\<le>cs_maxRetries s. out i \<noteq> None) \<and> fst (flushWithRetry out s) \<noteq> None \<and>
      sa_RetriedBatches (cs_stats (snd (flushWithRetry out s))) =
        sa_RetriedBatches (cs_stats s) + of_nat (cs_maxRetries s))"
proof (cases "\<exists>k\<le>cs_maxRetries s. out k = None")
  case True
  define k where "k = (LEAST k. out k = None)"
  from True obtain j where "j \<le> cs_maxRetries s" "out j = None" by blast
  then have k: "out k = None" "k \<le> cs_maxRetries s" "\<forall>i<k. out i \<noteq> None"
    unfolding k_def using Least_le [of "\<lambda>k. out k = None" j]
    by (auto intro: LeastI dest: not_less_Least)
  then show ?thesis
    using retry_success [of k "cs_maxRetries s + 1" out 0 None]
    by (auto simp: flushWithRetry_def case_prod_beta)
next
  case False
  then show ?thesis
    using retry_failure [of "cs_maxRetries s + 1" out 0 None]
    by (auto simp: flushWithRetry_def case_prod_beta less_Suc_eq_le)
qed

theorem flush_retries_until_success_witness:
  "fst (flushWithRetry (\<lambda>i. if i = 2 then None else Some ''down'') (NewClickHouseStore demo_store_config)) = None"
proof -
  have "cs_maxRetries (NewClickHouseStore demo_store_config) = 3"
    by (simp add: NewClickHouseStore_def demo_store_config_def)
  moreover have "\<not> (\<forall>i\<le>(3 :: nat). (if i = 2 then None else Some ''down'') \<noteq> None)"
    by (auto intro!: exI [of _ "2 :: nat"])
  ultimately show ?thesis
    using flush_retries_until_success [of "NewClickHouseStore demo_store_config"
        "\<lambda>i. if i = 2 then None else Some ''down''"]
    by metis
qed

text \<open>
  C37: \<open>SaveSpan\<close> never blocks and keeps the oldest: offering any number of spans to a
  store whose writer is idle queues the first ones up to the capacity, in order, and refuses
  the rest.
\<close>

theorem save_span_keeps_oldest:
  assumes "\<not> cs_queueClosed s" "length (cs_writeQueue s) \<le> cs_queueCapacity s"
  shows "cs_writeQueue (fold (\<lambda>a s. case SaveSpan a s of Inr (_, s') \<Rightarrow> s' | Inl _ \<Rightarrow> s) as s) =
     cs_writeQueue s @ take (cs_queueCapacity s - length (cs_writeQueue s)) as"
  using writes.keeps_oldest [of s as] assms by simp

theorem save_span_keeps_oldest_witness:
  "cs_writeQueue (fold (\<lambda>a s. case SaveSpan a s of Inr (_, s') \<Rightarrow> s' | Inl _ \<Rightarrow> s) [3, 4, 5]
     (NewClickHouseStore demo_store_config)) = [3]"
  using save_span_keeps_oldest [of "NewClickHouseStore demo_store_config" "[3, 4, 5]"]
  by (simp add: NewClickHouseStore_def demo_store_config_def)



text \<open>
  C19: Storing a span and reading it back changes only its ids (padded, then trimmed), its
  payload (cut to 1024 bytes), its children (dropped) and its tags (turned into text); the
  addresses survive the way through \<open>net.ParseIP\<close>.
\<close>

theorem stored_span_roundtrip:
  assumes "sp_SourceIP sp = intToIP a" "sp_DestIP sp = intToIP b"
  shows "span_of_row (span_row_of keys sp) =
     sp\<lparr>sp_TraceID := trim_space (padString (sp_TraceID sp) 32),
        sp_SpanID := trim_space (padString (sp_SpanID sp) 16),
        sp_ParentSpanID := trim_space (padString (sp_ParentSpanID sp) 16),
        sp_Payload := truncate_str (sp_Payload sp) 1024,
        sp_Children := [],
        sp_Tags := Some (parseSpanTags (case sp_Tags sp of None \<Rightarrow> '''' | Some tags \<Rightarrow> spanTagsToString keys tags))\<rparr>"
  using assms by (simp add: span_of_row_def span_row_of_def IP_roundtrip)

theorem stored_span_roundtrip_witness:
  "sp_SourceIP (span_of_row (span_row_of [] (ConvertRawEventToSpan zero_event '''' ''''))) = intToIP 0"
  using stored_span_roundtrip [of "ConvertRawEventToSpan zero_event '''' ''''" 0 0 "[]"]
  by (simp add: zero_event_def)

text \<open>
  Tags survive storage as text, in whatever order the map is visited, as long as no key
  holds a comma or an equals sign and no value a comma. (The \<open>redis_keys\<close> tag of a pipeline
  joins keys with commas and does not.)
\<close>

theorem tags_roundtrip:
  assumes "set keys = dom tags" "\<forall>k\<in>dom tags. tag_clean tags k"
  shows "parseSpanTags (spanTagsToString keys tags) = (\<lambda>k. map_option (TagStr \<circ> tag_text) (tags k))"
  by (rule parse_tags_text [OF assms])

theorem tags_roundtrip_witness:
  "parseSpanTags (spanTagsToString [''a''] [''a'' \<mapsto> TagBool True]) = [''a'' \<mapsto> TagStr ''true'']"
proof -
  have "parseSpanTags (spanTagsToString [''a''] [''a'' \<mapsto> TagBool True]) =
      (\<lambda>k. map_option (TagStr \<circ> tag_text) (([''a'' \<mapsto> TagBool True] :: string \<rightharpoonup> tag_value) k))"
    by (rule tags_roundtrip) (auto simp: tag_clean_def)
  then show ?thesis by (auto simp: fun_eq_iff)
qed

text \<open>
  The query that \<open>QueryTraces\<close> builds has exactly one placeholder per argument, whatever
  filters are set, so the driver never sees a mismatch and no user text enters the SQL.
\<close>

theorem query_placeholders_match:
  "length (filter (\<lambda>c. c = CHR ''?'') (fst (query_traces q))) = length (snd (query_traces q))"
  using query_counts by (simp only: marks_def)

end
