(* ===== verification/Store_Queries.thy ===== *)
theory Store_Queries
  imports Storage
begin

text \<open>
  The rest of \<open>pkg/storage/clickhouse.go\<close>: opening the store, creating the schema, and the
  queries of the REST server. What the ClickHouse driver answers is an argument.
\<close>

section \<open>Opening and the schema\<close>

text \<open>\<open>open_err\<close> and \<open>ping_err\<close> are the errors of opening the connection and of the first ping.\<close>

definition OpenClickHouseStore ::
  "string option \<Rightarrow> string option \<Rightarrow> clickhouse_config \<Rightarrow> string + clickhouse_store"
where
  "OpenClickHouseStore open_err ping_err cfg =
     (case open_err of
        Some err \<Rightarrow> Inl (''opening clickhouse connection: '' @ err)
      | None \<Rightarrow> (case ping_err of
          Some err \<Rightarrow> Inl (''ping clickhouse: '' @ err)
        | None \<Rightarrow> Inr (NewClickHouseStore cfg)))"

definition schema_columns :: "(string \<times> string) list" where
  "schema_columns =
     [(''timestamp'', ''DateTime64(9)''), (''trace_id'', ''FixedString(32)''),
      (''span_id'', ''FixedString(16)''), (''parent_span_id'', ''FixedString(16)''),
      (''service_name'', ''LowCardinality(String)''), (''operation'', ''String''),
      (''protocol'', ''LowCardinality(String)''), (''event_type'', ''LowCardinality(String)''),
      (''start_time'', ''DateTime64(9)''), (''end_time'', ''DateTime64(9)''),
      (''duration_ms'', ''Float64''), (''error_code'', ''Int32''), (''payload_size'', ''UInt32''),
      (''payload'', ''String''), (''source_ip'', ''IPv4''), (''dest_ip'', ''IPv4''),
      (''source_port'', ''UInt16''), (''dest_port'', ''UInt16''), (''pid'', ''UInt32''),
      (''comm'', ''String''), (''path'', ''String''), (''tags'', ''String'')]"

text \<open>The statements, line by line as in the source (a line break and its tabs).\<close>

definition line :: "nat \<Rightarrow> string \<Rightarrow> string" where
  "line tabs s = CHR 0x0A # replicate tabs (CHR 0x09) @ s"

definition schema_queries :: "string \<Rightarrow> string list" where
  "schema_queries database =
     [''CREATE DATABASE IF NOT EXISTS '' @ database,
      ''USE '' @ database,
      ''CREATE TABLE IF NOT EXISTS spans ('' @ line 3
        (str_join ('','' @ line 3 '''') (map (\<lambda>(c, t). c @ '' '' @ t) schema_columns)) @
      line 2 '') ENGINE = MergeTree()'' @
      line 2 ''PARTITION BY toYYYYMM(timestamp)'' @
      line 2 ''ORDER BY (timestamp, trace_id, span_id)'' @
      line 2 ''TTL timestamp + INTERVAL 30 DAY'' @
      line 2 ''SETTINGS index_granularity = 8192,'' @
      line 2 ''         parts_to_delay_insert = 10000,'' @
      line 2 ''         parts_to_throw_insert = 50000'']"

text \<open>The statements are executed in order up to the first that fails; \<open>exec\<close> is the driver.\<close>

fun exec_all :: "(string \<Rightarrow> string option) \<Rightarrow> string list \<Rightarrow> string list \<times> string option" where
  "exec_all exec [] = ([], None)"
| "exec_all exec (q # qs) =
     (case exec q of
        Some err \<Rightarrow> ([q], Some (''executing query: '' @ err))
      | None \<Rightarrow> let (done, r) = exec_all exec qs in (q # done, r))"

definition InitSchema :: "(string \<Rightarrow> string option) \<Rightarrow> clickhouse_store \<Rightarrow> string list \<times> string option" where
  "InitSchema exec s = exec_all exec (schema_queries (cs_database s))"

section \<open>Listings\<close>

text \<open>
  The three listings return what they scanned together with the error of the iteration; a nil
  result with an error is \<open>(None, Some err)\<close>.
\<close>

definition list_rows ::
  "string \<Rightarrow> string \<Rightarrow> ('r list \<Rightarrow> 'a) \<Rightarrow> 'r query_result \<Rightarrow> 'a option \<times> string option"
where
  "list_rows querying scanning mk res =
     (case res of
        Inl err \<Rightarrow> (None, Some (querying @ '': '' @ err))
      | Inr (rows, fin) \<Rightarrow>
          (case scan_rows scanning rows of
             Inl err \<Rightarrow> (None, Some err)
           | Inr xs \<Rightarrow> (Some (mk xs), fin)))"

definition GetServices :: "string query_result \<Rightarrow> string list option \<times> string option" where
  "GetServices res = list_rows ''querying services'' ''scanning service'' (\<lambda>services. services) res"

record operation_stats =
  os_operation :: string
  os_protocol :: string
  os_call_count :: u64
  os_error_count :: u64
  os_avg_duration_ms :: f64
  os_p50_duration_ms :: f64
  os_p95_duration_ms :: f64
  os_p99_duration_ms :: f64

record service_stats =
  sv_service :: string
  sv_operations :: "operation_stats list"
  sv_start_time :: gtime
  sv_end_time :: gtime

definition GetServiceStats ::
  "operation_stats query_result \<Rightarrow> string \<Rightarrow> gtime \<Rightarrow> gtime \<Rightarrow> service_stats option \<times> string option"
where
  "GetServiceStats res serviceName startTime endTime =
     list_rows ''querying service stats'' ''scanning stats''
       (\<lambda>ops. \<lparr>sv_service = serviceName, sv_operations = ops, sv_start_time = startTime,
          sv_end_time = endTime\<rparr>) res"

record service_edge =
  se_source_service :: string
  se_dest_service :: string
  se_protocol :: string
  se_call_count :: u64
  se_error_count :: u64
  se_avg_duration_ms :: f64

definition GetServiceMap :: "service_edge query_result \<Rightarrow> service_edge list option \<times> string option" where
  "GetServiceMap res = list_rows ''querying service map'' ''scanning edge'' (\<lambda>edges. edges) res"

section \<open>Searching traces\<close>

text \<open>
  The traces of the ids that the search found, each read by a query of its own
  (\<open>fetch traceID\<close>); one that cannot be read is skipped. \<open>base\<close> is the next free address.
\<close>

definition trace_rows :: "span_row query_result \<Rightarrow> span_row list" where
  "trace_rows res = (case read_rows ''querying trace'' ''scanning span'' res of Inl err \<Rightarrow> [] | Inr rs \<Rightarrow> rs)"

fun load_traces ::
  "(string \<Rightarrow> span_row query_result) \<Rightarrow> string list \<Rightarrow> addr \<Rightarrow> heap \<Rightarrow> (heap \<times> trace list) go"
where
  "load_traces fetch [] base h = Inr (h, [])"
| "load_traces fetch (i # ids) base h =
     go_bind (GetTraceByID (fetch i) base h i) (\<lambda>r.
       case r of
         Inl err \<Rightarrow> load_traces fetch ids base h
       | Inr (h, t) \<Rightarrow>
           go_bind (load_traces fetch ids (base + length (trace_rows (fetch i))) h)
             (\<lambda>(h, ts). Inr (h, case t of None \<Rightarrow> ts | Some t \<Rightarrow> t # ts)))"

text \<open>The driver answers the query for the ids as a function of its text and arguments.\<close>

definition QueryTraces ::
  "(string \<times> sql_arg list \<Rightarrow> string query_result) \<Rightarrow> (string \<Rightarrow> span_row query_result) \<Rightarrow>
   trace_query \<Rightarrow> addr \<Rightarrow> heap \<Rightarrow> (string + heap \<times> trace list) go"
where
  "QueryTraces run fetch q base h =
     (case read_rows ''querying traces'' ''scanning trace_id'' (run (query_traces q)) of
        Inl err \<Rightarrow> Inr (Inl err)
      | Inr ids \<Rightarrow> go_bind (load_traces fetch (map trim_space ids) base h) (\<lambda>r. Inr (Inr r)))"

text \<open>Every id that has rows gives a trace; the skipped ones leave no gap.\<close>

definition readable :: "(string \<Rightarrow> span_row query_result) \<Rightarrow> string \<Rightarrow> bool" where
  "readable fetch i \<longleftrightarrow> i \<noteq> '''' \<and> trace_rows (fetch i) \<noteq> []"

lemma load_traces_total:
  "\<exists>h' ts. load_traces fetch ids base h = Inr (h', ts) \<and> length ts = length (filter (readable fetch) ids)"
proof (induction ids arbitrary: base h)
  case (Cons i ids)
  show ?case
  proof (cases "readable fetch i")
    case True
    then obtain rs where rs: "read_rows ''querying trace'' ''scanning span'' (fetch i) = Inr rs" "rs \<noteq> []" "i \<noteq> ''''"
      by (auto simp: readable_def trace_rows_def split: sum.splits)
    obtain h1 t where t: "GetTraceByID (fetch i) base h i = Inr (Inr (h1, Some t))"
      using GetTraceByID_tree [OF rs(3,2,1), of base h] by blast
    obtain h2 ts where "load_traces fetch ids (base + length (trace_rows (fetch i))) h1 = Inr (h2, ts)"
        "length ts = length (filter (readable fetch) ids)"
      using Cons by blast
    with t True show ?thesis by simp
  next
    case False
    then have "\<exists>err. GetTraceByID (fetch i) base h i = Inr (Inl err)"
      by (auto simp: GetTraceByID_def readable_def trace_rows_def split: sum.splits)
    with False Cons show ?thesis by auto
  qed
qed simp

end
