(* ===== verification/Event_Bytes.thy ===== *)
theory Event_Bytes
  imports Trace_Model
begin

text \<open>
  How an event travels from the kernel: \<open>parseRawEvent\<close> of \<open>pkg/ebpf/tracer.go\<close>, which reads
  the fields back to back in little-endian order (\<open>encoding/binary\<close>), and the layout of
  \<open>struct trace_event\<close> in \<open>bpf/network_trace.bpf.c\<close>, which the C compiler pads.
\<close>

section \<open>Little-endian integers\<close>

fun le_word :: "string \<Rightarrow> 'a::len word" where
  "le_word [] = 0"
| "le_word (c # cs) = of_char c OR push_bit 8 (le_word cs)"

fun le_bytes :: "nat \<Rightarrow> 'a::len word \<Rightarrow> string" where
  "le_bytes 0 w = []"
| "le_bytes (Suc n) w = low_byte w # le_bytes n (drop_bit 8 w)"

lemma length_le_bytes [simp]: "length (le_bytes n w) = n"
  by (induction n arbitrary: w) simp_all

lemma of_char_low_bits: "(of_char (low_byte w) :: 'b::len word) = take_bit 8 (ucast w)"
  by (rule bit_word_eqI) (simp add: of_char_low_byte bit_simps)

text \<open>Reading what was written, at any width.\<close>

lemma le_word_bytes: "(le_word (le_bytes n w) :: 'b::len word) = take_bit (8 * n) (ucast w)"
proof (induction n arbitrary: w)
  case (Suc n)
  show ?case
    by (rule bit_word_eqI)
       (auto simp: Suc of_char_low_bits bit_simps le_diff_conv2)
qed simp

lemma le_word_append: "le_word (xs @ ys) = le_word xs OR push_bit (8 * length xs) (le_word ys)"
  by (induction xs) (simp_all add: push_bit_or push_bit_push_bit or.assoc ac_simps)

lemma le_bytes_add: "le_bytes (m + n) w = le_bytes m w @ le_bytes n (drop_bit (8 * m) w)"
  by (induction m arbitrary: w) (simp_all add: drop_bit_drop_bit ac_simps)

section \<open>Reading an event\<close>

text \<open>\<open>field off n data\<close>: the \<open>n\<close> bytes from offset \<open>off\<close>.\<close>

definition field :: "nat \<Rightarrow> nat \<Rightarrow> string \<Rightarrow> string" where
  "field off n data = take n (drop off data)"

text \<open>\<open>unsafe.Sizeof(model.RawTraceEvent{})\<close>: with the padding of the struct in memory.\<close>

definition raw_event_size :: nat where "raw_event_size = 1424"

definition parseRawEvent :: "string \<Rightarrow> string + raw_event" where
  "parseRawEvent data =
     (if length data < raw_event_size
      then Inl (''data too short: '' @ nat_dec (length data) @ '' bytes'')
      else Inr \<lparr>ev_Timestamp = le_word (field 0 8 data),
        ev_PID = le_word (field 8 4 data),
        ev_TID = le_word (field 12 4 data),
        ev_UID = le_word (field 16 4 data),
        ev_GID = le_word (field 20 4 data),
        ev_Comm = field 24 16 data,
        ev_EventType = le_word (field 40 1 data),
        ev_Protocol = le_word (field 41 1 data),
        ev_SAddr = le_word (field 42 4 data),
        ev_DAddr = le_word (field 46 4 data),
        ev_SPort = le_word (field 50 2 data),
        ev_DPort = le_word (field 52 2 data),
        ev_DurationNs = le_word (field 54 8 data),
        ev_ErrorCode = le_word (field 62 4 data),
        ev_PayloadSize = le_word (field 66 4 data),
        ev_Payload = field 70 1024 data,
        ev_TraceID = field 1094 33 data,
        ev_SpanID = field 1127 17 data,
        ev_ParentSpanID = field 1144 17 data,
        ev_Path = field 1161 256 data\<rparr>)"

lemma field_append:
  "field off n (xs @ ys) =
     (if length xs \<le> off then field (off - length xs) n ys
      else if off + n \<le> length xs then field off n xs
      else drop off xs @ take (n - (length xs - off)) ys)"
  by (auto simp: field_def)

lemma field_0: "n \<le> length xs \<Longrightarrow> field 0 n xs = take n xs"
  by (simp add: field_def)

lemma length_field: "length (field off n data) = min n (length data - off)"
  by (simp add: field_def)

text \<open>An event that is read is well formed.\<close>

lemma parseRawEvent_wf: "parseRawEvent data = Inr ev \<Longrightarrow> raw_wf ev"
  by (auto simp: parseRawEvent_def raw_wf_def length_field raw_event_size_def split: if_splits)

section \<open>The two layouts\<close>

text \<open>The fields back to back, as \<open>binary.Read\<close> expects them.\<close>

definition head_bytes :: "raw_event \<Rightarrow> string" where
  "head_bytes ev =
     le_bytes 8 (ev_Timestamp ev) @ le_bytes 4 (ev_PID ev) @ le_bytes 4 (ev_TID ev) @
     le_bytes 4 (ev_UID ev) @ le_bytes 4 (ev_GID ev) @ ev_Comm ev @
     le_bytes 1 (ev_EventType ev) @ le_bytes 1 (ev_Protocol ev)"

definition tail_bytes :: "raw_event \<Rightarrow> string" where
  "tail_bytes ev =
     le_bytes 4 (ev_SAddr ev) @ le_bytes 4 (ev_DAddr ev) @ le_bytes 2 (ev_SPort ev) @
     le_bytes 2 (ev_DPort ev) @ le_bytes 8 (ev_DurationNs ev) @ le_bytes 4 (ev_ErrorCode ev) @
     le_bytes 4 (ev_PayloadSize ev) @ ev_Payload ev @ ev_TraceID ev @ ev_SpanID ev @
     ev_ParentSpanID ev @ ev_Path ev"

definition packed_bytes :: "raw_event \<Rightarrow> string" where
  "packed_bytes ev = head_bytes ev @ tail_bytes ev"

text \<open>
  The struct in memory: \<open>saddr\<close>, a 32-bit integer, is aligned to a multiple of 4 and comes
  after two bytes of padding; the struct ends at a multiple of 8. All other fields follow
  each other without a gap.
\<close>

definition struct_bytes :: "raw_event \<Rightarrow> string" where
  "struct_bytes ev = head_bytes ev @ replicate 2 (CHR 0x00) @ tail_bytes ev @ replicate 5 (CHR 0x00)"

lemma length_head: "raw_wf ev \<Longrightarrow> length (head_bytes ev) = 42"
  by (simp add: head_bytes_def raw_wf_def)

lemma length_tail: "raw_wf ev \<Longrightarrow> length (tail_bytes ev) = 1375"
  by (simp add: tail_bytes_def raw_wf_def)

lemma length_struct: "raw_wf ev \<Longrightarrow> length (struct_bytes ev) = raw_event_size"
  by (simp add: struct_bytes_def length_head length_tail raw_event_size_def)

lemma take_le_bytes: "m \<le> n \<Longrightarrow> take m (le_bytes n w) = le_bytes m w"
  by (metis append_eq_conv_conj le_add_diff_inverse le_bytes_add length_le_bytes)

lemma drop_le_bytes: "m \<le> n \<Longrightarrow> drop m (le_bytes n w) = le_bytes (n - m) (drop_bit (8 * m) w)"
  by (metis append_eq_conv_conj le_add_diff_inverse le_bytes_add length_le_bytes)

lemma le_word_id: "LENGTH('a) \<le> 8 * n \<Longrightarrow> le_word (le_bytes n w) = (w :: 'a::len word)"
  by (simp add: le_word_bytes take_bit_word_eq_self)

lemma le_word_zeros: "le_word (replicate n (CHR 0x00)) = 0"
  by (induction n) simp_all

lemma field_whole: "length xs = n \<Longrightarrow> field 0 n xs = xs"
  by (simp add: field_def)

lemmas layout_defs = head_bytes_def tail_bytes_def packed_bytes_def struct_bytes_def

section \<open>What is read\<close>

lemma packed_read:
  assumes "raw_wf ev" "7 \<le> length slack"
  shows "parseRawEvent (packed_bytes ev @ slack) = Inr ev"
proof -
  have wf: "length (ev_Comm ev) = 16" "length (ev_Payload ev) = 1024" "length (ev_TraceID ev) = 33"
    "length (ev_SpanID ev) = 17" "length (ev_ParentSpanID ev) = 17" "length (ev_Path ev) = 256"
    using assms(1) by (simp_all add: raw_wf_def)
  have "\<not> length (packed_bytes ev @ slack) < raw_event_size"
    using assms by (simp add: packed_bytes_def length_head length_tail raw_event_size_def)
  then show ?thesis
    unfolding parseRawEvent_def
    by (simp add: layout_defs field_append field_whole field_0 wf le_word_id
        del: le_bytes.simps One_nat_def)
qed

text \<open>
  C39: An event whose fields lie back to back, with at least seven more bytes behind them, is
  read back exactly, every field at its width; a shorter sample is an error.
\<close>

theorem packed_event_roundtrip:
  assumes "raw_wf ev"
  shows "parseRawEvent (packed_bytes ev @ slack) =
    (if 7 \<le> length slack then Inr ev
     else Inl (''data too short: '' @ nat_dec (1417 + length slack) @ '' bytes''))"
proof (cases "7 \<le> length slack")
  case True
  with packed_read [OF assms True] show ?thesis by simp
next
  case False
  moreover have "length (packed_bytes ev) = 1417"
    using assms by (simp add: packed_bytes_def length_head length_tail)
  ultimately show ?thesis by (simp add: parseRawEvent_def raw_event_size_def)
qed

theorem packed_event_roundtrip_witness:
  "parseRawEvent (packed_bytes zero_event @ replicate 7 (CHR 0x00)) = Inr zero_event"
  by (subst packed_event_roundtrip) (simp_all add: raw_wf_def zero_event_def)

text \<open>The event that comes out of the kernel's struct: from \<open>saddr\<close> on shifted by two bytes.\<close>

definition shifted :: "raw_event \<Rightarrow> raw_event" where
  "shifted ev = ev\<lparr>
     ev_SAddr := push_bit 16 (ev_SAddr ev),
     ev_DAddr := drop_bit 16 (ev_SAddr ev) OR push_bit 16 (ev_DAddr ev),
     ev_SPort := ucast (drop_bit 16 (ev_DAddr ev)),
     ev_DPort := ev_SPort ev,
     ev_DurationNs := ucast (ev_DPort ev) OR push_bit 16 (ev_DurationNs ev),
     ev_ErrorCode := ucast (drop_bit 48 (ev_DurationNs ev)) OR push_bit 16 (ev_ErrorCode ev),
     ev_PayloadSize := drop_bit 16 (ev_ErrorCode ev) OR push_bit 16 (ev_PayloadSize ev),
     ev_Payload := le_bytes 2 (drop_bit 16 (ev_PayloadSize ev)) @ take 1022 (ev_Payload ev),
     ev_TraceID := drop 1022 (ev_Payload ev) @ take 31 (ev_TraceID ev),
     ev_SpanID := drop 31 (ev_TraceID ev) @ take 15 (ev_SpanID ev),
     ev_ParentSpanID := drop 15 (ev_SpanID ev) @ take 15 (ev_ParentSpanID ev),
     ev_Path := drop 15 (ev_ParentSpanID ev) @ take 254 (ev_Path ev)\<rparr>"

lemma field_le_bytes: "off + n \<le> m \<Longrightarrow> field off n (le_bytes m w) = le_bytes n (drop_bit (8 * off) w)"
  by (simp add: field_def drop_le_bytes take_le_bytes)

lemma half_words:
  "(take_bit 16 (ucast (x :: u16)) :: u32) = ucast x" "(take_bit 16 (ucast (x :: u16)) :: u64) = ucast x"
  "push_bit 16 (take_bit 16 (w :: u32)) = push_bit 16 w" "push_bit 16 (take_bit 48 (v :: u64)) = push_bit 16 v"
  "take_bit 16 (drop_bit 16 (w :: u32)) = drop_bit 16 w"
  "(take_bit 16 (ucast (drop_bit 48 (v :: u64))) :: u32) = ucast (drop_bit 48 v)"
  "(take_bit 16 (ucast (drop_bit 16 (w :: u32))) :: u16) = ucast (drop_bit 16 w)"
  by (rule bit_word_eqI; auto simp: bit_simps dest: bit_imp_le_length)+

lemma shifted_read:
  assumes "raw_wf ev"
  shows "parseRawEvent (struct_bytes ev) = Inr (shifted ev)"
proof -
  have wf: "length (ev_Comm ev) = 16" "length (ev_Payload ev) = 1024" "length (ev_TraceID ev) = 33"
    "length (ev_SpanID ev) = 17" "length (ev_ParentSpanID ev) = 17" "length (ev_Path ev) = 256"
    using assms by (simp_all add: raw_wf_def)
  have size: "\<not> length (struct_bytes ev) < raw_event_size"
    by (simp only: length_struct [OF assms] less_irrefl not_False_eq_True)
  show ?thesis
    unfolding parseRawEvent_def if_not_P [OF size] shifted_def
    by (rule arg_cong [of _ _ Inr], rule raw_event.equality)
       (simp_all add: layout_defs field_append field_whole field_0 field_le_bytes wf le_word_append
        le_word_bytes le_word_zeros take_le_bytes drop_le_bytes half_words take_bit_word_eq_self
        del: le_bytes.simps One_nat_def replicate.simps)
qed

text \<open>
  The struct that the kernel program writes is padded before \<open>saddr\<close>, and the reader does
  not skip the padding: every event is accepted, but all its fields from the source address
  on are read from two bytes before their place. The upper half of the payload size is that
  of the real size, the lower half the upper half of the error code.
\<close>

theorem kernel_event_shifted:
  assumes "raw_wf ev"
  shows "parseRawEvent (struct_bytes ev) = Inr (shifted ev)"
  by (rule shifted_read [OF assms])

theorem kernel_event_shifted_witness:
  "parseRawEvent (struct_bytes zero_event) = Inr (shifted zero_event)"
  by (rule kernel_event_shifted) simp

text \<open>An event with a payload of a common size is read with a size of at least 65536.\<close>

lemma shifted_payload_size:
  assumes "ev_PayloadSize ev \<noteq> 0" "ev_PayloadSize ev < 65536"
  shows "65536 \<le> ev_PayloadSize (shifted ev)"
proof -
  let ?p = "ev_PayloadSize ev"
  have up: "unat (push_bit 16 ?p) = 65536 * unat ?p"
  proof -
    have "unat ?p < 65536" using assms(2) by (simp add: word_less_nat_alt)
    then show ?thesis
      by (simp add: push_bit_eq_mult unat_mult_lem [THEN iffD1])
  qed
  have "unat (push_bit 16 ?p) \<le> unat (drop_bit 16 (ev_ErrorCode ev) OR push_bit 16 ?p)"
    unfolding word_le_nat_alt [symmetric] by (subst or.commute) (rule le_word_or2)
  moreover have "1 \<le> unat ?p" using assms(1) by (simp add: Suc_leI unat_gt_0)
  ultimately show ?thesis using up by (simp add: shifted_def word_le_nat_alt)
qed

end
