(* ===== verification/Tracer.thy ===== *)
theory Tracer
  imports Event_Bytes Go_Chan "HOL-Library.Multiset"
begin

text \<open>
  \<open>pkg/ebpf/tracer.go\<close>: the tracer's goroutines as a step relation. A poller is at the top of
  its loop (\<open>tc_pollers\<close>), in \<open>ringbuf.Read\<close> (\<open>tc_reading\<close>), or holds a parsed event that it
  is about to send (\<open>tc_holding\<close>); a worker waits (\<open>tc_receivers\<close>) or has returned. The ring
  buffer, the kernel objects and the links are third-party code: what reading them returns is
  an argument of the step. \<open>tc_handled\<close> and \<open>tc_taken\<close> observe what the event handler was
  called with and what was received from \<open>Events()\<close>.
\<close>

section \<open>Data\<close>

record bpf_stats =
  bs_EventsTotal :: u64
  bs_EventsDropped :: u64
  bs_EventsSent :: u64
  bs_Connections :: u64
  bs_RingbufDropped :: u64

record tracer =
  tc_eventChan :: "raw_event list"
  tc_eventChan_closed :: bool
  tc_stopChan_closed :: bool
  tc_eventHandler :: bool
  tc_running :: bool
  tc_workers :: nat
  tc_stats :: "bpf_stats option"
  tc_processedEvents :: nat
  tc_droppedEvents :: nat
  tc_pollers :: nat
  tc_reading :: nat
  tc_holding :: "raw_event list"
  tc_receivers :: nat
  tc_handled :: "raw_event list"
  tc_taken :: "raw_event list"

definition event_cap :: nat where "event_cap = 100000"

section \<open>The constructor\<close>

text \<open>
  \<open>attach k\<close> is the error that attaching the probe \<open>k\<close> returns. The probes are attached in this
  order; the first error is returned, and what was attached before it stays attached.
\<close>

definition kprobes :: "string list" where
  "kprobes = [''tcp_connect'', ''tcp_connect_ret'', ''tcp_accept'', ''udp_sendmsg'', ''udp_recvmsg'',
     ''tcp_sendmsg'', ''tcp_cleanup_rbuf'', ''tcp_close'']"

fun attach_probes :: "(string \<Rightarrow> string option) \<Rightarrow> string list \<Rightarrow> string list \<Rightarrow> (string option \<times> string list)" where
  "attach_probes attach [] links = (None, links)"
| "attach_probes attach (k # ks) links =
     (case attach k of
        Some err \<Rightarrow> (Some (''creating kprobe '' @ k @ '': '' @ err), links)
      | None \<Rightarrow> attach_probes attach ks (links @ [k]))"

definition new_tracer :: "nat \<Rightarrow> tracer" where
  "new_tracer numCPU = \<lparr>tc_eventChan = [], tc_eventChan_closed = False, tc_stopChan_closed = False,
     tc_eventHandler = False, tc_running = False, tc_workers = (if numCPU > 4 then numCPU else 4),
     tc_stats = None, tc_processedEvents = 0, tc_droppedEvents = 0, tc_pollers = 0, tc_reading = 0,
     tc_holding = [], tc_receivers = 0, tc_handled = [], tc_taken = []\<rparr>"

definition NewTracer ::
  "nat \<Rightarrow> string option \<Rightarrow> string option \<Rightarrow> (string \<Rightarrow> string option) \<Rightarrow> string option \<Rightarrow>
   (string + tracer) \<times> string list"
where
  "NewTracer numCPU load assign attach reader =
     (case load of Some err \<Rightarrow> (Inl (''loading bpf spec: '' @ err), [])
      | None \<Rightarrow> (case assign of Some err \<Rightarrow> (Inl (''loading and assigning bpf objects: '' @ err), [])
      | None \<Rightarrow> (case attach_probes attach kprobes [] of
          (Some err, links) \<Rightarrow> (Inl err, links)
        | (None, links) \<Rightarrow> (case reader of
            Some err \<Rightarrow> (Inl (''creating ringbuf reader: '' @ err), links)
          | None \<Rightarrow> (Inr (new_tracer numCPU), links)))))"

section \<open>Operations\<close>

definition SetEventHandler :: "tracer \<Rightarrow> tracer" where
  "SetEventHandler t = t\<lparr>tc_eventHandler := True\<rparr>"

definition Tracer_Start :: "tracer \<Rightarrow> string + tracer" where
  "Tracer_Start t =
     (if tc_running t then Inl ''tracer already running''
      else Inr (t\<lparr>tc_running := True, tc_receivers := tc_receivers t + tc_workers t,
        tc_pollers := tc_pollers t + 1\<rparr>))"

text \<open>Errors of closing the links, the reader and the objects are only logged.\<close>

definition Tracer_Stop :: "tracer \<Rightarrow> tracer go" where
  "Tracer_Stop t =
     (if \<not> tc_running t then Inr t
      else if tc_stopChan_closed t then Inl CloseOfClosedChan
      else if tc_eventChan_closed t then Inl CloseOfClosedChan
      else Inr (t\<lparr>tc_running := False, tc_stopChan_closed := True, tc_eventChan_closed := True\<rparr>))"

text \<open>
  An error of \<open>Read\<close>: whether it is \<open>ringbuf.ErrClosed\<close>, what its methods \<open>Temporary\<close> and
  \<open>Timeout\<close> answer when it has them, and whether it wraps \<open>io.EOF\<close>.
\<close>

record read_error =
  re_closed :: bool
  re_temporary :: "bool option"
  re_timeout :: "bool option"
  re_eof :: bool

definition isTemporaryError :: "read_error option \<Rightarrow> bool" where
  "isTemporaryError err =
     (case err of
        None \<Rightarrow> False
      | Some e \<Rightarrow>
          if re_temporary e = Some True then True
          else if re_timeout e = Some True then True
          else re_eof e)"

text \<open>The top of a poller's loop: the \<open>default\<close> branch only if nothing else is ready.\<close>

definition poll_top :: "bool \<Rightarrow> tracer \<Rightarrow> tracer" where
  "poll_top cancelled t =
     (let t = t\<lparr>tc_pollers := tc_pollers t - 1\<rparr> in
      if cancelled \<or> tc_stopChan_closed t then t else t\<lparr>tc_reading := tc_reading t + 1\<rparr>)"

text \<open>\<open>Read\<close> returns and its record is parsed.\<close>

definition poll_read :: "read_error + string \<Rightarrow> tracer \<Rightarrow> tracer" where
  "poll_read r t =
     (let t = t\<lparr>tc_reading := tc_reading t - 1\<rparr>;
          again = t\<lparr>tc_pollers := tc_pollers t + 1\<rparr>;
          dropped = again\<lparr>tc_droppedEvents := tc_droppedEvents t + 1\<rparr>
      in case r of
        Inl err \<Rightarrow>
          if re_closed err then t else if isTemporaryError (Some err) then again else dropped
      | Inr data \<Rightarrow>
          (case parseRawEvent data of
             Inl err \<Rightarrow> dropped
           | Inr event \<Rightarrow> t\<lparr>tc_holding := tc_holding t @ [event]\<rparr>))"

text \<open>The send of a held event, and the way back to the top; a closed channel panics.\<close>

definition offer_event :: "raw_event \<Rightarrow> tracer \<Rightarrow> tracer" where
  "offer_event event t =
     (case chan_send event_cap (tc_eventChan t) event of
        Some q \<Rightarrow> t\<lparr>tc_eventChan := q, tc_processedEvents := tc_processedEvents t + 1\<rparr>
      | None \<Rightarrow> t\<lparr>tc_droppedEvents := tc_droppedEvents t + 1\<rparr>)"

definition poll_send :: "raw_event \<Rightarrow> tracer \<Rightarrow> tracer go" where
  "poll_send event t =
     (if tc_eventChan_closed t then Inl SendOnClosedChan
      else Inr (offer_event event (t\<lparr>tc_holding := remove1 event (tc_holding t),
        tc_pollers := tc_pollers t + 1\<rparr>)))"

text \<open>A worker receives: the event is lost when no handler is set.\<close>

definition worker_recv :: "raw_event \<Rightarrow> raw_event list \<Rightarrow> tracer \<Rightarrow> tracer" where
  "worker_recv event rest t =
     (let t = t\<lparr>tc_eventChan := rest\<rparr> in
      if tc_eventHandler t then t\<lparr>tc_handled := tc_handled t @ [event]\<rparr> else t)"

text \<open>When a worker may return: cancelled, stopped, or a closed channel that is drained.\<close>

definition worker_may_exit :: "bool \<Rightarrow> tracer \<Rightarrow> bool" where
  "worker_may_exit cancelled t \<longleftrightarrow>
     cancelled \<or> tc_stopChan_closed t \<or> tc_eventChan_closed t \<and> tc_eventChan t = []"

text \<open>\<open>Events()\<close> hands out the channel itself; a receive from it competes with the workers.\<close>

definition Events_recv :: "raw_event \<Rightarrow> raw_event list \<Rightarrow> tracer \<Rightarrow> tracer" where
  "Events_recv event rest t = t\<lparr>tc_eventChan := rest, tc_taken := tc_taken t @ [event]\<rparr>"

text \<open>
  What the kernel's maps return: the counters, when the lookup succeeds, and the number of
  entries of the connection map. \<open>GetMap\<close> always finds that map.
\<close>

definition GetMap :: "string \<Rightarrow> string + string" where
  "GetMap name =
     (if name = ''connections'' then Inr ''Connections''
      else if name = ''socket_to_conn'' then Inr ''SocketToConn''
      else if name = ''events'' then Inr ''Events''
      else if name = ''stats'' then Inr ''Stats''
      else Inl (''map not found: '' @ name))"

definition readBPFStats :: "(u64 \<times> u64 \<times> u64) option \<Rightarrow> nat \<Rightarrow> bpf_stats" where
  "readBPFStats lookup entries =
     (let stats = \<lparr>bs_EventsTotal = 0, bs_EventsDropped = 0, bs_EventsSent = 0, bs_Connections = 0,
            bs_RingbufDropped = 0\<rparr>;
          stats = (case lookup of
              Some (ev_total, ev_dropped, ev_sent) \<Rightarrow>
                stats\<lparr>bs_EventsTotal := ev_total, bs_EventsDropped := ev_dropped, bs_EventsSent := ev_sent\<rparr>
            | None \<Rightarrow> stats)
      in case GetMap ''connections'' of
           Inr m \<Rightarrow> stats\<lparr>bs_Connections := of_nat entries\<rparr>
         | Inl err \<Rightarrow> stats)"

definition Tracer_GetStats :: "tracer \<Rightarrow> bpf_stats" where
  "Tracer_GetStats t =
     (let stats = (case tc_stats t of Some s \<Rightarrow> s
          | None \<Rightarrow> \<lparr>bs_EventsTotal = 0, bs_EventsDropped = 0, bs_EventsSent = 0, bs_Connections = 0,
              bs_RingbufDropped = 0\<rparr>)
      in stats\<lparr>bs_EventsSent := of_nat (tc_processedEvents t),
           bs_RingbufDropped := of_nat (tc_droppedEvents t)\<rparr>)"

section \<open>The goroutines together\<close>

text \<open>
  One step of the tracer: a call of \<open>Start\<close>, \<open>Stop\<close> or \<open>SetEventHandler\<close>, a step of a poller
  or of a worker, a receive from \<open>Events()\<close>, or a tick of the statistics. The label tells the
  step; its result is a state or a panic.
\<close>

datatype tracer_label = LStart | LStop | LHandler | LTop bool | LRead "read_error + string"
  | LSend raw_event | LWork | LExit bool | LTake | LTick bpf_stats

inductive tracer_step :: "tracer \<Rightarrow> tracer_label \<Rightarrow> tracer go \<Rightarrow> bool" where
  start: "Tracer_Start t = Inr t' \<Longrightarrow> tracer_step t LStart (Inr t')"
| start_again: "Tracer_Start t = Inl err \<Longrightarrow> tracer_step t LStart (Inr t)"
| stop: "tracer_step t LStop (Tracer_Stop t)"
| handler: "tracer_step t LHandler (Inr (SetEventHandler t))"
| poll_top: "0 < tc_pollers t \<Longrightarrow> tracer_step t (LTop cancelled) (Inr (poll_top cancelled t))"
| poll_read: "0 < tc_reading t \<Longrightarrow> tracer_step t (LRead r) (Inr (poll_read r t))"
| poll_send: "event \<in> set (tc_holding t) \<Longrightarrow> tracer_step t (LSend event) (poll_send event t)"
| worker: "0 < tc_receivers t \<Longrightarrow> tc_eventChan t = event # rest \<Longrightarrow>
    tracer_step t LWork (Inr (worker_recv event rest t))"
| worker_exit: "0 < tc_receivers t \<Longrightarrow> worker_may_exit cancelled t \<Longrightarrow>
    tracer_step t (LExit cancelled) (Inr (t\<lparr>tc_receivers := tc_receivers t - 1\<rparr>))"
| events: "tc_eventChan t = event # rest \<Longrightarrow> tracer_step t LTake (Inr (Events_recv event rest t))"
| tick: "tracer_step t (LTick stats) (Inr (t\<lparr>tc_stats := Some stats\<rparr>))"

inductive tracer_run :: "tracer \<Rightarrow> tracer_label list \<Rightarrow> tracer go \<Rightarrow> bool" where
  run_Nil: "tracer_run t [] (Inr t)"
| run_snoc: "tracer_run t ls (Inr u) \<Longrightarrow> tracer_step u l r \<Longrightarrow> tracer_run t (ls @ [l]) r"

inductive_simps step_simps:
  "tracer_step t LStart r" "tracer_step t LStop r" "tracer_step t LHandler r"
  "tracer_step t (LTop c) r" "tracer_step t (LRead d) r" "tracer_step t (LSend e) r"
  "tracer_step t LWork r" "tracer_step t (LExit c) r" "tracer_step t LTake r" "tracer_step t (LTick s) r"

section \<open>The event channel\<close>

text \<open>On an open channel the send is the lossy queue: a full channel drops the new event.\<close>

interpretation events: lossy_queue offer_event tc_eventChan "\<lambda>e. e" "\<lambda>_. event_cap"
  by unfold_locales (auto simp: offer_event_def chan_send_def)

lemma offer_event_frame [simp]:
  "tc_eventChan_closed (offer_event e t) = tc_eventChan_closed t"
  "tc_stopChan_closed (offer_event e t) = tc_stopChan_closed t"
  "tc_holding (offer_event e t) = tc_holding t" "tc_handled (offer_event e t) = tc_handled t"
  "tc_taken (offer_event e t) = tc_taken t"
  "tc_processedEvents (offer_event e t) + tc_droppedEvents (offer_event e t) =
     Suc (tc_processedEvents t + tc_droppedEvents t)"
  by (simp_all add: offer_event_def split: option.split)

section \<open>Accounting\<close>

text \<open>What the labels of a run say: the events parsed, the events sent, the records lost.\<close>

fun parsed :: "tracer_label \<Rightarrow> raw_event list" where
  "parsed (LRead (Inr data)) = (case parseRawEvent data of Inl err \<Rightarrow> [] | Inr e \<Rightarrow> [e])"
| "parsed l = []"

fun sent :: "tracer_label \<Rightarrow> raw_event list" where
  "sent (LSend e) = [e]"
| "sent l = []"

fun failed :: "tracer_label \<Rightarrow> nat" where
  "failed (LRead (Inr data)) = (case parseRawEvent data of Inl err \<Rightarrow> 1 | Inr e \<Rightarrow> 0)"
| "failed (LRead (Inl err)) = (if re_closed err \<or> isTemporaryError (Some err) then 0 else 1)"
| "failed l = 0"

definition all_parsed :: "tracer_label list \<Rightarrow> raw_event list" where
  "all_parsed ls = concat (map parsed ls)"

definition all_sent :: "tracer_label list \<Rightarrow> raw_event list" where
  "all_sent ls = concat (map sent ls)"

definition tracer_inv :: "tracer_label list \<Rightarrow> tracer \<Rightarrow> bool" where
  "tracer_inv ls t \<longleftrightarrow>
     mset (all_parsed ls) = mset (tc_holding t) + mset (all_sent ls) \<and>
     tc_processedEvents t + tc_droppedEvents t = length (all_sent ls) + sum_list (map failed ls) \<and>
     length (tc_eventChan t) \<le> event_cap \<and>
     mset (tc_handled t) + mset (tc_taken t) + mset (tc_eventChan t) \<subseteq># mset (all_sent ls) \<and>
     length (tc_handled t) + length (tc_taken t) + length (tc_eventChan t) \<le> tc_processedEvents t \<and>
     tc_stopChan_closed t = tc_eventChan_closed t \<and>
     (tc_eventChan_closed t \<longrightarrow> LStop \<in> set ls)"

lemma tracer_inv_new: "tracer_inv [] (new_tracer n)"
  by (simp add: tracer_inv_def new_tracer_def all_parsed_def all_sent_def)

lemma all_snoc [simp]:
  "all_parsed (ls @ [l]) = all_parsed ls @ parsed l" "all_sent (ls @ [l]) = all_sent ls @ sent l"
  by (simp_all add: all_parsed_def all_sent_def)

lemma subset_add_mset: "M \<subseteq># N \<Longrightarrow> M \<subseteq># add_mset x N"
  using subset_mset.add_increasing [of "{#x#}" M N] by simp

lemma tracer_inv_send:
  assumes "tracer_inv ls t" "e \<in> set (tc_holding t)"
  shows "tracer_inv (ls @ [LSend e]) (offer_event e (t\<lparr>tc_holding := remove1 e (tc_holding t),
    tc_pollers := tc_pollers t + 1\<rparr>))"
proof -
  define rest where "rest = remove1 e (tc_holding t)"
  have rest: "mset (tc_holding t) = add_mset e (mset rest)" using assms(2) by (simp add: rest_def)
  define u where "u = t\<lparr>tc_holding := rest, tc_pollers := tc_pollers t + 1\<rparr>"
  have delivered: "mset (tc_handled t) + mset (tc_taken t) + mset (tc_eventChan t) \<subseteq># mset (all_sent ls)"
    using assms(1) by (simp add: tracer_inv_def)
  have "mset (tc_handled t) + mset (tc_taken t) + mset (tc_eventChan (offer_event e u)) \<subseteq>#
      mset (all_sent (ls @ [LSend e]))"
  proof (cases "length (tc_eventChan t) < event_cap")
    case True
    then have "tc_eventChan (offer_event e u) = tc_eventChan t @ [e]"
      by (simp add: u_def offer_event_def chan_send_def)
    with delivered show ?thesis by (simp add: add.assoc)
  next
    case False
    then have "tc_eventChan (offer_event e u) = tc_eventChan t"
      by (simp add: u_def offer_event_def chan_send_def)
    with subset_add_mset [OF delivered] show ?thesis by simp
  qed
  moreover have "length (tc_handled t) + length (tc_taken t) + length (tc_eventChan (offer_event e u)) \<le>
      tc_processedEvents (offer_event e u)" "length (tc_eventChan (offer_event e u)) \<le> event_cap"
    using assms(1) by (auto simp: tracer_inv_def u_def offer_event_def chan_send_def)
  moreover have "tc_processedEvents (offer_event e u) + tc_droppedEvents (offer_event e u) =
      Suc (tc_processedEvents t + tc_droppedEvents t)"
    unfolding offer_event_frame by (simp add: u_def)
  ultimately have "tracer_inv (ls @ [LSend e]) (offer_event e u)"
    using assms(1) rest unfolding tracer_inv_def by (simp add: u_def)
  then show ?thesis by (simp add: u_def rest_def)
qed

text \<open>A step of a goroutine that moves no event keeps the invariant.\<close>

lemma tracer_inv_quiet:
  assumes "tracer_inv ls t" "parsed l = []" "sent l = []"
    and "tc_droppedEvents t' = tc_droppedEvents t + failed l"
    and "tc_processedEvents t' = tc_processedEvents t" "tc_holding t' = tc_holding t"
    and "tc_eventChan t' = tc_eventChan t" "tc_handled t' = tc_handled t" "tc_taken t' = tc_taken t"
    and "tc_stopChan_closed t' = tc_eventChan_closed t'"
    and "tc_eventChan_closed t' \<Longrightarrow> tc_eventChan_closed t \<or> l = LStop"
  shows "tracer_inv (ls @ [l]) t'"
  using assms by (auto simp: tracer_inv_def)

lemma tracer_inv_read:
  assumes "tracer_inv ls t"
  shows "tracer_inv (ls @ [LRead r]) (poll_read r t)"
proof (cases r)
  case (Inl err)
  have "tracer_inv (ls @ [LRead (Inl err)]) (poll_read (Inl err) t)"
    by (rule tracer_inv_quiet [OF assms])
       (use assms in \<open>simp_all add: poll_read_def tracer_inv_def Let_def split: if_splits\<close>)
  with Inl show ?thesis by simp
next
  case (Inr data)
  show ?thesis
  proof (cases "parseRawEvent data")
    case (Inl err)
    have "tracer_inv (ls @ [LRead (Inr data)]) (poll_read (Inr data) t)"
      by (rule tracer_inv_quiet [OF assms])
         (use assms Inl in \<open>simp_all add: poll_read_def tracer_inv_def Let_def\<close>)
    with Inr show ?thesis by simp
  next
    case ok: (Inr e)
    with assms Inr show ?thesis by (simp add: poll_read_def tracer_inv_def Let_def)
  qed
qed

lemma tracer_inv_take:
  assumes "tracer_inv ls t" "tc_eventChan t = e # rest" "parsed l = []" "sent l = []" "failed l = 0"
  shows "tracer_inv (ls @ [l]) (worker_recv e rest t)" "tracer_inv (ls @ [l]) (Events_recv e rest t)"
proof -
  have m: "mset (tc_handled t) + mset (tc_taken t) + mset (e # rest) \<subseteq># mset (all_sent ls)"
    using assms(1,2) by (simp add: tracer_inv_def)
  have "mset (tc_handled t) + mset (tc_taken t) + mset rest \<subseteq># mset (tc_handled t) + mset (tc_taken t) + mset (e # rest)"
    by simp
  then have "mset (tc_handled t) + mset (tc_taken t) + mset rest \<subseteq># mset (all_sent ls)"
    using m by (rule subset_mset.order_trans)
  then show "tracer_inv (ls @ [l]) (worker_recv e rest t)" "tracer_inv (ls @ [l]) (Events_recv e rest t)"
    using assms m by (simp_all add: tracer_inv_def worker_recv_def Events_recv_def Let_def)
qed

lemma tracer_inv_step:
  assumes "tracer_step t l (Inr t')" "tracer_inv ls t"
  shows "tracer_inv (ls @ [l]) t'"
  using assms(1)
proof cases
  case start
  then show ?thesis
    by (intro tracer_inv_quiet [OF assms(2)])
       (use assms(2) in \<open>auto simp: Tracer_Start_def tracer_inv_def split: if_splits\<close>)
next
  case stop
  then show ?thesis
    by (intro tracer_inv_quiet [OF assms(2)])
       (use assms(2) in \<open>auto simp: Tracer_Stop_def tracer_inv_def split: if_splits\<close>)
next
  case (poll_send event)
  then have "t' = offer_event event (t\<lparr>tc_holding := remove1 event (tc_holding t), tc_pollers := tc_pollers t + 1\<rparr>)"
    by (simp add: poll_send_def split: if_splits)
  with tracer_inv_send [OF assms(2) poll_send(3)] poll_send(1) show ?thesis by simp
next
  case (poll_read r)
  with tracer_inv_read [OF assms(2)] show ?thesis by simp
next
  case (worker event rest)
  with tracer_inv_take(1) [OF assms(2)] show ?thesis by simp
next
  case (events event rest)
  with tracer_inv_take(2) [OF assms(2)] show ?thesis by simp
qed (rule tracer_inv_quiet [OF assms(2)];
     use assms(2) in \<open>simp add: tracer_inv_def SetEventHandler_def poll_top_def Let_def split: if_splits\<close>)+

lemma tracer_inv_run:
  assumes "tracer_run t ls r" "t = new_tracer n" "r = Inr u"
  shows "tracer_inv ls u"
  using assms
proof (induction arbitrary: u rule: tracer_run.induct)
  case (run_Nil t)
  then show ?case using tracer_inv_new [of n] by auto
next
  case (run_snoc t ls v l r)
  then show ?case using tracer_inv_step by blast
qed


text \<open>Two runs: one event is handled; the other stops while a poller holds an event.\<close>

definition a_record :: string where "a_record = packed_bytes zero_event @ replicate 7 (CHR 0x00)"

lemma parse_a_record: "parseRawEvent a_record = Inr zero_event"
  unfolding a_record_def by (rule packed_read) simp_all

definition holding_run :: "tracer_label list" where
  "holding_run = [LHandler, LStart, LTop False, LRead (Inr a_record)]"

definition holding_state :: tracer where
  "holding_state = (new_tracer 4)\<lparr>tc_eventHandler := True, tc_running := True, tc_receivers := 4,
     tc_holding := [zero_event]\<rparr>"

lemmas tracer_ops = Tracer_Start_def Tracer_Stop_def SetEventHandler_def poll_top_def poll_read_def
  poll_send_def offer_event_def chan_send_def worker_recv_def Let_def

lemma run_step: "tracer_run t ls (Inr u) \<Longrightarrow> tracer_step u l r \<Longrightarrow> ls' = ls @ [l] \<Longrightarrow> tracer_run t ls' r"
  by (simp add: run_snoc)

lemma holding_reached: "tracer_run (new_tracer 4) holding_run (Inr holding_state)"
proof -
  let ?t = "(new_tracer 4)\<lparr>tc_eventHandler := True\<rparr>"
  let ?u = "?t\<lparr>tc_running := True, tc_receivers := 4, tc_pollers := 1\<rparr>"
  let ?v = "?t\<lparr>tc_running := True, tc_receivers := 4, tc_pollers := 0, tc_reading := 1\<rparr>"
  have "tracer_run (new_tracer 4) [LHandler] (Inr ?t)"
    by (rule run_step [OF run_Nil]) (simp_all add: step_simps tracer_ops)
  then have "tracer_run (new_tracer 4) [LHandler, LStart] (Inr ?u)"
    by (rule run_step) (simp_all add: step_simps tracer_ops new_tracer_def)
  then have "tracer_run (new_tracer 4) [LHandler, LStart, LTop False] (Inr ?v)"
    by (rule run_step) (simp_all add: step_simps tracer_ops new_tracer_def)
  then show ?thesis
    unfolding holding_run_def
    by (rule run_step)
       (simp_all add: step_simps tracer_ops new_tracer_def parse_a_record holding_state_def)
qed


text \<open>
  C11: The only panics of the tracer are a send on a closed channel and a second close of the
  stop channel, both only after a call of \<open>Stop\<close>; without one no interleaving panics.
\<close>

theorem tracer_panics_after_stop:
  assumes "tracer_run (new_tracer numCPU) ls (Inl p)"
  shows "\<exists>ks l. ls = ks @ [l] \<and> LStop \<in> set ks \<and>
     (p = SendOnClosedChan \<and> (\<exists>e. l = LSend e) \<or> p = CloseOfClosedChan \<and> l = LStop)"
  using assms
proof cases
  case (run_snoc ks u l)
  then have inv: "tracer_inv ks u" using tracer_inv_run by blast
  from run_snoc(3) show ?thesis
    using inv run_snoc(1)
    by cases (auto simp: poll_send_def Tracer_Stop_def tracer_inv_def split: if_splits)
qed

text \<open>A poller that holds an event when \<open>Stop\<close> closes the channel panics at its send.\<close>

lemma stop_race: "tracer_run (new_tracer 4) (holding_run @ [LStop, LSend zero_event]) (Inl SendOnClosedChan)"
proof -
  have "tracer_run (new_tracer 4) (holding_run @ [LStop])
      (Inr (holding_state\<lparr>tc_running := False, tc_stopChan_closed := True, tc_eventChan_closed := True\<rparr>))"
    by (rule run_step [OF holding_reached])
       (simp_all add: step_simps Tracer_Stop_def holding_state_def new_tracer_def)
  then show ?thesis
    by (rule run_step) (simp_all add: step_simps poll_send_def holding_state_def new_tracer_def)
qed

theorem tracer_panics_after_stop_witness:
  "\<exists>ks l. holding_run @ [LStop, LSend zero_event] = ks @ [l] \<and> LStop \<in> set ks \<and>
     (SendOnClosedChan = SendOnClosedChan \<and> (\<exists>e. l = LSend e) \<or> SendOnClosedChan = CloseOfClosedChan \<and> l = LStop)"
  by (rule tracer_panics_after_stop [OF stop_race])

text \<open>A tracer that is started again after it was stopped panics when it is stopped again.\<close>

lemma second_stop_panics:
  assumes "Tracer_Stop t = Inr u" "tc_running t" "Tracer_Start u = Inr v"
  shows "Tracer_Stop v = Inl CloseOfClosedChan"
  using assms by (auto simp: Tracer_Stop_def Tracer_Start_def split: if_splits)

end
