(* ===== verification/Envoy.thy ===== *)
theory Envoy
  imports Trace_Model
begin

text \<open>
  \<open>pkg/protocol/envoy.go\<close>: recognising an Envoy frame, decoding its 28-byte header,
  classifying the inner payload, splitting a buffer into frames. \<open>CanHandle\<close> slices
  beyond the length of its argument, so it works on slices with a capacity; every other
  function stays inside the length it has checked and works on the bytes.
\<close>

section \<open>Data\<close>

definition EnvoyHeaderLen :: nat where "EnvoyHeaderLen = 28"
definition EnvoyMaxMessageLen :: int where "EnvoyMaxMessageLen = 1024 * 1024 * 16"
definition EnvoyMagic :: u32 where "EnvoyMagic = 0x454E5659"

definition EnvoyTypeData :: u8 where "EnvoyTypeData = 1"
definition EnvoyTypeHandshake :: u8 where "EnvoyTypeHandshake = 2"
definition EnvoyTypeAck :: u8 where "EnvoyTypeAck = 3"
definition EnvoyTypeKeepalive :: u8 where "EnvoyTypeKeepalive = 4"
definition EnvoyTypeReset :: u8 where "EnvoyTypeReset = 5"

lemmas envoy_defs [go_eval] =
  EnvoyHeaderLen_def EnvoyMaxMessageLen_def EnvoyMagic_def EnvoyTypeData_def
  EnvoyTypeHandshake_def EnvoyTypeAck_def EnvoyTypeKeepalive_def EnvoyTypeReset_def

record envoy_header =
  eh_Magic :: u32
  eh_Version :: u8
  eh_Type :: u8
  eh_Flags :: u8
  eh_StreamID :: u64
  eh_Length :: u32
  eh_Timestamp :: u64
  eh_Checksum :: u32

record envoy_message =
  em_Header :: envoy_header
  em_Payload :: string
  em_Protocol :: string
  em_IsRequest :: bool
  em_IsUDP :: bool

datatype envoy_error =
    PayloadTooSmall nat
  | InvalidHeaderSize
  | InvalidEnvoyMagic u32
  | MessageTooLarge u32

definition envoy_known_ports :: "u16 list" where
  "envoy_known_ports =
     [15001, 15006, 15010, 15011, 15012, 15014, 15017, 15018, 15021, 15020, 15090, 15051]"

definition u8_of :: "char \<Rightarrow> u8" where "u8_of c = of_char c"

section \<open>Operations\<close>

definition Envoy_CanHandle :: "u16 \<Rightarrow> bslice \<Rightarrow> bool go" where
  "Envoy_CanHandle port payload =
     (if port \<in> set envoy_known_ports then Inr True
      else if sl_len payload < 8 then Inr False
      else
        let bs = sl_bytes payload;
            magic = be_uint32 (take 4 bs);
            version = u8_of (bs ! 4);
            msgType = u8_of (bs ! 5)
        in if magic = EnvoyMagic \<and> version \<le> 2 \<and> msgType \<le> 5 then Inr True
           else go_bind
             (if 12 < sl_len payload then
                go_bind (sl_sub payload 8 16) (\<lambda>s1.
                go_bind (sl_sub payload 16 20) (\<lambda>s2.
                  let streamID = be_uint64 (sl_bytes s1);
                      len = be_uint32 (sl_bytes s2)
                  in Inr (0 < streamID \<and> 0 < len \<and> len < word_of_int EnvoyMaxMessageLen)))
              else Inr False)
             (\<lambda>plausible.
                if plausible then Inr True
                else Inr (4 < sl_len payload \<and> take 4 bs = [CHR 0x45, CHR 0x4E, CHR 0x56, CHR 0x59])))"

definition parseHeader :: "string \<Rightarrow> envoy_error + envoy_header" where
  "parseHeader payload =
     (if length payload < EnvoyHeaderLen then Inl InvalidHeaderSize
      else
        let hd0 = \<lparr>eh_Magic = be_uint32 (take 4 payload),
                    eh_Version = u8_of (payload ! 4),
                    eh_Type = u8_of (payload ! 5),
                    eh_Flags = u8_of (payload ! 6),
                    eh_StreamID = be_uint64 (take 8 (drop 8 payload)),
                    eh_Length = be_uint32 (take 4 (drop 16 payload)),
                    eh_Timestamp = be_uint64 (take 8 (drop 20 payload)),
                    eh_Checksum = 0\<rparr>;
            hdr = (if 32 \<le> length payload
                   then hd0\<lparr>eh_Checksum := be_uint32 (take 4 (drop 28 payload))\<rparr> else hd0)
        in if eh_Magic hdr \<noteq> EnvoyMagic then Inl (InvalidEnvoyMagic (eh_Magic hdr))
           else if word_of_int EnvoyMaxMessageLen < eh_Length hdr
                then Inl (MessageTooLarge (eh_Length hdr))
           else Inr hdr)"

definition detectInnerProtocol :: "string \<Rightarrow> string" where
  "detectInnerProtocol payload =
     (let n = length payload; b = (\<lambda>i. payload ! i) in
      if n = 0 then ''''
      else if 4 < n \<and> b 0 = CHR ''G'' \<and> b 1 = CHR ''E'' \<and> b 2 = CHR ''T'' \<and> b 3 = CHR '' '' then ''http''
      else if 4 < n \<and> b 0 = CHR ''P'' \<and> b 1 = CHR ''O'' \<and> b 2 = CHR ''S'' \<and> b 3 = CHR ''T'' then ''http''
      else if 4 < n \<and> b 0 = CHR ''H'' \<and> b 1 = CHR ''T'' \<and> b 2 = CHR ''T'' \<and> b 3 = CHR ''P'' then ''http''
      else if 5 < n \<and> b 0 = CHR 0x50 \<and> b 1 = CHR 0x52 \<and> b 2 = CHR 0x49 then ''redis''
      else if 8 < n \<and>
              (be_uint32 (take 4 payload) AND 0xFF = 0 \<or> be_uint32 (take 4 payload) AND 0xFF = 1) \<and>
              0 < be_uint32 (take 4 (drop 1 payload)) \<and>
              be_uint32 (take 4 (drop 1 payload)) < 1024 * 1024 then ''grpc''
      else if 2 < n \<and> (b 0 = CHR 0x01 \<or> b 0 = CHR 0x02) \<and> (b 1 = CHR 0x01 \<or> b 1 = CHR 0x02)
           then ''mysql''
      else ''unknown'')"

definition isRequest :: "envoy_header \<Rightarrow> string \<Rightarrow> bool" where
  "isRequest hdr payload =
     (let n = length payload; b = (\<lambda>i. payload ! i) in
      if eh_Flags hdr AND 2 \<noteq> 0 then False
      else if 4 < n \<and> b 0 = CHR ''G'' \<and> b 1 = CHR ''E'' \<and> b 2 = CHR ''T'' then True
      else if 4 < n \<and> b 0 = CHR ''P'' \<and> b 1 = CHR ''O'' \<and> b 2 = CHR ''S'' \<and> b 3 = CHR ''T'' then True
      else if 4 < n \<and> b 0 = CHR ''P'' \<and> b 1 = CHR ''U'' \<and> b 2 = CHR ''T'' then True
      else if 4 < n \<and> b 0 = CHR ''D'' \<and> b 1 = CHR ''E'' \<and> b 2 = CHR ''L'' then True
      else if 4 < n \<and> b 0 = CHR ''H'' \<and> b 1 = CHR ''T'' \<and> b 2 = CHR ''T'' \<and> b 3 = CHR ''P'' then False
      else eh_Type hdr = EnvoyTypeData)"

definition messageTypeString :: "u8 \<Rightarrow> string" where
  "messageTypeString t =
     (if t = EnvoyTypeData then ''DATA''
      else if t = EnvoyTypeHandshake then ''HANDSHAKE''
      else if t = EnvoyTypeAck then ''ACK''
      else if t = EnvoyTypeKeepalive then ''KEEPALIVE''
      else if t = EnvoyTypeReset then ''RESET''
      else ''UNKNOWN_'' @ nat_dec (unat t))"

text \<open>The message part of \<open>Parse\<close>, then what it writes into a non-nil span.\<close>

definition envoy_message_of :: "string \<Rightarrow> envoy_header \<Rightarrow> envoy_message" where
  "envoy_message_of payload hdr =
     (let payloadEnd = EnvoyHeaderLen + unat (eh_Length hdr);
          payloadEnd = (if length payload < payloadEnd then length payload else payloadEnd);
          body = (if 0 < eh_Length hdr
                  then take (payloadEnd - EnvoyHeaderLen) (drop EnvoyHeaderLen payload) else [])
      in \<lparr>em_Header = hdr, em_Payload = body, em_Protocol = detectInnerProtocol body,
          em_IsRequest = isRequest hdr body, em_IsUDP = (eh_Flags hdr AND 1 \<noteq> 0)\<rparr>)"

definition envoy_annotate :: "envoy_message \<Rightarrow> span \<Rightarrow> span" where
  "envoy_annotate msg s =
     (let hdr = em_Header msg;
          s = SetTag s ''envoy_stream_id'' (TagU64 (eh_StreamID hdr));
          s = SetTag s ''envoy_type'' (TagStr (messageTypeString (eh_Type hdr)));
          s = SetTag s ''envoy_version'' (TagU8 (eh_Version hdr));
          s = SetTag s ''envoy_udp'' (TagBool (em_IsUDP msg));
          s = SetTag s ''envoy_length'' (TagU32 (eh_Length hdr));
          s = SetTag s ''envoy_flags'' (TagU8 (eh_Flags hdr));
          s = (if em_Protocol msg \<noteq> '''' then SetTag s ''inner_protocol'' (TagStr (em_Protocol msg)) else s);
          s = s\<lparr>sp_Operation := ''ENVOY_'' @ to_upper (messageTypeString (eh_Type hdr)) @ ''_'' @
                  to_upper (em_Protocol msg)\<rparr>
      in if em_IsUDP msg then s\<lparr>sp_ServiceName := sp_ServiceName s @ ''-sidecar''\<rparr> else s)"

definition Envoy_Parse ::
  "string \<Rightarrow> span option \<Rightarrow> (envoy_error + envoy_message) \<times> span option"
where
  "Envoy_Parse payload sp =
     (if length payload < EnvoyHeaderLen then (Inl (PayloadTooSmall (length payload)), sp)
      else
        case parseHeader payload of
          Inl e \<Rightarrow> (Inl e, sp)
        | Inr hdr \<Rightarrow>
            let msg = envoy_message_of payload hdr
            in (Inr msg, map_option (envoy_annotate msg) sp))"

text \<open>The loop of \<open>ParseMultiple\<close>, on the bytes from \<open>pos\<close> on.\<close>

function envoy_loop :: "string \<Rightarrow> envoy_message list" where
  "envoy_loop rest =
     (if length rest < EnvoyHeaderLen then []
      else
        case parseHeader rest of
          Inl e \<Rightarrow> []
        | Inr hdr \<Rightarrow>
            let msgLen = EnvoyHeaderLen + unat (eh_Length hdr)
            in if length rest < msgLen then []
               else
                 case fst (Envoy_Parse (take msgLen rest) None) of
                   Inl e \<Rightarrow> envoy_loop (drop 1 rest)
                 | Inr msg \<Rightarrow> msg # envoy_loop (drop msgLen rest))"
  by pat_completeness auto
termination
  by (relation "measure length") (auto simp: EnvoyHeaderLen_def not_less)

declare envoy_loop.simps [simp del]

definition Envoy_ParseMultiple :: "string \<Rightarrow> envoy_message list" where
  "Envoy_ParseMultiple payload = envoy_loop payload"

definition ExtractInnerPayload :: "string \<Rightarrow> string" where
  "ExtractInnerPayload envoyPayload =
     (if length envoyPayload < EnvoyHeaderLen then envoyPayload
      else
        case parseHeader envoyPayload of
          Inl e \<Rightarrow> envoyPayload
        | Inr hdr \<Rightarrow>
            let payloadEnd = EnvoyHeaderLen + unat (eh_Length hdr);
                payloadEnd = (if length envoyPayload < payloadEnd
                              then length envoyPayload else payloadEnd)
            in take (payloadEnd - EnvoyHeaderLen) (drop EnvoyHeaderLen envoyPayload))"

section \<open>Frames as a sender writes them\<close>

text \<open>
  A reference encoder for the layout the parser reads: magic, version, type, flags, one
  byte the parser skips, stream id, length, timestamp, then the body.
\<close>

definition envoy_frame :: "envoy_header \<times> string \<Rightarrow> string" where
  "envoy_frame f = (case f of (hdr, body) \<Rightarrow>
     be_bytes32 (eh_Magic hdr) @
     [low_byte (eh_Version hdr), low_byte (eh_Type hdr), low_byte (eh_Flags hdr), CHR 0x00] @
     be_bytes64 (eh_StreamID hdr) @ be_bytes32 (eh_Length hdr) @
     be_bytes64 (eh_Timestamp hdr) @ body)"

definition envoy_frame_ok :: "envoy_header \<times> string \<Rightarrow> bool" where
  "envoy_frame_ok f \<longleftrightarrow> (case f of (hdr, body) \<Rightarrow>
     eh_Magic hdr = EnvoyMagic \<and> eh_Checksum hdr = 0 \<and>
     int (length body) \<le> EnvoyMaxMessageLen \<and> eh_Length hdr = of_nat (length body))"

lemma length_envoy_frame: "length (envoy_frame (hdr, body)) = EnvoyHeaderLen + length body"
  by (simp add: envoy_frame_def EnvoyHeaderLen_def)

lemma u8_of_low_byte [simp]: "u8_of (low_byte (w :: u8)) = w"
  by (simp add: u8_of_def of_char_low_byte)

lemma frame_length_unat:
  "envoy_frame_ok (hdr, body) \<Longrightarrow> unat (eh_Length hdr) = length body"
  by (simp add: envoy_frame_ok_def EnvoyMaxMessageLen_def unat_of_nat)

lemma frame_length_max:
  assumes "envoy_frame_ok (hdr, body)"
  shows "\<not> word_of_int EnvoyMaxMessageLen < eh_Length hdr"
proof -
  have "unat (eh_Length hdr) \<le> 16777216"
    using assms frame_length_unat [OF assms]
    by (simp add: envoy_frame_ok_def EnvoyMaxMessageLen_def)
  then show ?thesis by (simp add: EnvoyMaxMessageLen_def word_less_nat_alt not_less)
qed

definition frame_checksum :: "string \<Rightarrow> u32" where
  "frame_checksum rest = (if 4 \<le> length rest then be_uint32 (take 4 rest) else 0)"

lemma parseHeader_frame:
  assumes "envoy_frame_ok (hdr, body)"
  shows "parseHeader (envoy_frame (hdr, body) @ rest) =
     Inr (hdr\<lparr>eh_Checksum := frame_checksum (body @ rest)\<rparr>)"
proof -
  let ?p = "envoy_frame (hdr, body) @ rest"
  obtain b0 b1 b2 b3 where m: "be_bytes32 (eh_Magic hdr) = [b0, b1, b2, b3]"
    by (simp add: be_bytes32_def)
  have "parseHeader ?p = (if word_of_int EnvoyMaxMessageLen < eh_Length hdr
      then Inl (MessageTooLarge (eh_Length hdr))
      else Inr (hdr\<lparr>eh_Checksum := frame_checksum (body @ rest)\<rparr>))"
    using assms m [symmetric]
    by (cases hdr) (auto simp: parseHeader_def envoy_frame_def envoy_frame_ok_def Let_def
        EnvoyHeaderLen_def frame_checksum_def m nth_append)
  then show ?thesis using frame_length_max [OF assms] by simp
qed

lemma envoy_message_of_frame:
  assumes "envoy_frame_ok (hdr, body)"
  shows "em_Payload (envoy_message_of (envoy_frame (hdr, body)) (hdr\<lparr>eh_Checksum := c\<rparr>)) = body"
    and "em_Header (envoy_message_of (envoy_frame (hdr, body)) (hdr\<lparr>eh_Checksum := c\<rparr>)) =
         hdr\<lparr>eh_Checksum := c\<rparr>"
proof -
  have u: "unat (eh_Length hdr) = length body" using assms by (rule frame_length_unat)
  have "drop EnvoyHeaderLen (envoy_frame (hdr, body)) = body"
    by (simp add: envoy_frame_def EnvoyHeaderLen_def)
  moreover have "body = []" if "\<not> 0 < eh_Length hdr"
    using that u by (simp add: word_less_nat_alt)
  ultimately show "em_Payload (envoy_message_of (envoy_frame (hdr, body)) (hdr\<lparr>eh_Checksum := c\<rparr>)) = body"
    by (auto simp: envoy_message_of_def Let_def length_envoy_frame u)
  show "em_Header (envoy_message_of (envoy_frame (hdr, body)) (hdr\<lparr>eh_Checksum := c\<rparr>)) =
         hdr\<lparr>eh_Checksum := c\<rparr>"
    by (simp add: envoy_message_of_def Let_def)
qed

lemma Envoy_Parse_frame:
  assumes "envoy_frame_ok (hdr, body)"
  shows "fst (Envoy_Parse (envoy_frame (hdr, body)) sp) =
     Inr (envoy_message_of (envoy_frame (hdr, body)) (hdr\<lparr>eh_Checksum := frame_checksum body\<rparr>))"
  using parseHeader_frame [OF assms, of "[]"]
  by (simp add: Envoy_Parse_def Let_def length_envoy_frame)

lemma envoy_loop_frame:
  assumes "envoy_frame_ok (hdr, body)"
  shows "envoy_loop (envoy_frame (hdr, body) @ rest) =
     envoy_message_of (envoy_frame (hdr, body)) (hdr\<lparr>eh_Checksum := frame_checksum body\<rparr>) #
     envoy_loop rest"
  by (subst envoy_loop.simps)
     (simp add: parseHeader_frame [OF assms] Let_def length_envoy_frame
       frame_length_unat [OF assms] Envoy_Parse_frame [OF assms])

lemma envoy_loop_Nil: "envoy_loop [] = []"
  by (subst envoy_loop.simps) (simp add: EnvoyHeaderLen_def)

lemma envoy_frame_body: "drop EnvoyHeaderLen (envoy_frame (hdr, body)) = body"
  by (simp add: envoy_frame_def EnvoyHeaderLen_def)

lemma envoy_frame_CanHandle:
  assumes "envoy_frame_ok (hdr, body)" "eh_Version hdr \<le> 2" "eh_Type hdr \<le> 5"
  shows "be_uint32 (take 4 (envoy_frame (hdr, body))) = EnvoyMagic \<and>
     u8_of (envoy_frame (hdr, body) ! 4) \<le> 2 \<and> u8_of (envoy_frame (hdr, body) ! 5) \<le> 5"
proof -
  obtain b0 b1 b2 b3 where m: "be_bytes32 (eh_Magic hdr) = [b0, b1, b2, b3]"
    by (simp add: be_bytes32_def)
  have "be_uint32 [b0, b1, b2, b3] = eh_Magic hdr" by (simp flip: m)
  moreover have "(envoy_frame (hdr, body)) ! 4 = low_byte (eh_Version hdr)"
    "(envoy_frame (hdr, body)) ! 5 = low_byte (eh_Type hdr)"
    "take 4 (envoy_frame (hdr, body)) = [b0, b1, b2, b3]"
    by (simp_all add: envoy_frame_def m)
  ultimately show ?thesis using assms by (simp add: envoy_frame_ok_def)
qed

lemma Envoy_CanHandle_total:
  "20 \<le> length (sl_buf payload) \<Longrightarrow> \<exists>b. Envoy_CanHandle port payload = Inr b"
  by (auto simp: Envoy_CanHandle_def Let_def sl_sub_def)

text \<open>A first byte other than \<open>E\<close> is never the magic number.\<close>

lemma of_char_u32_ucast: "(of_char c :: u32) = ucast (of_char c :: u8)"
proof -
  have "take_bit 8 (of_char c) = (of_char c :: nat)"
    by (rule take_bit_nat_eq_self) simp
  then have "unat (word_of_nat (of_char c) :: u8) = of_char c"
    unfolding unat_of_nat by simp
  then have u: "unat (of_char c :: u8) = of_char c" by (simp add: of_nat_of_char)
  have "(of_char c :: u32) = word_of_nat (of_char c)" by (simp only: of_nat_of_char)
  also have "\<dots> = ucast (of_char c :: u8)" by (simp only: u [symmetric] of_nat_unat)
  finally show ?thesis .
qed

lemma be_uint32_top: "drop_bit 24 (be_uint32 bs) = of_char (bs ! 0)"
  by (rule bit_word_eqI) (auto simp: be_uint32_def of_char_u32_ucast bit_simps dest: bit_imp_le_length)

lemma magic_first_byte: "be_uint32 bs = EnvoyMagic \<Longrightarrow> bs ! 0 = CHR ''E''"
proof -
  assume "be_uint32 bs = EnvoyMagic"
  then have "(of_char (bs ! 0) :: u32) = of_char CHR ''E''"
    using be_uint32_top [of bs] by (simp add: EnvoyMagic_def)
  then have "unat (word_of_nat (of_char (bs ! 0)) :: u32) = 69" by (simp only: of_nat_of_char) simp
  moreover have "(of_char (bs ! 0) :: nat) mod 4294967296 = of_char (bs ! 0)"
    by (rule mod_less, rule less_trans [of _ 256]) simp_all
  ultimately have "(of_char (bs ! 0) :: nat) = 69" unfolding unat_of_nat by simp
  then have "(of_char (bs ! 0) :: nat) = of_char CHR ''E''" by simp
  then show ?thesis by (simp only: of_char_eq_iff)
qed

section \<open>Properties\<close>

text \<open>
  C15: \<open>ParseMultiple\<close> inverts the framing: from any sequence of well-formed frames written
  one after the other it recovers exactly their headers and bodies, in order (the
  checksum field apart, which it fills with the first bytes after the 28-byte header).
\<close>

theorem envoy_frames_roundtrip:
  assumes "list_all envoy_frame_ok fs"
  shows "map (\<lambda>m. ((em_Header m)\<lparr>eh_Checksum := 0\<rparr>, em_Payload m))
     (Envoy_ParseMultiple (concat (map envoy_frame fs))) = fs"
  using assms
proof (induction fs)
  case Nil
  then show ?case by (simp add: Envoy_ParseMultiple_def envoy_loop_Nil)
next
  case (Cons f fs)
  obtain hdr body where f: "f = (hdr, body)" by (cases f)
  with Cons.prems have ok: "envoy_frame_ok (hdr, body)" by simp
  then have "hdr\<lparr>eh_Checksum := 0\<rparr> = hdr" by (simp add: envoy_frame_ok_def)
  with Cons f show ?case
    by (simp add: Envoy_ParseMultiple_def envoy_loop_frame [OF ok] envoy_message_of_frame [OF ok])
qed

definition demo_frame :: "envoy_header \<times> string" where
  "demo_frame = (\<lparr>eh_Magic = EnvoyMagic, eh_Version = 1, eh_Type = EnvoyTypeData, eh_Flags = 0,
     eh_StreamID = 7, eh_Length = 5, eh_Timestamp = 0, eh_Checksum = 0\<rparr>, ''GET /'')"

lemma demo_frame_ok: "envoy_frame_ok demo_frame"
  by (simp add: demo_frame_def envoy_frame_ok_def EnvoyMaxMessageLen_def)

theorem envoy_frames_roundtrip_witness:
  "map (\<lambda>m. ((em_Header m)\<lparr>eh_Checksum := 0\<rparr>, em_Payload m))
     (Envoy_ParseMultiple (concat (map envoy_frame [demo_frame, demo_frame]))) =
     [demo_frame, demo_frame]"
  using envoy_frames_roundtrip [of "[demo_frame, demo_frame]"] by (simp add: demo_frame_ok)

text \<open>
  \<open>ExtractInnerPayload\<close> and \<open>Parse\<close> agree: whenever \<open>Parse\<close> accepts a frame, the
  bytes that \<open>ExtractInnerPayload\<close> hands to the next parser are the payload of the parsed
  message, and whenever it rejects one they are the whole input.
\<close>

theorem envoy_extract_agrees:
  "ExtractInnerPayload payload =
     (case fst (Envoy_Parse payload sp) of Inl e \<Rightarrow> payload | Inr msg \<Rightarrow> em_Payload msg)"
  by (auto simp: ExtractInnerPayload_def Envoy_Parse_def envoy_message_of_def Let_def not_less
      split: sum.splits dest!: le_antisym simp: word_le_nat_alt word_less_nat_alt)

text \<open>
  \<open>CanHandle\<close> panics exactly when the port is not a known one, the bytes do not start
  like an Envoy header, and the slice is longer than 12 bytes but its capacity ends before
  byte 20: the length test before \<open>payload[8:16]\<close> and \<open>payload[16:20]\<close> is too weak.
\<close>

theorem envoy_CanHandle_panics:
  assumes "sl_wf payload"
  shows "Envoy_CanHandle port payload = Inl p \<longleftrightarrow>
     p = SliceBounds \<and> port \<notin> set envoy_known_ports \<and> 12 < sl_len payload \<and>
     length (sl_buf payload) < 20 \<and>
     \<not> (be_uint32 (take 4 (sl_bytes payload)) = EnvoyMagic \<and>
        u8_of (sl_bytes payload ! 4) \<le> 2 \<and> u8_of (sl_bytes payload ! 5) \<le> 5)"
proof -
  have "sl_len payload \<le> length (sl_buf payload)" using assms by (simp add: sl_wf_def)
  then show ?thesis
    by (auto simp: Envoy_CanHandle_def Let_def sl_sub_def)
qed

theorem envoy_CanHandle_panics_witness:
  "Envoy_CanHandle 80 (sl_of ''xxxxxxxxxxxxx'') = Inl SliceBounds"
  by (subst envoy_CanHandle_panics)
     (simp_all add: envoy_known_ports_def be_uint32_def EnvoyMagic_def)

end
