(* ===== verification/Http_Parser.thy ===== *)
theory Http_Parser
  imports Trace_Model
begin

text \<open>
  \<open>HTTPParser\<close> of \<open>pkg/protocol/parser.go\<close>. The two regular expressions are written out
  as matchers: their character classes \<open>\s\<close>, \<open>\S\<close>, \<open>\d\<close> and the literals that follow are
  disjoint, so a greedy run is the only possible match and no backtracking is left, except
  for the last part of the response expression, which \<open>response_tail\<close> treats.
\<close>

section \<open>Data\<close>

record http_request =
  hq_Method :: string
  hq_Path :: string
  hq_Version :: string
  hq_Headers :: "string \<rightharpoonup> string"
  hq_Body :: string

record http_response =
  hr_StatusCode :: int
  hr_Version :: string
  hr_Headers :: "string \<rightharpoonup> string"
  hr_Body :: string

datatype http_message = HttpRequest http_request | HttpResponse http_response

datatype http_error = HttpEmptyPayload | HttpInvalidMessage | HttpNotHTTP

section \<open>The regular expressions\<close>

text \<open>\<open>\s\<close> of the regular expressions: tab, newline, form feed, return and space.\<close>

definition re_space :: "char \<Rightarrow> bool" where
  "re_space c \<longleftrightarrow> c = CHR 0x09 \<or> c = CHR 0x0A \<or> c = CHR 0x0C \<or> c = CHR 0x0D \<or> c = CHR 0x20"

definition http_methods :: "string list" where
  "http_methods =
     [''GET'', ''POST'', ''PUT'', ''DELETE'', ''PATCH'', ''HEAD'', ''OPTIONS'', ''CONNECT'', ''TRACE'']"

text \<open>\<open>\s+\<close> and \<open>\d+\.\d+\<close>: the text matched and the rest.\<close>

definition skip_spaces :: "string \<Rightarrow> string option" where
  "skip_spaces s = (if takeWhile re_space s = [] then None else Some (dropWhile re_space s))"

definition match_version :: "string \<Rightarrow> (string \<times> string) option" where
  "match_version s =
     (case dropWhile is_digit s of
        [] \<Rightarrow> None
      | c # r \<Rightarrow>
          if takeWhile is_digit s \<noteq> [] \<and> c = CHR ''.'' \<and> takeWhile is_digit r \<noteq> []
          then Some (takeWhile is_digit s @ c # takeWhile is_digit r, dropWhile is_digit r)
          else None)"

text \<open>Method, path and version of a request line.\<close>

definition matchRequest :: "string \<Rightarrow> (string \<times> string \<times> string) option" where
  "matchRequest line =
     Option.bind (find (\<lambda>m. has_prefix m line) http_methods) (\<lambda>m.
     Option.bind (skip_spaces (drop (length m) line)) (\<lambda>r.
       let path = takeWhile (\<lambda>c. \<not> re_space c) r in
       if path = [] then None
       else
         Option.bind (skip_spaces (dropWhile (\<lambda>c. \<not> re_space c) r)) (\<lambda>r.
           if has_prefix ''HTTP/'' r
           then map_option (\<lambda>(v, _). (m, path, v)) (match_version (drop 5 r))
           else None)))"

text \<open>
  \<open>\s+(.+)\<close> at the end: the reason phrase needs one character other than a newline after
  at least one space. If only spaces are left, the greedy run gives its last ones back.
\<close>

definition response_tail :: "string \<Rightarrow> bool" where
  "response_tail s \<longleftrightarrow>
     takeWhile re_space s \<noteq> [] \<and>
     (dropWhile re_space s \<noteq> [] \<or>
      list_ex (\<lambda>c. c \<noteq> CHR 0x0A) (tl (takeWhile re_space s)))"

text \<open>Version and status code of a status line.\<close>

definition matchResponse :: "string \<Rightarrow> (string \<times> string) option" where
  "matchResponse line =
     (if has_prefix ''HTTP/'' line then
        Option.bind (match_version (drop 5 line)) (\<lambda>(v, r).
        Option.bind (skip_spaces r) (\<lambda>r.
          let code = takeWhile is_digit r in
          if code \<noteq> [] \<and> response_tail (dropWhile is_digit r) then Some (v, code) else None))
      else None)"

section \<open>Operations\<close>

definition HTTP_CanHandle :: "string \<Rightarrow> bool" where
  "HTTP_CanHandle payload \<longleftrightarrow>
     4 \<le> length payload \<and>
     list_ex (\<lambda>m. has_prefix m payload)
       [''GET '', ''POST'', ''PUT '', ''DELE'', ''PATC'', ''HEAD'', ''OPTI'', ''CONN'', ''TRAC'', ''HTTP'']"

text \<open>What a header does to the span; the gRPC parser has the same three tests.\<close>

definition trace_header :: "string \<Rightarrow> string \<Rightarrow> span \<Rightarrow> span" where
  "trace_header k v s =
     (let s = (if to_lower k = ''x-trace-id'' then s\<lparr>sp_TraceID := v\<rparr> else s);
          s = (if to_lower k = ''x-span-id'' then s\<lparr>sp_SpanID := v\<rparr> else s)
      in if to_lower k = ''x-parent-span-id'' then s\<lparr>sp_ParentSpanID := v\<rparr> else s)"

text \<open>The header loop, up to the first empty line.\<close>

fun http_headers ::
  "string list \<Rightarrow> (string \<rightharpoonup> string) \<Rightarrow> span \<Rightarrow> (string \<rightharpoonup> string) \<times> span"
where
  "http_headers [] hs s = (hs, s)"
| "http_headers (line # lines) hs s =
     (if line = '''' then (hs, s)
      else
        case str_split2 '': '' line of
          [k, v] \<Rightarrow> http_headers lines (hs(k \<mapsto> v)) (trace_header k v s)
        | _ \<Rightarrow> http_headers lines hs s)"

definition http_body :: "string \<Rightarrow> string" where
  "http_body payload =
     (case str_index (crlf @ crlf) payload of
        None \<Rightarrow> ''''
      | Some i \<Rightarrow> if 0 < i \<and> i + 4 < length payload then drop (i + 4) payload else '''')"

definition HTTP_Parse :: "string \<Rightarrow> span \<Rightarrow> (http_error + http_message) \<times> span" where
  "HTTP_Parse payload s =
     (if payload = '''' then (Inl HttpEmptyPayload, s)
      else
        case str_split crlf payload of
          [] \<Rightarrow> (Inl HttpInvalidMessage, s)
        | firstLine # lines \<Rightarrow>
            (case matchRequest firstLine of
               Some (m, path, v) \<Rightarrow>
                 (case http_headers lines Map.empty s of (hs, s') \<Rightarrow>
                    (Inr (HttpRequest \<lparr>hq_Method = m, hq_Path = path, hq_Version = v,
                                       hq_Headers = hs, hq_Body = http_body payload\<rparr>), s'))
             | None \<Rightarrow>
                 (case matchResponse firstLine of
                    Some (v, code) \<Rightarrow>
                      (case http_headers lines Map.empty s of (hs, s') \<Rightarrow>
                         (Inr (HttpResponse
                            \<lparr>hr_StatusCode = (case atoi code of Some n \<Rightarrow> n | None \<Rightarrow> 0),
                             hr_Version = v, hr_Headers = hs, hr_Body = http_body payload\<rparr>), s'))
                  | None \<Rightarrow> (Inl HttpNotHTTP, s))))"

section \<open>Messages as a client and a server write them\<close>

definition http_version_ok :: "string \<Rightarrow> bool" where
  "http_version_ok v \<longleftrightarrow>
     (\<exists>a b. v = a @ ''.'' @ b \<and> a \<noteq> [] \<and> b \<noteq> [] \<and> list_all is_digit a \<and> list_all is_digit b)"

definition header_line :: "string \<times> string \<Rightarrow> string" where
  "header_line kv = fst kv @ '': '' @ snd kv"

definition header_ok :: "string \<times> string \<Rightarrow> bool" where
  "header_ok kv \<longleftrightarrow>
     CHR '':'' \<notin> set (fst kv) \<and> CHR 0x0D \<notin> set (fst kv) \<and> CHR 0x0D \<notin> set (snd kv)"

definition http_text :: "string \<Rightarrow> (string \<times> string) list \<Rightarrow> string \<Rightarrow> string" where
  "http_text first hs body =
     first @ crlf @ concat (map (\<lambda>l. l @ crlf) (map header_line hs)) @ crlf @ body"

definition request_line :: "string \<Rightarrow> string \<Rightarrow> string \<Rightarrow> string" where
  "request_line m path v = m @ '' '' @ path @ '' HTTP/'' @ v"

definition status_line :: "string \<Rightarrow> nat \<Rightarrow> string \<Rightarrow> string" where
  "status_line v code reason = ''HTTP/'' @ v @ '' '' @ nat_dec code @ '' '' @ reason"

lemma digit_not_space: "is_digit c \<Longrightarrow> \<not> re_space c"
  by (auto simp: is_digit_def re_space_def less_eq_char_def)

lemma takeWhile_digits: "list_all is_digit a \<Longrightarrow> takeWhile is_digit (a @ s) = a @ takeWhile is_digit s"
  by (induction a) auto

lemma dropWhile_digits: "list_all is_digit a \<Longrightarrow> dropWhile is_digit (a @ s) = dropWhile is_digit s"
  by (induction a) auto

lemma takeWhile_all_digits: "list_all is_digit a \<Longrightarrow> takeWhile is_digit a = a"
  by (induction a) auto

lemma dropWhile_all_digits: "list_all is_digit a \<Longrightarrow> dropWhile is_digit a = []"
  by (induction a) auto

lemma no_digit_space [simp]:
  "\<not> is_digit CHR '' ''" "\<not> is_digit CHR ''.''" "\<not> is_digit CHR 0x0D"
  by (simp_all add: is_digit_def less_eq_char_def)

lemma match_version_ok:
  "http_version_ok v \<Longrightarrow> (\<And>c t. s = c # t \<Longrightarrow> \<not> is_digit c) \<Longrightarrow> match_version (v @ s) = Some (v, s)"
  by (cases s)
     (auto simp: http_version_ok_def match_version_def takeWhile_digits dropWhile_digits
        takeWhile_all_digits dropWhile_all_digits)

lemma skip_one_space:
  "(\<And>c t. s = c # t \<Longrightarrow> \<not> re_space c) \<Longrightarrow> skip_spaces (CHR '' '' # s) = Some s"
  by (cases s) (auto simp: skip_spaces_def re_space_def)

lemma takeWhile_no_space:
  "list_all (\<lambda>c. \<not> re_space c) p \<Longrightarrow>
   takeWhile (\<lambda>c. \<not> re_space c) (p @ CHR '' '' # s) = p \<and>
   dropWhile (\<lambda>c. \<not> re_space c) (p @ CHR '' '' # s) = CHR '' '' # s"
  by (induction p) (auto simp: re_space_def)

lemma find_method:
  assumes "m \<in> set http_methods"
  shows "find (\<lambda>p. has_prefix p (m @ s)) http_methods = Some m"
proof -
  have "list_all (\<lambda>m. find (\<lambda>p. has_prefix p (m @ s)) http_methods = Some m) http_methods"
    by (simp add: http_methods_def)
  with assms show ?thesis by (simp add: list_all_iff)
qed

lemma matchRequest_line:
  assumes "m \<in> set http_methods" "path \<noteq> []" "list_all (\<lambda>c. \<not> re_space c) path" "http_version_ok v"
  shows "matchRequest (request_line m path v) = Some (m, path, v)"
proof -
  have path: "\<not> re_space c" if "path @ s = c # t" for c s t
    using assms(2,3) that by (cases path) auto
  have v: "match_version v = Some (v, [])"
    using match_version_ok [OF assms(4), of "[]"] by simp
  have h: "\<not> re_space CHR ''H''" by (simp add: re_space_def)
  have "skip_spaces (CHR '' '' # path @ CHR '' '' # ''HTTP/'' @ v) = Some (path @ CHR '' '' # ''HTTP/'' @ v)"
    by (rule skip_one_space) (use path in auto)
  moreover have "skip_spaces (CHR '' '' # ''HTTP/'' @ v) = Some (''HTTP/'' @ v)"
    by (rule skip_one_space) (use h in auto)
  moreover have "matchRequest (request_line m path v) =
      Option.bind (skip_spaces (CHR '' '' # path @ CHR '' '' # ''HTTP/'' @ v)) (\<lambda>r.
        let path = takeWhile (\<lambda>c. \<not> re_space c) r in
        if path = [] then None
        else Option.bind (skip_spaces (dropWhile (\<lambda>c. \<not> re_space c) r)) (\<lambda>r.
          if has_prefix ''HTTP/'' r
          then map_option (\<lambda>(v, _). (m, path, v)) (match_version (drop 5 r)) else None))"
    unfolding matchRequest_def request_line_def find_method [OF assms(1)] by simp
  ultimately show ?thesis
    using assms(2) takeWhile_no_space [OF assms(3), of "''HTTP/'' @ v"] v
    by (simp add: Let_def del: append_Cons append.simps) simp
qed

lemma no_method_http: "matchRequest (''HTTP/'' @ s) = None"
  by (simp add: matchRequest_def http_methods_def)

lemma response_tail_space:
  "response_tail (CHR '' '' # reason) \<longleftrightarrow> \<not> list_all (\<lambda>c. c = CHR 0x0A) reason"
proof (cases "list_all re_space reason")
  case True
  moreover have "re_space CHR '' ''" by (simp add: re_space_def)
  ultimately have "takeWhile re_space (CHR '' '' # reason) = CHR '' '' # reason"
    "dropWhile re_space (CHR '' '' # reason) = []"
    by (simp_all add: list_all_iff)
  then have "response_tail (CHR '' '' # reason) \<longleftrightarrow> list_ex (\<lambda>c. c \<noteq> CHR 0x0A) reason"
    unfolding response_tail_def by (simp only:) simp
  then show ?thesis by (simp add: list_all_iff list_ex_iff)
next
  case False
  then have "dropWhile re_space reason \<noteq> []"
    by (auto simp: list_all_iff)
  moreover from False have "\<not> list_all (\<lambda>c. c = CHR 0x0A) reason"
    by (auto simp: list_all_iff re_space_def)
  ultimately show ?thesis by (simp add: response_tail_def re_space_def)
qed

lemma matchResponse_line:
  assumes "http_version_ok v"
  shows "matchResponse (status_line v code reason) =
     (if list_all (\<lambda>c. c = CHR 0x0A) reason then None
      else Some (v, nat_dec code))"
proof -
  have v: "match_version (v @ CHR '' '' # s) = Some (v, CHR '' '' # s)" for s
    by (rule match_version_ok [OF assms]) simp
  have digits: "takeWhile is_digit (nat_dec code @ CHR '' '' # reason) = nat_dec code"
    "dropWhile is_digit (nat_dec code @ CHR '' '' # reason) = CHR '' '' # reason"
    by (simp_all add: takeWhile_digits dropWhile_digits nat_dec_digits)
  have start: "\<not> re_space c" if "nat_dec code @ s = c # t" for c s t
    using that nat_dec_digits [of code] by (cases "nat_dec code") (auto dest: digit_not_space)
  have sp: "skip_spaces (CHR '' '' # nat_dec code @ s) = Some (nat_dec code @ s)" for s
    by (rule skip_one_space) (use start in blast)
  have "response_tail (CHR '' '' # reason) \<longleftrightarrow> \<not> list_all (\<lambda>c. c = CHR 0x0A) reason"
    by (rule response_tail_space)
  with v sp digits show ?thesis
    by (simp add: matchResponse_def status_line_def)
qed

section \<open>Reading headers and body back\<close>

lemma header_line_nonempty [simp]: "header_line kv \<noteq> []"
  by (simp add: header_line_def)

lemma header_line_no_cr: "header_ok kv \<Longrightarrow> CHR 0x0D \<notin> set (header_line kv)"
  by (auto simp: header_line_def header_ok_def)

lemma str_index_skip:
  "c \<notin> set k \<Longrightarrow> str_index (c # sub) (k @ s) = map_option ((+) (length k)) (str_index (c # sub) s)"
  by (cases "str_index (c # sub) s"; induction k) auto

lemma split_header_line: "header_ok kv \<Longrightarrow> str_split2 '': '' (header_line kv) = [fst kv, snd kv]"
  using str_index_skip [of "CHR '':''" "fst kv" "'' ''" "'': '' @ snd kv"]
  by (simp add: str_split2_def header_line_def header_ok_def)

lemma http_headers_lines:
  "list_all header_ok kvs \<Longrightarrow>
   http_headers (map header_line kvs @ '''' # rest) hs s =
     (hs(map fst kvs [\<mapsto>] map snd kvs), fold (\<lambda>kv. trace_header (fst kv) (snd kv)) kvs s)"
  by (induction kvs arbitrary: hs s) (simp_all add: split_header_line)

lemma split_http_text:
  assumes "CHR 0x0D \<notin> set first" "list_all header_ok kvs"
  shows "str_split crlf (http_text first kvs body) =
     first # map header_line kvs @ '''' # str_split crlf body"
proof -
  have "str_split crlf (concat (map (\<lambda>l. l @ crlf) (map header_line kvs)) @ crlf @ body) =
      map header_line kvs @ str_split crlf (crlf @ body)"
    by (rule str_split_crlf_lines) (use assms(2) header_line_no_cr in \<open>auto simp: list_all_iff\<close>)
  moreover have "str_split crlf (crlf @ body) = '''' # str_split crlf body"
    using str_split_crlf_step [of "''''" body] by simp
  ultimately show ?thesis
    by (simp add: http_text_def str_split_crlf_step [OF assms(1)])
qed

lemma blank_line_next:
  assumes "CHR 0x0D \<notin> set l" "l \<noteq> []"
  shows "str_index (crlf @ crlf) (crlf @ l @ s) =
     map_option ((+) (length l + 2)) (str_index (crlf @ crlf) s)"
proof -
  obtain c l' where l: "l = c # l'" using assms(2) by (cases l) auto
  with assms(1) have c: "c \<noteq> CHR 0x0D" by auto
  have "str_index (crlf @ crlf) (crlf @ l @ s) =
      map_option (Suc \<circ> Suc) (str_index (crlf @ crlf) (l @ s))"
    using c by (simp add: crlf_def l option.map_comp comp_assoc)
  also have "str_index (crlf @ crlf) (l @ s) = map_option ((+) (length l)) (str_index (crlf @ crlf) s)"
    using str_index_skip [OF assms(1)] by (simp add: crlf_def)
  finally show ?thesis
    by (cases "str_index (crlf @ crlf) s") simp_all
qed

lemma blank_line_at:
  assumes "\<And>l. l \<in> set ls \<Longrightarrow> CHR 0x0D \<notin> set l \<and> l \<noteq> []"
  shows "str_index (crlf @ crlf) (crlf @ concat (map (\<lambda>l. l @ crlf) ls) @ crlf @ body) =
     Some (length (concat (map (\<lambda>l. l @ crlf) ls)))"
  using assms
proof (induction ls)
  case Nil
  then show ?case by (simp add: crlf_def)
next
  case (Cons l ls)
  from Cons.prems have l: "CHR 0x0D \<notin> set l" "l \<noteq> []" by auto
  from Cons have "str_index (crlf @ crlf) (crlf @ concat (map (\<lambda>l. l @ crlf) ls) @ crlf @ body) =
      Some (length (concat (map (\<lambda>l. l @ crlf) ls)))" by simp
  with blank_line_next [OF l] show ?case by (simp add: crlf_def)
qed

lemma http_body_text:
  assumes "CHR 0x0D \<notin> set first" "first \<noteq> []" "list_all header_ok kvs"
  shows "http_body (http_text first kvs body) = body"
proof -
  let ?ls = "map header_line kvs"
  let ?n = "length first + length (concat (map (\<lambda>l. l @ crlf) ?ls))"
  have "str_index (crlf @ crlf) (crlf @ concat (map (\<lambda>l. l @ crlf) ?ls) @ crlf @ body) =
      Some (length (concat (map (\<lambda>l. l @ crlf) ?ls)))"
    by (rule blank_line_at) (use assms(3) header_line_no_cr in \<open>auto simp: list_all_iff\<close>)
  with str_index_skip [OF assms(1)] have
    idx: "str_index (crlf @ crlf) (http_text first kvs body) = Some ?n"
    by (simp add: http_text_def crlf_def)
  have "?n + 4 = length (first @ crlf @ concat (map (\<lambda>l. l @ crlf) ?ls) @ crlf)"
    by (simp add: crlf_def)
  moreover have "http_text first kvs body =
      (first @ crlf @ concat (map (\<lambda>l. l @ crlf) ?ls) @ crlf) @ body"
    by (simp add: http_text_def)
  ultimately have "drop (?n + 4) (http_text first kvs body) = body"
    by (metis append_eq_conv_conj)
  moreover have "length (http_text first kvs body) = ?n + 4 + length body"
    by (simp add: http_text_def crlf_def)
  ultimately show ?thesis
    using idx assms(2) by (simp add: http_body_def)
qed

lemma http_version_no_cr: "http_version_ok v \<Longrightarrow> CHR 0x0D \<notin> set v"
  using no_digit_space(3) by (auto simp: http_version_ok_def list_all_iff simp del: no_digit_space)

lemma http_method_no_cr: "m \<in> set http_methods \<Longrightarrow> CHR 0x0D \<notin> set m"
  by (auto simp: http_methods_def)

lemma request_line_no_cr:
  assumes "m \<in> set http_methods" "list_all (\<lambda>c. \<not> re_space c) path" "http_version_ok v"
  shows "CHR 0x0D \<notin> set (request_line m path v)"
proof -
  have "CHR 0x0D \<notin> set path" using assms(2) by (auto simp: list_all_iff re_space_def)
  with http_method_no_cr [OF assms(1)] http_version_no_cr [OF assms(3)] show ?thesis
    by (simp add: request_line_def)
qed

lemma status_line_no_cr:
  "http_version_ok v \<Longrightarrow> CHR 0x0D \<notin> set reason \<Longrightarrow> CHR 0x0D \<notin> set (status_line v code reason)"
  by (simp add: status_line_def http_version_no_cr nat_dec_no_cr)

lemma headers_of_text:
  "list_all header_ok kvs \<Longrightarrow>
   http_headers (map header_line kvs @ '''' # rest) Map.empty s =
     (map_of (rev kvs), fold (\<lambda>kv. trace_header (fst kv) (snd kv)) kvs s)"
  by (simp add: http_headers_lines map_upds_def zip_map_fst_snd)

lemma HTTP_Parse_text:
  assumes "CHR 0x0D \<notin> set first" "first \<noteq> []" "list_all header_ok kvs"
  shows "HTTP_Parse (http_text first kvs body) s =
     (let s' = fold (\<lambda>kv. trace_header (fst kv) (snd kv)) kvs s in
      case matchRequest first of
        Some (m, path, v) \<Rightarrow>
          (Inr (HttpRequest \<lparr>hq_Method = m, hq_Path = path, hq_Version = v,
                             hq_Headers = map_of (rev kvs), hq_Body = body\<rparr>), s')
      | None \<Rightarrow>
          (case matchResponse first of
             Some (v, code) \<Rightarrow>
               (Inr (HttpResponse
                  \<lparr>hr_StatusCode = (case atoi code of Some n \<Rightarrow> n | None \<Rightarrow> 0),
                   hr_Version = v, hr_Headers = map_of (rev kvs), hr_Body = body\<rparr>), s')
           | None \<Rightarrow> (Inl HttpNotHTTP, s)))"
proof -
  have "http_text first kvs body \<noteq> ''''" using assms(2) by (simp add: http_text_def)
  then show ?thesis
    by (simp add: HTTP_Parse_def split_http_text [OF assms(1,3)] headers_of_text [OF assms(3)]
        http_body_text [OF assms] Let_def split: option.splits)
qed

lemma trace_header_TraceID:
  "sp_TraceID (trace_header k v s) = (if to_lower k = ''x-trace-id'' then v else sp_TraceID s)"
  by (simp add: trace_header_def Let_def)

lemma fold_trace_headers:
  "sp_TraceID (fold (\<lambda>kv. trace_header (fst kv) (snd kv)) kvs s) =
     (case filter (\<lambda>kv. to_lower (fst kv) = ''x-trace-id'') (rev kvs) of
        [] \<Rightarrow> sp_TraceID s | kv # _ \<Rightarrow> snd kv)"
proof (induction kvs arbitrary: s)
  case Nil
  then show ?case by simp
next
  case (Cons kv kvs)
  show ?case
    by (cases "filter (\<lambda>kv. to_lower (fst kv) = ''x-trace-id'') (rev kvs)")
       (simp_all add: Cons.IH trace_header_TraceID)
qed

section \<open>Properties\<close>

text \<open>
  C18: An HTTP request is read back as it was written: method, path, version, every header
  (the last value of a repeated one) and the body, and the span takes its trace id from
  the last \<open>X-Trace-ID\<close> header, whatever the case of its letters; without one it keeps
  its own. An empty header value empties the trace id.
\<close>

theorem http_request_roundtrip:
  assumes "m \<in> set http_methods" "path \<noteq> []" "list_all (\<lambda>c. \<not> re_space c) path"
    and "http_version_ok v" "list_all header_ok kvs"
  shows "fst (HTTP_Parse (http_text (request_line m path v) kvs body) s) =
     Inr (HttpRequest \<lparr>hq_Method = m, hq_Path = path, hq_Version = v,
                       hq_Headers = map_of (rev kvs), hq_Body = body\<rparr>) \<and>
   sp_TraceID (snd (HTTP_Parse (http_text (request_line m path v) kvs body) s)) =
     (case filter (\<lambda>kv. to_lower (fst kv) = ''x-trace-id'') (rev kvs) of
        [] \<Rightarrow> sp_TraceID s | kv # _ \<Rightarrow> snd kv)"
proof -
  have "request_line m path v \<noteq> []" by (simp add: request_line_def)
  with assms show ?thesis
    by (simp add: HTTP_Parse_text request_line_no_cr matchRequest_line Let_def fold_trace_headers)
qed

theorem http_request_roundtrip_witness:
  "\<exists>r. fst (HTTP_Parse (http_text (request_line ''GET'' ''/users'' ''1.1'')
           [(''Host'', ''a''), (''X-Trace-Id'', ''t1'')] ''hi'') (ConvertRawEventToSpan zero_event '''' '''')) =
         Inr (HttpRequest r) \<and> hq_Path r = ''/users'' \<and> hq_Body r = ''hi'' \<and>
       sp_TraceID (snd (HTTP_Parse (http_text (request_line ''GET'' ''/users'' ''1.1'')
           [(''Host'', ''a''), (''X-Trace-Id'', ''t1'')] ''hi'') (ConvertRawEventToSpan zero_event '''' ''''))) =
         ''t1''"
proof -
  have v: "http_version_ok ''1.1''"
    unfolding http_version_ok_def
    by (rule exI [of _ "''1''"], rule exI [of _ "''1''"]) (simp add: is_digit_def less_eq_char_def)
  have low: "to_lower ''X-Trace-Id'' = ''x-trace-id''"
    by code_simp
  show ?thesis
    using http_request_roundtrip [of "''GET''" "''/users''" "''1.1''"
        "[(''Host'', ''a''), (''X-Trace-Id'', ''t1'')]" "''hi''"
        "ConvertRawEventToSpan zero_event '''' ''''"] v low
    by (simp add: http_methods_def re_space_def header_ok_def)
qed

text \<open>
  A response is recognised exactly when its reason phrase holds a character other than
  a newline: then its status code, version, headers and body are read back, otherwise
  (\<open>HTTP/1.1 200 \<close> with the empty phrase that HTTP allows) the message is refused and the
  span keeps its error code and trace id.
\<close>

theorem http_response_needs_reason:
  assumes "http_version_ok v" "CHR 0x0D \<notin> set reason" "list_all header_ok kvs"
    and "int code \<le> max_int64"
  shows "HTTP_Parse (http_text (status_line v code reason) kvs body) s =
     (if list_all (\<lambda>c. c = CHR 0x0A) reason then (Inl HttpNotHTTP, s)
      else (Inr (HttpResponse \<lparr>hr_StatusCode = int code, hr_Version = v,
                               hr_Headers = map_of (rev kvs), hr_Body = body\<rparr>),
            fold (\<lambda>kv. trace_header (fst kv) (snd kv)) kvs s))"
proof -
  have "status_line v code reason \<noteq> []" by (simp add: status_line_def)
  moreover have "matchRequest (status_line v code reason) = None"
    unfolding status_line_def by (rule no_method_http)
  ultimately show ?thesis
    using assms status_line_no_cr [OF assms(1,2)]
    by (simp add: HTTP_Parse_text matchResponse_line atoi_nat_dec Let_def)
qed

theorem http_response_needs_reason_witness:
  "fst (HTTP_Parse (http_text (status_line ''1.1'' 200 '''') [] '''')
          (ConvertRawEventToSpan zero_event '''' '''')) = Inl HttpNotHTTP"
proof -
  have v: "http_version_ok ''1.1''"
    unfolding http_version_ok_def
    by (rule exI [of _ "''1''"], rule exI [of _ "''1''"]) (simp add: is_digit_def less_eq_char_def)
  show ?thesis
    using http_response_needs_reason [OF v, of "''''" "[]" 200 "''''"
        "ConvertRawEventToSpan zero_event '''' ''''"] by (simp add: max_int64_def)
qed

end
