(* ===== verification/Grpc_Parser.thy ===== *)
theory Grpc_Parser
  imports Http_Parser
begin

text \<open>
  \<open>GRPCParser\<close> of \<open>pkg/protocol/parser.go\<close>: the length-prefixed frame, the header block
  behind it and the search for a path. It may slice, so it is a step that may panic.
\<close>

section \<open>Data\<close>

record grpc_message =
  gm_ServiceName :: string
  gm_MethodName :: string
  gm_StatusCode :: u32
  gm_Metadata :: "string \<rightharpoonup> string"

datatype grpc_error = GrpcTooShort

definition NUL :: char where "NUL = CHR 0x00"

section \<open>Operations\<close>

definition GRPC_CanHandle :: "string \<Rightarrow> bool" where
  "GRPC_CanHandle payload \<longleftrightarrow>
     5 \<le> length payload \<and> (payload ! 0 = NUL \<or> payload ! 0 = CHR 0x01)"

text \<open>The header loop, up to the first empty line.\<close>

fun grpc_headers :: "string list \<Rightarrow> grpc_message \<Rightarrow> span \<Rightarrow> grpc_message \<times> span" where
  "grpc_headers [] msg s = (msg, s)"
| "grpc_headers (line # lines) msg s =
     (if line = '''' then (msg, s)
      else
        case str_split2 '':'' line of
          [a, b] \<Rightarrow>
            let key = trim_space a;
                val = trim_space b;
                msg = msg\<lparr>gm_Metadata := (gm_Metadata msg)(key \<mapsto> val)\<rparr>;
                msg = (if to_lower key = '':path''
                       then (case str_split ''/'' val of
                               _ # svc # mth # _ \<Rightarrow> msg\<lparr>gm_ServiceName := svc, gm_MethodName := mth\<rparr>
                             | _ \<Rightarrow> msg)
                       else msg)
            in grpc_headers lines msg (trace_header key val s)
        | _ \<Rightarrow> grpc_headers lines msg s)"

text \<open>\<open>for start > 0 && payload[start-1] != 0 { start-- }\<close>\<close>

fun back_to_nul :: "string \<Rightarrow> nat \<Rightarrow> nat" where
  "back_to_nul payload 0 = 0"
| "back_to_nul payload (Suc n) = (if payload ! n \<noteq> NUL then back_to_nul payload n else Suc n)"

definition grpc_path :: "string \<Rightarrow> grpc_message \<Rightarrow> grpc_message" where
  "grpc_path payload msg =
     (case str_index ''/'' payload of
        None \<Rightarrow> msg
      | Some idx \<Rightarrow>
          if idx = 0 then msg
          else
            let start = back_to_nul payload idx in
            case str_index [NUL, NUL, NUL] (drop start payload) of
              None \<Rightarrow> msg
            | Some e \<Rightarrow>
                if e = 0 then msg
                else
                  (case str_split ''/'' (take e (drop start payload)) of
                     p0 # p1 # _ # _ \<Rightarrow> msg\<lparr>gm_ServiceName := p0, gm_MethodName := p1\<rparr>
                   | _ \<Rightarrow> msg))"

text \<open>The header block: \<open>5+headerLen\<close> is a \<open>uint32\<close> sum.\<close>

definition grpc_header_block ::
  "string \<Rightarrow> grpc_message \<Rightarrow> span \<Rightarrow> (grpc_message \<times> span) go"
where
  "grpc_header_block body msg s =
     (if 5 \<le> length body \<and> body ! 0 = NUL then
        let headerLen = be_uint32 (drop 1 body) in
        if unat headerLen \<le> length (drop 5 body) then
          go_bind (str_sub body 5 (uint (5 + headerLen))) (\<lambda>headerData.
            Inr (grpc_headers (str_split crlf headerData) msg s))
        else Inr (msg, s)
      else Inr (msg, s))"

definition GRPC_Parse :: "string \<Rightarrow> span \<Rightarrow> ((grpc_error + grpc_message) \<times> span) go" where
  "GRPC_Parse payload s =
     (if length payload < 5 then Inr (Inl GrpcTooShort, s)
      else
        let msg = \<lparr>gm_ServiceName = '''', gm_MethodName = '''',
                   gm_StatusCode = of_char (payload ! 0), gm_Metadata = Map.empty\<rparr> in
        if 5 < length payload then
          go_bind (grpc_header_block (drop 5 payload) msg s) (\<lambda>(msg, s).
            Inr (Inr (grpc_path payload msg), s))
        else Inr (Inr msg, s))"

section \<open>Lemmas\<close>

lemma set_trim_left: "set (trim_left s) \<subseteq> set s"
  by (induction s rule: trim_left.induct)
     (subst trim_left.simps, auto dest: in_set_dropD)

lemma set_trim_left_rev: "set (trim_left_rev s) \<subseteq> set s"
  by (induction s rule: trim_left_rev.induct)
     (subst trim_left_rev.simps, auto dest: in_set_dropD)

lemma set_trim_space: "set (trim_space s) \<subseteq> set s"
  using set_trim_left set_trim_left_rev by (fastforce simp: trim_space_def)

lemma lower_char_colon: "lower_char c = CHR '':'' \<Longrightarrow> c = CHR '':''"
proof -
  assume a: "lower_char c = CHR '':''"
  show ?thesis
  proof (cases "CHR ''A'' \<le> c \<and> c \<le> CHR ''Z''")
    case True
    then have "65 \<le> (of_char c :: nat)" "(of_char c :: nat) \<le> 90"
      by (simp_all add: less_eq_char_def)
    moreover from a True have "(of_char (char_of (of_char c + 32 :: nat) :: char) :: nat) = of_char CHR '':''"
      by (simp add: lower_char_def)
    ultimately show ?thesis by simp
  next
    case False
    with a show ?thesis by (auto simp: lower_char_def)
  qed
qed

lemma str_split2_key: "str_split2 [c] line = [a, b] \<Longrightarrow> c \<notin> set a"
  by (cases "c \<in> set line")
     (auto dest!: split_list_first simp: str_split2_def str_index_char_append str_index_char_None)

text \<open>The key of a header is cut at its first colon, so it is never \<open>:path\<close>.\<close>

lemma header_key_not_path: "str_split2 '':'' line = [a, b] \<Longrightarrow> to_lower (trim_space a) \<noteq> '':path''"
proof
  assume a: "str_split2 '':'' line = [a, b]" and p: "to_lower (trim_space a) = '':path''"
  from p have "CHR '':'' \<in> set (to_lower (trim_space a))" by simp
  then obtain c where "c \<in> set (trim_space a)" "lower_char c = CHR '':''"
    unfolding to_lower_def by (auto simp: eq_commute)
  then have "CHR '':'' \<in> set a"
    using set_trim_space [of a] lower_char_colon by auto
  with str_split2_key [OF a] show False by simp
qed

lemma grpc_headers_names:
  "gm_ServiceName (fst (grpc_headers lines msg s)) = gm_ServiceName msg \<and>
   gm_MethodName (fst (grpc_headers lines msg s)) = gm_MethodName msg \<and>
   gm_StatusCode (fst (grpc_headers lines msg s)) = gm_StatusCode msg"
  by (induction lines msg s rule: grpc_headers.induct)
     (auto simp: header_key_not_path Let_def split: list.splits)

lemma grpc_header_block_total:
  assumes "length body < 2 ^ 32"
  obtains msg' s' where "grpc_header_block body msg s = Inr (msg', s')"
    and "gm_ServiceName msg' = gm_ServiceName msg" "gm_MethodName msg' = gm_MethodName msg"
    and "gm_StatusCode msg' = gm_StatusCode msg"
proof (cases "5 \<le> length body \<and> body ! 0 = NUL \<and>
    unat (be_uint32 (drop 1 body)) \<le> length (drop 5 body)")
  case False
  then have "grpc_header_block body msg s = Inr (msg, s)"
    by (auto simp: grpc_header_block_def Let_def)
  with that show thesis by simp
next
  case True
  let ?h = "be_uint32 (drop 1 body)"
  from True have "unat ?h \<le> length body - 5" "5 \<le> length body" by simp_all
  then have le: "unat ?h + 5 \<le> length body" by linarith
  with assms have "unat ?h + 5 < 2 ^ 32" by linarith
  then have "int (unat ?h + 5) < int (2 ^ 32)" by (simp only: of_nat_less_iff)
  then have "5 + int (unat ?h) < 2 ^ 32" by simp
  moreover have "uint (5 + ?h) = (5 + int (unat ?h)) mod 2 ^ 32"
    by (simp add: uint_word_ariths)
  ultimately have "uint (5 + ?h) = 5 + int (unat ?h)" by simp
  then have "str_sub body 5 (uint (5 + ?h)) = str_sub body (int 5) (int (5 + unat ?h))"
    by (simp only: of_nat_add) simp
  then obtain d where "str_sub body 5 (uint (5 + ?h)) = Inr d"
    using le str_sub_nat [of 5 "5 + unat ?h" body] by simp
  then have "grpc_header_block body msg s = Inr (grpc_headers (str_split crlf d) msg s)"
    using True by (simp add: grpc_header_block_def Let_def)
  with that grpc_headers_names [of "str_split crlf d" msg s] show thesis
    by (cases "grpc_headers (str_split crlf d) msg s") simp
qed

lemma GRPC_Parse_total:
  assumes "length payload < 2 ^ 32"
  shows "\<exists>r. GRPC_Parse payload s = Inr r"
proof -
  let ?msg = "\<lparr>gm_ServiceName = '''', gm_MethodName = '''',
      gm_StatusCode = of_char (payload ! 0), gm_Metadata = Map.empty\<rparr>"
  from assms have "length (drop 5 payload) < 2 ^ 32" by simp
  then obtain msg' s' where "grpc_header_block (drop 5 payload) ?msg s = Inr (msg', s')"
    by (rule grpc_header_block_total [of _ ?msg s])
  then show ?thesis by (simp add: GRPC_Parse_def Let_def)
qed

lemma grpc_path_StatusCode [simp]: "gm_StatusCode (grpc_path payload msg) = gm_StatusCode msg"
  by (auto simp: grpc_path_def Let_def split: option.splits list.splits)

lemma back_to_nul_stop: "back_to_nul (pre @ NUL # p @ s) (Suc (length pre) + k) = Suc (length pre)"
  if "k \<le> length p" "NUL \<notin> set p" for p
  using that(1)
proof (induction k)
  case 0
  then show ?case by simp
next
  case (Suc k)
  then have "(pre @ NUL # p @ s) ! (Suc (length pre) + k) = p ! k"
    by (simp add: nth_append)
  moreover have "p ! k \<noteq> NUL" using Suc.prems that(2) by (metis Suc_le_eq nth_mem)
  ultimately show ?case using Suc by simp
qed

lemma grpc_path_found:
  assumes "CHR ''/'' \<notin> set pre" "NUL \<notin> set svc" "NUL \<notin> set mth"
    and "CHR ''/'' \<notin> set svc" "CHR ''/'' \<notin> set mth"
  shows "grpc_path (pre @ NUL # ''/'' @ svc @ ''/'' @ mth @ [NUL, NUL, NUL] @ rest) msg =
     msg\<lparr>gm_ServiceName := '''', gm_MethodName := svc\<rparr>"
proof -
  let ?path = "''/'' @ svc @ ''/'' @ mth"
  let ?p = "pre @ NUL # ''/'' @ svc @ ''/'' @ mth @ [NUL, NUL, NUL] @ rest"
  have nul: "NUL \<noteq> CHR ''/''" by (simp add: NUL_def)
  have idx: "str_index ''/'' ?p = Some (Suc (length pre))"
    using str_index_char_append [of "CHR ''/''" "pre @ [NUL]" "svc @ ''/'' @ mth @ [NUL, NUL, NUL] @ rest"]
      assms(1) nul by simp
  have start: "back_to_nul ?p (Suc (length pre)) = Suc (length pre)"
    using back_to_nul_stop [of 0 "''''"] by simp
  have drop: "drop (Suc (length pre)) ?p = ?path @ [NUL, NUL, NUL] @ rest" by simp
  have "NUL \<notin> set ?path" using assms(2,3) nul by auto
  then have e: "str_index [NUL, NUL, NUL] (?path @ [NUL, NUL, NUL] @ rest) = Some (length ?path)"
    by (subst str_index_skip) simp_all
  have split: "str_split ''/'' ?path = ['''', svc, mth]"
    using str_split_join_char [of "['''', svc, mth]" "CHR ''/''"] assms(4,5) by fastforce
  show ?thesis
    unfolding grpc_path_def idx by (simp only: option.case start drop e Let_def) (simp add: split [simplified])
qed

section \<open>Properties\<close>

text \<open>
  The service and method of a gRPC call are reported one place off: a path
  \<open>/service/method\<close> between NUL bytes yields an empty service name and the service as the
  method, whatever comes before and after it, and whatever headers the frame holds (the
  \<open>:path\<close> branch of the header loop can never be taken).
\<close>

theorem grpc_path_off_by_one:
  assumes "5 \<le> length pre" "CHR ''/'' \<notin> set pre"
    and "NUL \<notin> set svc" "NUL \<notin> set mth" "CHR ''/'' \<notin> set svc" "CHR ''/'' \<notin> set mth"
    and "length pre + length svc + length mth + length rest < 2 ^ 31"
  shows "\<exists>msg s'. GRPC_Parse (pre @ NUL # ''/'' @ svc @ ''/'' @ mth @ [NUL, NUL, NUL] @ rest) s =
           Inr (Inr msg, s') \<and> gm_ServiceName msg = '''' \<and> gm_MethodName msg = svc"
proof -
  let ?p = "pre @ NUL # ''/'' @ svc @ ''/'' @ mth @ [NUL, NUL, NUL] @ rest"
  let ?msg = "\<lparr>gm_ServiceName = '''', gm_MethodName = '''',
      gm_StatusCode = of_char (?p ! 0), gm_Metadata = Map.empty\<rparr>"
  have "length (drop 5 ?p) < 2 ^ 32" using assms(7) by simp
  then obtain msg' s' where "grpc_header_block (drop 5 ?p) ?msg s = Inr (msg', s')"
    by (rule grpc_header_block_total)
  moreover have "\<not> length ?p < 5" "5 < length ?p" using assms(1) by simp_all
  ultimately have "GRPC_Parse ?p s = Inr (Inr (grpc_path ?p msg'), s')"
    by (simp only: GRPC_Parse_def Let_def if_False if_True go_bind_Inr case_prod_conv)
  then show ?thesis
    by (simp only: grpc_path_found [OF assms(2-6)]) simp
qed

theorem grpc_path_off_by_one_witness:
  "\<exists>msg s'. GRPC_Parse ([NUL, NUL, NUL, NUL, CHR 0x20] @ NUL # ''/'' @ ''cart'' @ ''/'' @ ''Add'' @
        [NUL, NUL, NUL] @ '''') (ConvertRawEventToSpan zero_event '''' '''') = Inr (Inr msg, s') \<and>
      gm_ServiceName msg = '''' \<and> gm_MethodName msg = ''cart''"
  by (rule grpc_path_off_by_one) (simp_all add: NUL_def)

text \<open>
  The gRPC parser never panics on a payload below 4 GiB, and the status code it reports
  is the compression flag of the frame, so for every frame that \<open>CanHandle\<close> accepts it is
  0 or 1 and never an error status.
\<close>

theorem grpc_status_is_compression_flag:
  assumes "length payload < 2 ^ 32" "GRPC_CanHandle payload"
  shows "\<exists>msg s'. GRPC_Parse payload s = Inr (Inr msg, s') \<and>
     gm_StatusCode msg = of_char (payload ! 0) \<and> gm_StatusCode msg \<le> 1"
proof -
  let ?msg = "\<lparr>gm_ServiceName = '''', gm_MethodName = '''',
      gm_StatusCode = of_char (payload ! 0), gm_Metadata = Map.empty\<rparr>"
  from assms(2) have flag: "(of_char (payload ! 0) :: u32) \<le> 1"
    by (auto simp: GRPC_CanHandle_def NUL_def)
  from assms(1) have "length (drop 5 payload) < 2 ^ 32" by simp
  then obtain msg' s' where "grpc_header_block (drop 5 payload) ?msg s = Inr (msg', s')"
    and "gm_StatusCode msg' = gm_StatusCode ?msg"
    by (rule grpc_header_block_total [of _ ?msg s])
  then have "GRPC_Parse payload s = Inr (Inr (if 5 < length payload then grpc_path payload msg' else ?msg),
      if 5 < length payload then s' else s)"
    using assms(2) by (simp add: GRPC_Parse_def GRPC_CanHandle_def Let_def)
  moreover have "gm_StatusCode (if 5 < length payload then grpc_path payload msg' else ?msg) =
      of_char (payload ! 0)"
    using \<open>gm_StatusCode msg' = gm_StatusCode ?msg\<close> by simp
  ultimately show ?thesis using flag by auto
qed

theorem grpc_status_is_compression_flag_witness:
  "\<exists>msg s'. GRPC_Parse [CHR 0x01, NUL, NUL, NUL, NUL] (ConvertRawEventToSpan zero_event '''' '''') =
       Inr (Inr msg, s') \<and> gm_StatusCode msg \<le> 1"
  using grpc_status_is_compression_flag
    [of "[CHR 0x01, NUL, NUL, NUL, NUL]" "ConvertRawEventToSpan zero_event '''' ''''"]
  by (auto simp: GRPC_CanHandle_def)

end
