(* ===== verification/Redis_Parser.thy ===== *)
theory Redis_Parser
  imports Trace_Model
begin

text \<open>
  The Redis part of \<open>pkg/protocol/parser.go\<close>: RESP arrays, RESP replies, inline
  commands, and the loop that splits a buffer into commands. Buffers are byte lists (the
  parser never slices past the length it has checked, except through the overflow below);
  positions and lengths are 64-bit, and the sum of a position and a parsed length is
  wrapped as Go wraps it.
\<close>

section \<open>Data\<close>

record redis_command =
  rc_Command :: string
  rc_Key :: string
  rc_Args :: "string list"
  rc_IsResponse :: bool

datatype redis_error =
    RedisEmptyPayload
  | RedisInvalidPayload
  | RedisInvalidRESPFormat
  | RedisInvalidArrayLength
  | RedisNoCommands

definition empty_command :: redis_command where
  "empty_command = \<lparr>rc_Command = '''', rc_Key = '''', rc_Args = [], rc_IsResponse = False\<rparr>"

text \<open>
  \<open>make([]string, 0, n)\<close> panics when the array of 16-byte string headers would exceed the
  runtime's address limit of $2^{48}$ bytes.
\<close>

definition make_string_slice :: "int \<Rightarrow> unit go" where
  "make_string_slice n = (if 2 ^ 48 < 16 * n then Inl MakeSliceCap else Inr ())"

section \<open>Operations\<close>

definition Redis_CanHandle :: "string \<Rightarrow> bool" where
  "Redis_CanHandle payload =
     (case payload of
        [] \<Rightarrow> False
      | c # _ \<Rightarrow> c = CHR ''*'' \<or> c = CHR ''+'' \<or> c = CHR ''-'' \<or> c = CHR '':'' \<or> c = CHR ''$'' \<or>
                 (CHR ''A'' \<le> c \<and> c \<le> CHR ''Z''))"

text \<open>
  The body of the argument loop of \<open>parseRESPArray\<close>: \<open>Stop pos\<close> is a \<open>break\<close> with the
  current position, \<open>Got arg pos\<close> appends an argument and goes on.
\<close>

datatype arg_step = Stop nat | Got string nat

definition resp_arg :: "string \<Rightarrow> nat \<Rightarrow> arg_step go" where
  "resp_arg payload pos =
     (if payload ! pos \<noteq> CHR ''$'' then Inr (Stop pos)
      else
        case str_index crlf (drop pos payload) of
          None \<Rightarrow> Inr (Stop pos)
        | Some crlfPos \<Rightarrow>
            go_bind (str_sub payload (int (pos + 1)) (int (pos + crlfPos))) (\<lambda>digits.
              case atoi digits of
                None \<Rightarrow> Inr (Stop pos)
              | Some argLen \<Rightarrow>
                  if argLen < 0 then Inr (Stop pos)
                  else
                    let pos' = pos + crlfPos + 2;
                        argEnd = wrap64 (int pos' + argLen)
                    in if argEnd > int (length payload) then Inr (Stop pos')
                       else go_bind (str_sub payload (int pos') argEnd) (\<lambda>arg.
                         Inr (Got arg (pos' + nat argLen + 2)))))"

text \<open>The loop \<open>for i := 0; i < numArgs && pos < len(payload); i++\<close>.\<close>

function resp_args ::
  "string \<Rightarrow> int \<Rightarrow> int \<Rightarrow> nat \<Rightarrow> string list \<Rightarrow> (string list \<times> nat) go"
where
  "resp_args payload i numArgs pos args =
     (if i < numArgs \<and> pos < length payload then
        (case resp_arg payload pos of
           Inl p \<Rightarrow> Inl p
         | Inr (Stop pos') \<Rightarrow> Inr (args, pos')
         | Inr (Got arg pos') \<Rightarrow> resp_args payload (i + 1) numArgs pos' (args @ [arg]))
      else Inr (args, pos))"
  by pat_completeness auto
termination
  by (relation "measure (\<lambda>(payload, i, numArgs, pos, args). nat (numArgs - i))") auto

declare resp_args.simps [simp del]

definition command_of_args :: "string list \<Rightarrow> redis_command" where
  "command_of_args args =
     (let cmd = empty_command;
          cmd = (if args \<noteq> [] then cmd\<lparr>rc_Command := to_upper (args ! 0)\<rparr> else cmd);
          cmd = (if 1 < length args then cmd\<lparr>rc_Key := args ! 1\<rparr> else cmd)
      in if 2 < length args then cmd\<lparr>rc_Args := drop 2 args\<rparr> else cmd)"

definition parseRESPArray :: "string \<Rightarrow> (redis_error + redis_command \<times> nat) go" where
  "parseRESPArray payload =
     (case str_index crlf payload of
        None \<Rightarrow> Inr (Inl RedisInvalidRESPFormat)
      | Some crlfPos \<Rightarrow>
          go_bind (str_sub payload 1 (int crlfPos)) (\<lambda>digits.
            case atoi digits of
              None \<Rightarrow> Inr (Inl RedisInvalidArrayLength)
            | Some numArgs \<Rightarrow>
                if numArgs \<le> 0 then Inr (Inl RedisInvalidArrayLength)
                else
                  go_bind (make_string_slice numArgs) (\<lambda>_.
                  go_bind (resp_args payload 0 numArgs (crlfPos + 2) []) (\<lambda>(args, pos).
                    Inr (Inr (command_of_args args, pos))))))"

definition parseRESPResponse :: "string \<Rightarrow> (redis_error + redis_command \<times> nat) go" where
  "parseRESPResponse payload =
     (case payload of
        [] \<Rightarrow> Inl IndexOutOfRange
      | first # _ \<Rightarrow>
          let crlfPos = (case str_index crlf payload of None \<Rightarrow> length payload | Some i \<Rightarrow> i);
              cmd = empty_command\<lparr>rc_IsResponse := True, rc_Command := [first]\<rparr>;
              cmd = (if 1 < crlfPos then cmd\<lparr>rc_Key := take (crlfPos - 1) (drop 1 payload)\<rparr> else cmd);
              pos = crlfPos + 2
          in if first = CHR ''$'' \<and> rc_Key cmd \<noteq> ''-1'' then
               (case atoi (rc_Key cmd) of
                  None \<Rightarrow> Inr (Inr (cmd, pos))
                | Some bulkLen \<Rightarrow>
                    if 0 < bulkLen \<and> wrap64 (int pos + bulkLen) \<le> int (length payload) then
                      go_bind (str_sub payload (int pos) (wrap64 (int pos + bulkLen))) (\<lambda>arg.
                        Inr (Inr (cmd\<lparr>rc_Args := [arg]\<rparr>, pos + nat bulkLen + 2)))
                    else Inr (Inr (cmd, pos)))
             else Inr (Inr (cmd, pos)))"

definition parseInlineCommand :: "string \<Rightarrow> (redis_error + redis_command \<times> nat) go" where
  "parseInlineCommand payload =
     (let newlinePos = (case str_index [CHR 0x0A] payload of None \<Rightarrow> length payload | Some i \<Rightarrow> i);
          line = trim_space (take newlinePos payload);
          parts = str_fields line;
          pos = newlinePos;
          pos = (if pos < length payload \<and> payload ! pos = CHR 0x0A then pos + 1 else pos)
      in Inr (Inr (command_of_args parts, pos)))"

definition parseSingle :: "string \<Rightarrow> (redis_error + redis_command \<times> nat) go" where
  "parseSingle payload =
     (case payload of
        [] \<Rightarrow> Inr (Inl RedisEmptyPayload)
      | c # _ \<Rightarrow>
          if c = CHR ''*'' then parseRESPArray payload
          else if c = CHR ''+'' \<or> c = CHR ''-'' \<or> c = CHR '':'' \<or> c = CHR ''$''
               then parseRESPResponse payload
          else if CHR ''A'' \<le> c \<and> c \<le> CHR ''Z'' then parseInlineCommand payload
          else Inr (Inl RedisInvalidPayload))"

section \<open>Progress: every parsed command consumes input\<close>

lemma str_index_pos:
  "str_index [c] (d # s) = Some i \<Longrightarrow> c \<noteq> d \<Longrightarrow> 0 < i"
  by (auto split: if_splits)

lemma resp_arg_pos:
  "resp_arg payload pos = Inr (Stop p) \<Longrightarrow> pos \<le> p"
  "resp_arg payload pos = Inr (Got a p) \<Longrightarrow> pos + 2 \<le> p"
  by (simp_all add: resp_arg_def Let_def go_bind_def split: if_splits option.splits sum.splits)

lemma resp_args_stop:
  "\<not> (i < n \<and> pos < length payload) \<Longrightarrow> resp_args payload i n pos args = Inr (args, pos)"
  "i < n \<Longrightarrow> pos < length payload \<Longrightarrow> resp_arg payload pos = Inr (Stop p) \<Longrightarrow>
   resp_args payload i n pos args = Inr (args, p)"
  "i < n \<Longrightarrow> pos < length payload \<Longrightarrow> resp_arg payload pos = Inl e \<Longrightarrow>
   resp_args payload i n pos args = Inl e"
  by (simp_all only: resp_args.simps [of payload i n pos args]) auto

lemma resp_args_got:
  "i < n \<Longrightarrow> pos < length payload \<Longrightarrow> resp_arg payload pos = Inr (Got a p) \<Longrightarrow>
   resp_args payload i n pos args = resp_args payload (i + 1) n p (args @ [a])"
  by (subst resp_args.simps) simp

lemma resp_args_pos: "resp_args payload i n pos args = Inr (as, p) \<Longrightarrow> pos \<le> p"
proof (induction payload i n pos args arbitrary: as p rule: resp_args.induct)
  case (1 payload i n pos args)
  show ?case
  proof (cases "i < n \<and> pos < length payload")
    case False
    with "1.prems" show ?thesis by (simp add: resp_args_stop(1))
  next
    case True
    then have lt: "i < n" "pos < length payload" by simp_all
    show ?thesis
    proof (cases "resp_arg payload pos")
      case (Inl e)
      with "1.prems" lt show ?thesis by (simp add: resp_args_stop(3))
    next
      case (Inr st)
      show ?thesis
      proof (cases st)
        case (Stop q)
        with "1.prems" Inr lt show ?thesis
          by (auto simp: resp_args_stop(2) dest: resp_arg_pos)
      next
        case (Got a q)
        with Inr have got: "resp_arg payload pos = Inr (Got a q)" by simp
        with "1.prems" lt have "resp_args payload (i + 1) n q (args @ [a]) = Inr (as, p)"
          by (simp add: resp_args_got)
        with "1.IH" True Inr Got have "q \<le> p" by blast
        with resp_arg_pos(2) [OF got] show ?thesis by simp
      qed
    qed
  qed
qed

lemma parseRESPArray_pos: "parseRESPArray payload = Inr (Inr (c, n)) \<Longrightarrow> 0 < n"
  by (auto simp: parseRESPArray_def go_bind_eq_Inr dest!: resp_args_pos
      split: option.splits if_splits prod.splits)

lemma parseRESPResponse_pos: "parseRESPResponse payload = Inr (Inr (c, n)) \<Longrightarrow> 0 < n"
  by (auto simp: parseRESPResponse_def Let_def go_bind_eq_Inr
      split: list.splits option.splits if_splits)

lemma parseInlineCommand_pos:
  "parseInlineCommand (d # s) = Inr (Inr (c, n)) \<Longrightarrow> d \<noteq> CHR 0x0A \<Longrightarrow> 0 < n"
  by (auto simp: parseInlineCommand_def Let_def dest: str_index_pos split: option.splits if_splits)

lemma parseSingle_pos: "parseSingle payload = Inr (Inr (c, n)) \<Longrightarrow> 0 < n"
  by (auto simp: parseSingle_def dest: parseRESPArray_pos parseRESPResponse_pos
      parseInlineCommand_pos split: list.splits if_splits)

section \<open>ParseMultiple and Parse\<close>

text \<open>
  \<open>for pos < len(payload)\<close>: an error after the first command ends the loop with the
  commands so far. The function terminates because every command consumes a byte.
\<close>

function redis_loop ::
  "string \<Rightarrow> nat \<Rightarrow> redis_command list \<Rightarrow> (redis_error + redis_command list) go"
where
  "redis_loop payload pos commands =
     (if pos < length payload then
        (case parseSingle (drop pos payload) of
           Inl p \<Rightarrow> Inl p
         | Inr (Inl e) \<Rightarrow> if commands \<noteq> [] then Inr (Inr commands) else Inr (Inl e)
         | Inr (Inr (cmd, n)) \<Rightarrow> redis_loop payload (pos + n) (commands @ [cmd]))
      else Inr (Inr commands))"
  by pat_completeness auto
termination
proof (relation "measure (\<lambda>(payload, pos, commands). length payload - pos)", goal_cases)
  case 1
  show ?case by simp
next
  case (2 payload pos commands r cn cmd n)
  then have "0 < n" using parseSingle_pos [of "drop pos payload" cmd n] by simp
  with 2(1) show ?case by simp
qed

declare redis_loop.simps [simp del]

definition Redis_ParseMultiple :: "string \<Rightarrow> (redis_error + redis_command list) go" where
  "Redis_ParseMultiple payload = redis_loop payload 0 []"

definition redis_annotate :: "redis_command list \<Rightarrow> span \<Rightarrow> span" where
  "redis_annotate commands s =
     (let n = length commands;
          s = SetTag s ''redis_command_count'' (TagInt (int n))
      in if 1 < n then
           let s = s\<lparr>sp_Operation := ''PIPELINE ('' @ nat_dec n @ '' commands)''\<rparr>;
               s = SetTag s ''redis_pipeline'' (TagBool True);
               keys = filter (\<lambda>k. k \<noteq> '''') (map rc_Key commands)
           in if keys \<noteq> [] then SetTag s ''redis_keys'' (TagStr (str_join '','' keys)) else s
         else s)"

definition Redis_Parse :: "string \<Rightarrow> span \<Rightarrow> ((redis_error + redis_command) \<times> span) go" where
  "Redis_Parse payload s =
     go_bind (Redis_ParseMultiple payload) (\<lambda>r.
       case r of
         Inl e \<Rightarrow> Inr (Inl e, s)
       | Inr commands \<Rightarrow>
           if commands = [] then Inr (Inl RedisNoCommands, s)
           else Inr (Inr (commands ! 0), redis_annotate commands s))"

definition extractTraceIDFromRedis :: "string \<Rightarrow> string" where
  "extractTraceIDFromRedis payload =
     (case str_index ''TRACE_ID:'' payload of
        None \<Rightarrow> ''''
      | Some idx \<Rightarrow>
          if 0 < idx then
            takeWhile (\<lambda>c. c \<noteq> CHR '' '' \<and> c \<noteq> CHR 0x0D \<and> c \<noteq> CHR 0x0A)
              (drop (idx + length ''TRACE_ID:'') payload)
          else '''')"

lemma redis_loop_end: "length payload \<le> pos \<Longrightarrow> redis_loop payload pos cmds = Inr (Inr cmds)"
  by (subst redis_loop.simps) simp

lemma redis_loop_step:
  "pos < length payload \<Longrightarrow> parseSingle (drop pos payload) = Inr (Inr (cmd, n)) \<Longrightarrow>
   redis_loop payload pos cmds = redis_loop payload (pos + n) (cmds @ [cmd])"
  by (subst redis_loop.simps) simp

lemma redis_loop_panic:
  "pos < length payload \<Longrightarrow> parseSingle (drop pos payload) = Inl p \<Longrightarrow>
   redis_loop payload pos cmds = Inl p"
  by (subst redis_loop.simps) simp

lemma redis_loop_error:
  "pos < length payload \<Longrightarrow> parseSingle (drop pos payload) = Inr (Inl e) \<Longrightarrow>
   redis_loop payload pos cmds = (if cmds \<noteq> [] then Inr (Inr cmds) else Inr (Inl e))"
  by (subst redis_loop.simps) simp

lemma redis_loop_count:
  "redis_loop payload pos cmds = Inr (Inr rs) \<Longrightarrow>
   length rs \<le> length cmds + (length payload - pos)"
proof (induction payload pos cmds arbitrary: rs rule: redis_loop.induct)
  case (1 payload pos cmds)
  show ?case
  proof (cases "pos < length payload")
    case False
    with "1.prems" show ?thesis by (simp add: redis_loop_end)
  next
    case True
    show ?thesis
    proof (cases "parseSingle (drop pos payload)")
      case (Inl p)
      with "1.prems" True show ?thesis by (simp add: redis_loop_panic)
    next
      case (Inr r)
      show ?thesis
      proof (cases r)
        case (Inl e)
        with "1.prems" True Inr show ?thesis
          by (simp add: redis_loop_error split: if_splits)
      next
        case (Inr cn)
        obtain c n where cn: "cn = (c, n)" by (cases cn)
        with Inr \<open>parseSingle (drop pos payload) = Inr r\<close>
        have ps: "parseSingle (drop pos payload) = Inr (Inr (c, n))" by simp
        have "redis_loop payload (pos + n) (cmds @ [c]) = Inr (Inr rs)"
          using "1.prems" True ps by (simp add: redis_loop_step)
        from "1.IH" [OF True \<open>parseSingle (drop pos payload) = Inr r\<close> Inr cn [symmetric] this]
        have "length rs \<le> Suc (length cmds) + (length payload - (pos + n))" by simp
        with True parseSingle_pos [OF ps] show ?thesis by simp
      qed
    qed
  qed
qed

section \<open>RESP commands as a client writes them\<close>

definition resp_bulk :: "string \<Rightarrow> string" where
  "resp_bulk a = ''$'' @ nat_dec (length a) @ crlf @ a @ crlf"

definition resp_command :: "string list \<Rightarrow> string" where
  "resp_command args = ''*'' @ nat_dec (length args) @ crlf @ concat (map resp_bulk args)"

lemma resp_arg_bulk:
  assumes "payload = pre @ resp_bulk a @ rest" "int (length payload) \<le> max_int64"
  shows "resp_arg payload (length pre) = Inr (Got a (length pre + length (resp_bulk a)))"
proof -
  let ?d = "nat_dec (length a)" and ?pos = "length pre"
  let ?pos' = "?pos + Suc (length ?d) + 2"
  have idx: "str_index crlf (drop ?pos payload) = Some (Suc (length ?d))"
    using str_index_crlf [of "CHR ''$'' # ?d" "a @ crlf @ rest"] nat_dec_no_cr
    by (simp add: assms(1) resp_bulk_def)
  have len: "int (?pos' + length a) \<le> int (length payload)"
    by (simp add: assms(1) resp_bulk_def crlf_def)
  have digits: "str_sub payload (int (?pos + 1)) (int (?pos + Suc (length ?d))) = Inr ?d"
    by (rule str_sub_at [of _ "pre @ ''$''" _ "crlf @ a @ crlf @ rest"])
       (simp_all add: assms(1) resp_bulk_def)
  have "int (length a) \<le> max_int64" using len assms(2) by linarith
  then have at: "atoi ?d = Some (int (length a))" by (rule atoi_nat_dec)
  have wr: "wrap64 (int ?pos' + int (length a)) = int (?pos' + length a)"
    using len assms(2) by (subst wrap64_id) (simp_all add: min_int64_def)
  have arg: "str_sub payload (int ?pos') (int (?pos' + length a)) = Inr a"
    by (rule str_sub_at [of _ "pre @ ''$'' @ ?d @ crlf" _ "crlf @ rest"])
       (simp_all add: assms(1) resp_bulk_def crlf_def)
  have "payload ! ?pos = CHR ''$''"
    by (simp add: assms(1) resp_bulk_def nth_append)
  with idx digits at have "resp_arg payload ?pos =
      (if wrap64 (int ?pos' + int (length a)) > int (length payload) then Inr (Stop ?pos')
       else go_bind (str_sub payload (int ?pos') (wrap64 (int ?pos' + int (length a)))) (\<lambda>arg.
         Inr (Got arg (?pos' + length a + 2))))"
    by (simp add: resp_arg_def Let_def)
  with len wr arg show ?thesis by (simp add: resp_bulk_def crlf_def)
qed

lemma resp_args_bulks:
  assumes "payload = pre @ concat (map resp_bulk as) @ rest" "int (length payload) \<le> max_int64"
    and "n = i + int (length as)"
  shows "resp_args payload i n (length pre) acc =
     Inr (acc @ as, length pre + length (concat (map resp_bulk as)))"
  using assms
proof (induction as arbitrary: pre i acc)
  case Nil
  then show ?case by (simp add: resp_args_stop(1))
next
  case (Cons a as)
  from Cons.prems(1) have p: "payload = pre @ resp_bulk a @ (concat (map resp_bulk as) @ rest)"
    by simp
  have "length pre < length payload" by (simp add: p resp_bulk_def)
  moreover have "i < n" using Cons.prems(3) by simp
  moreover note resp_arg_bulk [OF p Cons.prems(2)]
  ultimately have "resp_args payload i n (length pre) acc =
      resp_args payload (i + 1) n (length (pre @ resp_bulk a)) (acc @ [a])"
    by (simp add: resp_args_got)
  also have "\<dots> = Inr ((acc @ [a]) @ as,
      length (pre @ resp_bulk a) + length (concat (map resp_bulk as)))"
    by (rule Cons.IH) (use Cons.prems in simp_all)
  finally show ?case by simp
qed

lemma parseSingle_resp_command:
  assumes "args \<noteq> []" "int (length (resp_command args @ rest)) \<le> 2 ^ 44"
  shows "parseSingle (resp_command args @ rest) =
     Inr (Inr (command_of_args args, length (resp_command args)))"
proof -
  let ?d = "nat_dec (length args)" and ?p = "resp_command args @ rest"
  let ?pre = "''*'' @ ?d @ crlf"
  have le: "length args \<le> length (concat (map resp_bulk args))"
    by (induction args) (auto simp: resp_bulk_def)
  then have small: "int (length args) \<le> 2 ^ 44"
    using assms(2) by (simp add: resp_command_def)
  have idx: "str_index crlf ?p = Some (Suc (length ?d))"
    using str_index_crlf [of "CHR ''*'' # ?d" "concat (map resp_bulk args) @ rest"] nat_dec_no_cr
    by (simp add: resp_command_def)
  have digits: "str_sub ?p 1 (int (Suc (length ?d))) = Inr ?d"
    by (rule str_sub_at [of _ "''*''" _ "crlf @ concat (map resp_bulk args) @ rest"])
       (simp_all add: resp_command_def)
  have at: "atoi ?d = Some (int (length args))"
    using small by (intro atoi_nat_dec) (simp add: max_int64_def)
  have mk: "make_string_slice (int (length args)) = Inr ()"
    using small by (simp add: make_string_slice_def)
  have "resp_args ?p 0 (int (length args)) (length ?pre) [] =
      Inr ([] @ args, length ?pre + length (concat (map resp_bulk args)))"
    by (rule resp_args_bulks) (use assms(2) in \<open>simp_all add: resp_command_def max_int64_def\<close>)
  then have "resp_args ?p 0 (int (length args)) (Suc (length ?d) + 2) [] =
      Inr (args, length (resp_command args))"
    by (simp add: resp_command_def crlf_def)
  moreover have "parseSingle ?p = parseRESPArray ?p"
    by (simp add: parseSingle_def resp_command_def)
  ultimately show ?thesis
    using assms(1) idx digits at mk by (simp add: parseRESPArray_def)
qed

lemma redis_loop_commands:
  assumes "payload = pre @ concat (map resp_command cs)" "int (length payload) \<le> 2 ^ 44"
    and "\<And>c. c \<in> set cs \<Longrightarrow> c \<noteq> []"
  shows "redis_loop payload (length pre) acc = Inr (Inr (acc @ map command_of_args cs))"
  using assms
proof (induction cs arbitrary: pre acc)
  case Nil
  then show ?case by (simp add: redis_loop_end)
next
  case (Cons c cs)
  let ?rest = "concat (map resp_command cs)"
  have d: "drop (length pre) payload = resp_command c @ ?rest" by (simp add: Cons.prems(1))
  then have "length (resp_command c @ ?rest) = length payload - length pre"
    by (metis length_drop)
  then have "int (length (resp_command c @ ?rest)) \<le> 2 ^ 44"
    using Cons.prems(2) by linarith
  then have "parseSingle (drop (length pre) payload) =
      Inr (Inr (command_of_args c, length (resp_command c)))"
    unfolding d by (rule parseSingle_resp_command [rotated]) (simp add: Cons.prems(3))
  moreover have "length pre < length payload" by (simp add: Cons.prems(1) resp_command_def)
  ultimately have "redis_loop payload (length pre) acc =
      redis_loop payload (length (pre @ resp_command c)) (acc @ [command_of_args c])"
    by (simp add: redis_loop_step)
  also have "\<dots> = Inr (Inr ((acc @ [command_of_args c]) @ map command_of_args cs))"
    by (rule Cons.IH) (use Cons.prems in simp_all)
  finally show ?case by simp
qed

lemma nat_dec_length: "length (nat_dec n) \<le> Suc n"
proof (induction n rule: nat_dec.induct)
  case (1 n)
  show ?case
  proof (cases "n < 10")
    case True
    then show ?thesis by (subst nat_dec.simps) simp
  next
    case False
    with 1 have "length (nat_dec (n div 10)) \<le> Suc (n div 10)" by simp
    with False show ?thesis by (subst nat_dec.simps) simp
  qed
qed

section \<open>Properties\<close>

text \<open>
  C5: A pipeline of RESP commands, whatever bytes the arguments hold (line breaks
  included), is split into exactly those commands in order, each with its name in upper
  case, its key and its remaining arguments.
\<close>

theorem redis_pipeline_roundtrip:
  assumes "\<forall>args\<in>set cs. args \<noteq> []"
    and "int (length (concat (map resp_command cs))) \<le> 2 ^ 44"
  shows "Redis_ParseMultiple (concat (map resp_command cs)) = Inr (Inr (map command_of_args cs))"
  using redis_loop_commands [of "concat (map resp_command cs)" "[]" cs "[]"] assms
  by (simp add: Redis_ParseMultiple_def)

theorem redis_pipeline_roundtrip_witness:
  "Redis_ParseMultiple (resp_command [''set'', ''k'', ''v''] @ resp_command [''get'', ''k'']) =
     Inr (Inr [\<lparr>rc_Command = ''SET'', rc_Key = ''k'', rc_Args = [''v''], rc_IsResponse = False\<rparr>,
               \<lparr>rc_Command = ''GET'', rc_Key = ''k'', rc_Args = [], rc_IsResponse = False\<rparr>])"
  using redis_pipeline_roundtrip [of "[[''set'', ''k'', ''v''], [''get'', ''k'']]"]
  by (simp add: resp_command_def resp_bulk_def crlf_def nat_dec.simps command_of_args_def Let_def
      empty_command_def to_upper_def upper_char_def less_eq_char_def char_of_def
      bit_0)

text \<open>
  The split comes to an end on every input with at most one command per byte: each
  command that \<open>parseSingle\<close> returns has consumed input.
\<close>

theorem redis_commands_bounded:
  assumes "Redis_ParseMultiple payload = Inr (Inr commands)"
  shows "length commands \<le> length payload"
  using redis_loop_count [of payload 0 "[]" commands] assms
  by (simp add: Redis_ParseMultiple_def)

theorem redis_commands_bounded_witness:
  "Redis_ParseMultiple [] = Inr (Inr []) \<and> length ([] :: redis_command list) \<le> length ''''"
  using redis_commands_bounded [of "[]" "[]"] by (simp add: Redis_ParseMultiple_def redis_loop_end)

text \<open>
  An argument length just below $2^{63}$ makes the bounds test
  \<open>pos+argLen > len(payload)\<close> overflow to a negative number and pass, and the slice that
  follows panics: a single captured packet stops the tracer.
\<close>

theorem redis_bulk_length_overflow:
  assumes "2 ^ 63 - 8 \<le> n" "n < 2 ^ 63"
  shows "Redis_ParseMultiple (''*1'' @ crlf @ ''$'' @ int_dec n @ crlf @ rest) = Inl SliceBounds"
proof -
  let ?d = "nat_dec (nat n)" and ?p = "''*1'' @ crlf @ ''$'' @ int_dec n @ crlf @ rest"
  have d: "int_dec n = ?d" using assms(1) by (simp add: int_dec_def)
  have idx1: "str_index crlf ?p = Some 2"
    using str_index_crlf [of "''*1''"] by simp
  have dig1: "str_sub ?p 1 (int 2) = Inr ''1''"
    by (rule str_sub_at [of _ "''*''" _ "crlf @ ''$'' @ int_dec n @ crlf @ rest"]) simp_all
  have "atoi ''1'' = Some 1"
    by (simp add: atoi_def is_digit_def digit_val_def less_eq_char_def min_int64_def max_int64_def)
  moreover have "resp_arg ?p 4 = Inl SliceBounds"
  proof -
    have drop: "drop 4 ?p = (CHR ''$'' # ?d) @ crlf @ rest" by (simp add: crlf_def d)
    have idx2: "str_index crlf (drop 4 ?p) = Some (Suc (length ?d))"
      unfolding drop by (subst str_index_crlf) (simp_all add: nat_dec_no_cr)
    have dig2: "str_sub ?p (int (4 + 1)) (int (4 + Suc (length ?d))) = Inr ?d"
      by (rule str_sub_at [of _ "''*1'' @ crlf @ ''$''" _ "crlf @ rest"]) (simp_all add: d crlf_def)
    have at: "atoi ?d = Some n"
      using atoi_nat_dec [of "nat n"] assms by (simp add: max_int64_def)
    let ?pos = "4 + Suc (length ?d) + 2"
    have "int (length ?d) \<le> int (Suc (nat n))"
      using nat_dec_length [of "nat n"] by (simp only: of_nat_le_iff)
    moreover have "1 \<le> length ?d" by (simp add: Suc_le_eq nat_dec_nonempty)
    ultimately have wr: "wrap64 (int ?pos + n) = int ?pos + n - 2 ^ 64"
      using assms by (intro wrap64_over) (simp_all add: max_int64_def)
    have neg: "int ?pos + n - 2 ^ 64 < int ?pos" using assms(2) by simp
    have small: "\<not> int ?pos + n - 2 ^ 64 > int (length ?p)"
      using assms(2) by (simp add: d crlf_def)
    have "?p ! 4 = CHR ''$''" by (simp add: crlf_def)
    with idx2 dig2 at assms(1) wr small neg show ?thesis
      by (simp add: resp_arg_def Let_def str_sub_def)
  qed
  moreover have "resp_args ?p 0 1 4 [] = Inl SliceBounds"
    by (rule resp_args_stop(3)) (use calculation in \<open>simp_all add: crlf_def\<close>)
  ultimately have "parseSingle ?p = Inl SliceBounds"
    using idx1 dig1 by (simp add: parseSingle_def parseRESPArray_def make_string_slice_def)
  then show ?thesis by (simp add: Redis_ParseMultiple_def redis_loop_panic)
qed

theorem redis_bulk_length_overflow_witness:
  "Redis_ParseMultiple (''*1'' @ crlf @ ''$'' @ int_dec (2 ^ 63 - 1) @ crlf @ ''PING'') = Inl SliceBounds"
  by (rule redis_bulk_length_overflow) simp_all

text \<open>
  An array header that announces more than $2^{44}$ elements panics in
  \<open>make([]string, 0, numArgs)\<close>, before a single argument is read.
\<close>

theorem redis_array_length_panics:
  assumes "2 ^ 44 < n" "n < 2 ^ 63"
  shows "Redis_ParseMultiple (''*'' @ int_dec n @ crlf @ rest) = Inl MakeSliceCap"
proof -
  let ?d = "nat_dec (nat n)" and ?p = "''*'' @ int_dec n @ crlf @ rest"
  have d: "int_dec n = ?d" using assms(1) by (simp add: int_dec_def)
  have idx: "str_index crlf ?p = Some (Suc (length ?d))"
    using str_index_crlf [of "CHR ''*'' # ?d" rest] nat_dec_no_cr by (simp add: d)
  have dig: "str_sub ?p 1 (int (Suc (length ?d))) = Inr ?d"
    by (rule str_sub_at [of _ "''*''" _ "crlf @ rest"]) (simp_all add: d)
  have at: "atoi ?d = Some n"
    using atoi_nat_dec [of "nat n"] assms by (simp add: max_int64_def)
  have "parseSingle ?p = Inl MakeSliceCap"
    using idx dig at assms by (simp add: parseSingle_def parseRESPArray_def make_string_slice_def)
  then show ?thesis by (simp add: Redis_ParseMultiple_def redis_loop_panic)
qed

theorem redis_array_length_panics_witness:
  "Redis_ParseMultiple (''*'' @ int_dec (2 ^ 50) @ crlf @ ''$3'') = Inl MakeSliceCap"
  by (rule redis_array_length_panics) simp_all

end
