(* ===== verification/Protocol_Parser.thy ===== *)
theory Protocol_Parser
  imports Envoy Grpc_Parser Redis_Parser
begin

text \<open>
  \<open>Parser.Parse\<close> of \<open>pkg/protocol/parser.go\<close>: the payload of the event is cut to its
  size, unwrapped if it is an Envoy frame, and given to the parser of the event's protocol,
  which writes what it finds into the span.
\<close>

record protocol_info =
  pi_HTTP :: "http_request option"
  pi_GRPC :: "grpc_message option"
  pi_Redis :: "redis_command option"
  pi_Envoy :: "envoy_message option"
  pi_Raw :: string

definition empty_info :: protocol_info where
  "empty_info = \<lparr>pi_HTTP = None, pi_GRPC = None, pi_Redis = None, pi_Envoy = None, pi_Raw = ''''\<rparr>"

definition truncateString :: "string \<Rightarrow> nat \<Rightarrow> string" where
  "truncateString s n = (if length s \<le> n then s else take n s @ ''...'')"

text \<open>The Envoy step: the message and the bytes that the next parser sees.\<close>

definition parse_envoy ::
  "protocol_info \<Rightarrow> string \<Rightarrow> span \<Rightarrow> protocol_info \<times> string \<times> span"
where
  "parse_envoy info payload s =
     (case Envoy_Parse payload (Some s) of
        (Inr msg, Some s') \<Rightarrow>
          let inner = ExtractInnerPayload payload in
          (info\<lparr>pi_Envoy := Some msg\<rparr>, if inner \<noteq> '''' then inner else payload, s')
      | _ \<Rightarrow> (info, payload, s))"

definition parse_http ::
  "protocol_info \<Rightarrow> string \<Rightarrow> span \<Rightarrow> protocol_info \<times> span"
where
  "parse_http info payload s =
     (case HTTP_Parse payload s of
        (Inr (HttpRequest req), s) \<Rightarrow>
          let s = (if sp_Path s = '''' then s\<lparr>sp_Path := hq_Path req\<rparr> else s)
          in (info\<lparr>pi_HTTP := Some req\<rparr>, s\<lparr>sp_Operation := hq_Method req @ '' '' @ hq_Path req\<rparr>)
      | (Inr (HttpResponse resp), s) \<Rightarrow>
          (info, s\<lparr>sp_ErrorCode := word_of_int (hr_StatusCode resp)\<rparr>)
      | (Inl e, s) \<Rightarrow> (info, s))"

definition parse_grpc ::
  "protocol_info \<Rightarrow> string \<Rightarrow> span \<Rightarrow> (protocol_info \<times> span) go"
where
  "parse_grpc info payload s =
     go_bind (GRPC_Parse payload s) (\<lambda>r.
       case r of
         (Inr msg, s) \<Rightarrow>
           Inr (info\<lparr>pi_GRPC := Some msg\<rparr>,
                s\<lparr>sp_Operation := gm_ServiceName msg @ ''/'' @ gm_MethodName msg,
                  sp_ErrorCode := gm_StatusCode msg\<rparr>)
       | (Inl e, s) \<Rightarrow> Inr (info, s))"

definition parse_redis ::
  "protocol_info \<Rightarrow> string \<Rightarrow> span \<Rightarrow> (protocol_info \<times> span) go"
where
  "parse_redis info payload s =
     go_bind (Redis_Parse payload s) (\<lambda>r.
       case r of
         (Inr cmd, s) \<Rightarrow>
           Inr (info\<lparr>pi_Redis := Some cmd\<rparr>,
                s\<lparr>sp_Operation := rc_Command cmd @ '' '' @ rc_Key cmd\<rparr>)
       | (Inl e, s) \<Rightarrow> Inr (info, s))"

text \<open>The switch on the protocol of the event.\<close>

definition parse_dispatch ::
  "u8 \<Rightarrow> protocol_info \<Rightarrow> string \<Rightarrow> span \<Rightarrow> (protocol_info \<times> span) go"
where
  "parse_dispatch proto info payload s =
     (if proto = ProtocolHTTP then
        (if HTTP_CanHandle payload then Inr (parse_http info payload s) else Inr (info, s))
      else if proto = ProtocolGRPC then
        (if GRPC_CanHandle payload then parse_grpc info payload s else Inr (info, s))
      else if proto = ProtocolRedis then
        (if Redis_CanHandle payload then parse_redis info payload s else Inr (info, s))
      else Inr (info, s))"

definition Parser_Parse :: "raw_event \<Rightarrow> span \<Rightarrow> (protocol_info option \<times> span) go" where
  "Parser_Parse event s =
     (if ev_PayloadSize event = 0 then Inr (None, s)
      else
        go_bind (sl_sub (sl_of (ev_Payload event)) 0 (uint (ev_PayloadSize event))) (\<lambda>payload.
          let port = (if ev_DPort event = 0 then ev_SPort event else ev_DPort event) in
          go_bind (Envoy_CanHandle port payload) (\<lambda>envoy.
            case (if envoy then parse_envoy empty_info (sl_bytes payload) s
                  else (empty_info, sl_bytes payload, s)) of
              (info, body, s) \<Rightarrow>
                go_bind (parse_dispatch (ev_Protocol event) info body s) (\<lambda>(info, s).
                  Inr (Some (info\<lparr>pi_Raw := truncateString body 512\<rparr>), s)))))"

section \<open>What parsing leaves alone\<close>

text \<open>
  \<open>span_core s\<close> are the fields of a span that identify its connection and its instant; no
  parser writes them.
\<close>

definition span_core ::
  "span \<Rightarrow> u32 \<times> string \<times> string \<times> u16 \<times> u16 \<times> gtime \<times> string \<times> addr list"
where
  "span_core s = (sp_PID s, sp_SourceIP s, sp_DestIP s, sp_SourcePort s, sp_DestPort s,
     sp_StartTime s, sp_Comm s, sp_Children s)"

lemma core_SetTag [simp]: "span_core (SetTag s k v) = span_core s"
  by (simp add: span_core_def)

lemma core_update [simp]:
  "span_core (s\<lparr>sp_TraceID := x\<rparr>) = span_core s" "span_core (s\<lparr>sp_SpanID := x\<rparr>) = span_core s"
  "span_core (s\<lparr>sp_ParentSpanID := x\<rparr>) = span_core s" "span_core (s\<lparr>sp_Operation := x\<rparr>) = span_core s"
  "span_core (s\<lparr>sp_ServiceName := x\<rparr>) = span_core s" "span_core (s\<lparr>sp_ErrorCode := e\<rparr>) = span_core s"
  "span_core (s\<lparr>sp_Path := x\<rparr>) = span_core s" "span_core (s\<lparr>sp_DurationMs := d\<rparr>) = span_core s"
  by (simp_all add: span_core_def)

lemma core_trace_header [simp]: "span_core (trace_header k v s) = span_core s"
  by (simp add: trace_header_def Let_def)

lemma core_http_headers [simp]: "span_core (snd (http_headers ls hs s)) = span_core s"
  by (induction ls arbitrary: hs s) (auto split: list.split)

lemma core_HTTP_Parse: "span_core (snd (HTTP_Parse payload s)) = span_core s"
  by (auto simp: HTTP_Parse_def split: list.splits option.splits prod.splits)
     (metis core_http_headers snd_conv)+

lemma core_parse_http: "span_core (snd (parse_http info payload s)) = span_core s"
  using core_HTTP_Parse [of payload s]
  by (auto simp: parse_http_def Let_def split: prod.splits sum.splits http_message.splits)

lemma core_grpc_headers [simp]: "span_core (snd (grpc_headers ls msg s)) = span_core s"
  by (induction ls msg s rule: grpc_headers.induct) (auto simp: Let_def split: list.splits)

lemma core_grpc_block: "grpc_header_block b m s = Inr (m', s') \<Longrightarrow> span_core s' = span_core s"
  by (auto simp: grpc_header_block_def Let_def go_bind_eq_Inr split: if_splits)
     (metis core_grpc_headers snd_conv)

lemma core_GRPC_Parse: "GRPC_Parse payload s = Inr (r, s') \<Longrightarrow> span_core s' = span_core s"
  by (auto simp: GRPC_Parse_def Let_def go_bind_eq_Inr split: if_splits prod.splits
      dest: core_grpc_block)

lemma core_redis_annotate [simp]: "span_core (redis_annotate cs s) = span_core s"
  by (simp add: redis_annotate_def Let_def)

lemma core_Redis_Parse: "Redis_Parse payload s = Inr (r, s') \<Longrightarrow> span_core s' = span_core s"
  by (cases "Redis_ParseMultiple payload"; cases "projr (Redis_ParseMultiple payload)")
     (auto simp: Redis_Parse_def split: if_split_asm)

lemma core_envoy_annotate [simp]: "span_core (envoy_annotate msg s) = span_core s"
  by (simp add: envoy_annotate_def Let_def)

lemma core_parse_envoy: "parse_envoy info payload s = (i, b, s') \<Longrightarrow> span_core s' = span_core s"
  by (auto simp: parse_envoy_def Envoy_Parse_def Let_def split: if_splits sum.splits)

lemma core_parse_grpc:
  assumes "parse_grpc info payload s = Inr (i, s')"
  shows "span_core s' = span_core s"
proof -
  from assms obtain r u where g: "GRPC_Parse payload s = Inr (r, u)"
    by (auto simp: parse_grpc_def go_bind_eq_Inr)
  with assms core_GRPC_Parse [OF g] show ?thesis
    by (cases r) (auto simp: parse_grpc_def span_core_def)
qed

lemma core_parse_redis:
  assumes "parse_redis info payload s = Inr (i, s')"
  shows "span_core s' = span_core s"
proof -
  from assms obtain r u where g: "Redis_Parse payload s = Inr (r, u)"
    by (auto simp: parse_redis_def go_bind_eq_Inr)
  with assms core_Redis_Parse [OF g] show ?thesis
    by (cases r) (auto simp: parse_redis_def)
qed

lemma core_dispatch: "parse_dispatch pr info payload s = Inr (i, s') \<Longrightarrow> span_core s' = span_core s"
  using core_parse_http [of info payload s]
  by (auto simp: parse_dispatch_def split: if_split_asm dest: core_parse_grpc core_parse_redis)

lemma Parser_Parse_core: "Parser_Parse event s = Inr (i, s') \<Longrightarrow> span_core s' = span_core s"
  by (auto simp: Parser_Parse_def go_bind_eq_Inr Let_def
      split: if_splits prod.splits dest!: core_dispatch dest: core_parse_envoy)

section \<open>Evaluating the dispatcher\<close>

text \<open>\<open>event_payload event p\<close>: the event carries the bytes \<open>p\<close>, which fit its array.\<close>

definition event_payload :: "raw_event \<Rightarrow> string \<Rightarrow> bool" where
  "event_payload event p \<longleftrightarrow>
     raw_wf event \<and> p \<noteq> [] \<and> length p \<le> 1024 \<and>
     ev_PayloadSize event = of_nat (length p) \<and> take (length p) (ev_Payload event) = p"

lemma payload_size:
  assumes "event_payload event p"
  shows "uint (ev_PayloadSize event) = int (length p)" "ev_PayloadSize event \<noteq> 0"
proof -
  from assms have s: "ev_PayloadSize event = word_of_nat (length p)" "length p \<le> 1024" "p \<noteq> []"
    by (simp_all add: event_payload_def)
  then have "length p mod 4294967296 = length p" by simp
  then have "unat (ev_PayloadSize event) = length p" unfolding s(1) unat_of_nat by simp
  then show u: "uint (ev_PayloadSize event) = int (length p)" by (simp only: uint_nat)
  show "ev_PayloadSize event \<noteq> 0" using u s(3) by auto
qed

lemma payload_slice:
  assumes "event_payload event p"
  shows "sl_sub (sl_of (ev_Payload event)) 0 (uint (ev_PayloadSize event)) =
     Inr \<lparr>sl_buf = ev_Payload event, sl_len = length p\<rparr>"
  unfolding payload_size(1) [OF assms]
  using assms by (simp add: sl_sub_def event_payload_def raw_wf_def)

lemma Parser_Parse_payload:
  assumes "event_payload event p"
  obtains envoy where
    "Envoy_CanHandle (if ev_DPort event = 0 then ev_SPort event else ev_DPort event)
       \<lparr>sl_buf = ev_Payload event, sl_len = length p\<rparr> = Inr envoy"
    "Parser_Parse event s =
     (case (if envoy then parse_envoy empty_info p s else (empty_info, p, s)) of
        (info, body, s) \<Rightarrow>
          go_bind (parse_dispatch (ev_Protocol event) info body s) (\<lambda>(info, s).
            Inr (Some (info\<lparr>pi_Raw := truncateString body 512\<rparr>), s)))"
proof -
  let ?sl = "\<lparr>sl_buf = ev_Payload event, sl_len = length p\<rparr>"
  from assms have "20 \<le> length (sl_buf ?sl)" by (simp add: event_payload_def raw_wf_def)
  then obtain envoy where e:
    "Envoy_CanHandle (if ev_DPort event = 0 then ev_SPort event else ev_DPort event) ?sl = Inr envoy"
    using Envoy_CanHandle_total by blast
  have "sl_bytes ?sl = p" using assms by (simp add: sl_bytes_def event_payload_def)
  with e that payload_slice [OF assms] payload_size(2) [OF assms] show thesis
    by (simp add: Parser_Parse_def Let_def)
qed

lemma parse_envoy_other:
  assumes "p ! 0 \<noteq> CHR ''E''"
  shows "parse_envoy info p s = (info, p, s)"
proof -
  have "be_uint32 (take 4 p) \<noteq> EnvoyMagic"
    using assms magic_first_byte [of "take 4 p"] by auto
  then show ?thesis
    by (simp add: parse_envoy_def Envoy_Parse_def parseHeader_def Let_def)
qed

text \<open>A payload that does not start with \<open>E\<close> goes straight to its protocol's parser.\<close>

lemma Parser_Parse_plain:
  assumes "event_payload event p" "p ! 0 \<noteq> CHR ''E''"
  shows "Parser_Parse event s =
     go_bind (parse_dispatch (ev_Protocol event) empty_info p s) (\<lambda>(info, s).
       Inr (Some (info\<lparr>pi_Raw := truncateString p 512\<rparr>), s))"
proof -
  from assms(1) obtain envoy where "Parser_Parse event s =
     (case (if envoy then parse_envoy empty_info p s else (empty_info, p, s)) of
        (info, body, s) \<Rightarrow>
          go_bind (parse_dispatch (ev_Protocol event) info body s) (\<lambda>(info, s).
            Inr (Some (info\<lparr>pi_Raw := truncateString body 512\<rparr>), s)))"
    by (rule Parser_Parse_payload)
  then show ?thesis by (simp add: parse_envoy_other [OF assms(2)])
qed

lemma HTTP_CanHandle_method:
  assumes "m \<in> set http_methods"
  shows "HTTP_CanHandle (m @ CHR '' '' # s) \<and> (m @ CHR '' '' # s) ! 0 \<noteq> CHR ''E''"
proof -
  have "list_all (\<lambda>m. HTTP_CanHandle (m @ CHR '' '' # s) \<and> (m @ CHR '' '' # s) ! 0 \<noteq> CHR ''E'')
    http_methods"
    by (simp add: http_methods_def HTTP_CanHandle_def)
  with assms show ?thesis by (simp add: list_all_iff)
qed

lemma HTTP_Parse_request:
  assumes "m \<in> set http_methods" "path \<noteq> []" "list_all (\<lambda>c. \<not> re_space c) path"
    and "http_version_ok v" "list_all header_ok kvs"
  shows "HTTP_Parse (http_text (request_line m path v) kvs body) s =
     (Inr (HttpRequest \<lparr>hq_Method = m, hq_Path = path, hq_Version = v,
                        hq_Headers = map_of (rev kvs), hq_Body = body\<rparr>),
      fold (\<lambda>kv. trace_header (fst kv) (snd kv)) kvs s)"
proof -
  have "request_line m path v \<noteq> []" by (simp add: request_line_def)
  with assms show ?thesis
    by (simp add: HTTP_Parse_text request_line_no_cr matchRequest_line Let_def)
qed

lemma trace_header_Path: "sp_Path (fold (\<lambda>kv. trace_header (fst kv) (snd kv)) kvs s) = sp_Path s"
  by (induction kvs arbitrary: s) (simp_all add: trace_header_def Let_def)

lemma convert_Path [simp]: "sp_Path (ConvertRawEventToSpan raw r1 r2) = ev_Path raw"
  by (simp add: ConvertRawEventToSpan_def Let_def)

lemma Redis_Parse_commands:
  assumes "cs \<noteq> []" "\<forall>c\<in>set cs. c \<noteq> []" "length (concat (map resp_command cs)) \<le> 1024"
  shows "Redis_Parse (concat (map resp_command cs)) s =
     Inr (Inr (command_of_args (hd cs)), redis_annotate (map command_of_args cs) s)"
proof -
  have "Redis_ParseMultiple (concat (map resp_command cs)) = Inr (Inr (map command_of_args cs))"
    using redis_loop_commands [of "concat (map resp_command cs)" "[]" cs "[]"] assms
    by (simp add: Redis_ParseMultiple_def)
  with assms(1) show ?thesis
    by (simp add: Redis_Parse_def hd_conv_nth)
qed

lemma redis_count_tag:
  "tag (redis_annotate cmds s) ''redis_command_count'' = Some (TagInt (int (length cmds)))"
  by (simp add: redis_annotate_def Let_def tag_def SetTag_def)

text \<open>An event of a given protocol that carries given bytes.\<close>

definition event_with :: "u8 \<Rightarrow> string \<Rightarrow> raw_event" where
  "event_with proto p =
     zero_event\<lparr>ev_Protocol := proto, ev_PayloadSize := of_nat (length p),
                ev_Payload := p @ replicate (1024 - length p) NUL\<rparr>"

lemma event_with_payload: "p \<noteq> [] \<Longrightarrow> length p \<le> 1024 \<Longrightarrow> event_payload (event_with proto p) p"
  by (simp add: event_payload_def event_with_def raw_wf_def zero_event_def)

lemma event_with_Protocol [simp]: "ev_Protocol (event_with proto p) = proto"
  by (simp add: event_with_def)

section \<open>Properties\<close>

text \<open>The two halves: a size beyond the array panics, a size within it gives a result.\<close>

lemma long_payload_panics:
  assumes "raw_wf event" "1024 < uint (ev_PayloadSize event)"
  shows "Parser_Parse event s = Inl SliceBounds"
proof -
  have "ev_PayloadSize event \<noteq> 0" using assms(2) by auto
  with assms show ?thesis by (auto simp: Parser_Parse_def sl_sub_def raw_wf_def)
qed

lemma short_payload_parses:
  assumes "raw_wf event" "ev_Protocol event \<noteq> ProtocolRedis" "\<not> 1024 < uint (ev_PayloadSize event)"
  shows "\<exists>r. Parser_Parse event s = Inr r"
proof (cases "ev_PayloadSize event = 0")
  case True
  then show ?thesis by (simp add: Parser_Parse_def)
next
  case False
  let ?p = "take (unat (ev_PayloadSize event)) (ev_Payload event)"
  have le: "unat (ev_PayloadSize event) \<le> 1024"
    using assms(3) unfolding uint_nat by linarith
  then have len: "length ?p = unat (ev_PayloadSize event)"
    using assms(1) by (simp add: raw_wf_def)
  have "?p \<noteq> []"
    using False len by (metis length_0_conv unat_eq_0)
  with le len assms(1) have "event_payload event ?p"
    unfolding event_payload_def len by simp
  then obtain envoy where parse: "Parser_Parse event s =
     (case (if envoy then parse_envoy empty_info ?p s else (empty_info, ?p, s)) of
        (info, body, s) \<Rightarrow>
          go_bind (parse_dispatch (ev_Protocol event) info body s) (\<lambda>(info, s).
            Inr (Some (info\<lparr>pi_Raw := truncateString body 512\<rparr>), s)))"
    by (rule Parser_Parse_payload)
  obtain info body u where b:
    "(if envoy then parse_envoy empty_info ?p s else (empty_info, ?p, s)) = (info, body, u)"
    by (metis prod_cases3)
  have "length body \<le> length ?p"
    using b by (auto simp: parse_envoy_def ExtractInnerPayload_def Let_def split: if_splits sum.splits
        prod.splits option.splits)
  also have "\<dots> \<le> 1024" using len le by simp
  finally have "length body < 2 ^ 32" by simp
  then have "\<exists>r. parse_dispatch (ev_Protocol event) info body u = Inr r"
    using assms(2) GRPC_Parse_total [of body u]
    by (auto simp: parse_dispatch_def parse_grpc_def split: sum.split prod.split)
  then show ?thesis by (auto simp: parse b)
qed



text \<open>
  C26: An HTTP request captured by the kernel ends up in its span: the operation is method
  and path, the trace id is the one of the \<open>X-Trace-ID\<close> header (the NUL-filled id of the
  kernel otherwise). The path of the request never reaches the span's \<open>Path\<close>: that field
  holds the 256 bytes of the event and is never empty.
\<close>

theorem http_event_to_span:
  assumes "event_payload event (http_text (request_line m path v) kvs body)"
    and "ev_Protocol event = ProtocolHTTP"
    and "m \<in> set http_methods" "path \<noteq> []" "list_all (\<lambda>c. \<not> re_space c) path"
    and "http_version_ok v" "list_all header_ok kvs"
  shows "\<exists>info s'. Parser_Parse event (ConvertRawEventToSpan event rt rs) = Inr (Some info, s') \<and>
     pi_HTTP info = Some \<lparr>hq_Method = m, hq_Path = path, hq_Version = v,
                          hq_Headers = map_of (rev kvs), hq_Body = body\<rparr> \<and>
     sp_Operation s' = m @ '' '' @ path \<and> sp_Path s' = ev_Path event \<and>
     sp_TraceID s' = (case filter (\<lambda>kv. to_lower (fst kv) = ''x-trace-id'') (rev kvs) of
                        [] \<Rightarrow> ev_TraceID event | kv # _ \<Rightarrow> snd kv)"
proof -
  let ?p = "http_text (request_line m path v) kvs body"
  let ?s = "fold (\<lambda>kv. trace_header (fst kv) (snd kv)) kvs (ConvertRawEventToSpan event rt rs)"
  let ?req = "\<lparr>hq_Method = m, hq_Path = path, hq_Version = v,
               hq_Headers = map_of (rev kvs), hq_Body = body\<rparr>"
  have p: "HTTP_CanHandle ?p" "?p ! 0 \<noteq> CHR ''E''"
    using HTTP_CanHandle_method [OF assms(3)] by (simp_all add: http_text_def request_line_def)
  have wf: "raw_wf event" using assms(1) by (simp add: event_payload_def)
  then have "sp_Path ?s = ev_Path event" "ev_Path event \<noteq> []"
    by (auto simp: trace_header_Path raw_wf_def)
  then have "parse_http empty_info ?p (ConvertRawEventToSpan event rt rs) =
      (empty_info\<lparr>pi_HTTP := Some ?req\<rparr>, ?s\<lparr>sp_Operation := m @ '' '' @ path\<rparr>)"
    by (simp add: parse_http_def HTTP_Parse_request [OF assms(3-7)])
  then have "Parser_Parse event (ConvertRawEventToSpan event rt rs) =
      Inr (Some (empty_info\<lparr>pi_HTTP := Some ?req, pi_Raw := truncateString ?p 512\<rparr>),
           ?s\<lparr>sp_Operation := m @ '' '' @ path\<rparr>)"
    by (simp add: Parser_Parse_plain [OF assms(1) p(2)] parse_dispatch_def assms(2) p(1))
  then show ?thesis
    using wf by (simp add: fold_trace_headers trace_header_Path cong: list.case_cong)
qed

theorem http_event_to_span_witness:
  "\<exists>info s'. Parser_Parse
       (event_with ProtocolHTTP (http_text (request_line ''GET'' ''/users'' ''1.1'') [] ''''))
       (ConvertRawEventToSpan
         (event_with ProtocolHTTP (http_text (request_line ''GET'' ''/users'' ''1.1'') [] '''')) '''' '''') =
       Inr (Some info, s') \<and> sp_Operation s' = ''GET /users''"
proof -
  let ?p = "http_text (request_line ''GET'' ''/users'' ''1.1'') [] ''''"
  have v: "http_version_ok ''1.1''"
    unfolding http_version_ok_def
    by (rule exI [of _ "''1''"], rule exI [of _ "''1''"]) (simp add: is_digit_def less_eq_char_def)
  have "event_payload (event_with ProtocolHTTP ?p) ?p"
    by (rule event_with_payload) (simp_all add: http_text_def request_line_def crlf_def)
  from http_event_to_span [OF this _ _ _ _ v, of "''''" "''''"] show ?thesis
    by (auto simp: http_methods_def re_space_def)
qed

text \<open>
  A Redis event that carries a pipeline of commands gives a span whose operation names
  the first command and its key, and whose \<open>redis_command_count\<close> tag counts all of them:
  the label \<open>PIPELINE (n commands)\<close> that the Redis parser writes is always overwritten.
\<close>

theorem redis_event_to_span:
  assumes "event_payload event (concat (map resp_command cs))"
    and "ev_Protocol event = ProtocolRedis" "cs \<noteq> []" "\<forall>c\<in>set cs. c \<noteq> []"
  shows "\<exists>info s'. Parser_Parse event s = Inr (Some info, s') \<and>
     pi_Redis info = Some (command_of_args (hd cs)) \<and>
     sp_Operation s' = rc_Command (command_of_args (hd cs)) @ '' '' @ rc_Key (command_of_args (hd cs)) \<and>
     tag s' ''redis_command_count'' = Some (TagInt (int (length cs)))"
proof -
  let ?p = "concat (map resp_command cs)"
  have p: "Redis_CanHandle ?p" "?p ! 0 \<noteq> CHR ''E''"
    using assms(3) by (cases cs; simp add: resp_command_def Redis_CanHandle_def)+
  have "length ?p \<le> 1024" using assms(1) by (simp add: event_payload_def)
  note parse = Redis_Parse_commands [OF assms(3,4) this]
  show ?thesis
    by (simp add: Parser_Parse_plain [OF assms(1) p(2)] parse_dispatch_def assms(2) p(1)
        protocol_defs parse_redis_def parse, simp add: tag_def)
       (use redis_count_tag [of "map command_of_args cs" s] in \<open>simp add: tag_def\<close>)
qed

theorem redis_event_to_span_witness:
  "\<exists>info s'. Parser_Parse
       (event_with ProtocolRedis (concat (map resp_command [[''GET'', ''k''], [''GET'', ''l'']])))
       (ConvertRawEventToSpan zero_event '''' '''') = Inr (Some info, s') \<and>
     tag s' ''redis_command_count'' = Some (TagInt 2)"
proof -
  let ?p = "concat (map resp_command [[''GET'', ''k''], [''GET'', ''l'']])"
  have "event_payload (event_with ProtocolRedis ?p) ?p"
    by (rule event_with_payload) (simp_all add: resp_command_def resp_bulk_def crlf_def nat_dec.simps)
  from redis_event_to_span [OF this, of "ConvertRawEventToSpan zero_event '''' ''''"] show ?thesis
    by auto
qed

text \<open>
  C27: A well-formed Envoy frame is unwrapped: parsing the event is parsing the bytes inside
  the frame with the parser of the event's protocol, on the span that already carries the
  tags of the Envoy header.
\<close>

theorem envoy_event_unwrapped:
  assumes "event_payload event (envoy_frame (hdr, body))" "envoy_frame_ok (hdr, body)"
    and "eh_Version hdr \<le> 2" "eh_Type hdr \<le> 5" "body \<noteq> []"
  shows "Parser_Parse event s =
     (let msg = envoy_message_of (envoy_frame (hdr, body)) (hdr\<lparr>eh_Checksum := frame_checksum body\<rparr>) in
      go_bind (parse_dispatch (ev_Protocol event) (empty_info\<lparr>pi_Envoy := Some msg\<rparr>) body
                 (envoy_annotate msg s)) (\<lambda>(info, s').
        Inr (Some (info\<lparr>pi_Raw := truncateString body 512\<rparr>), s')))"
proof -
  let ?p = "envoy_frame (hdr, body)"
  let ?msg = "envoy_message_of ?p (hdr\<lparr>eh_Checksum := frame_checksum body\<rparr>)"
  from Parser_Parse_payload [OF assms(1), of s] obtain envoy where
    e: "Envoy_CanHandle (if ev_DPort event = 0 then ev_SPort event else ev_DPort event)
         \<lparr>sl_buf = ev_Payload event, sl_len = length ?p\<rparr> = Inr envoy"
    and parse: "Parser_Parse event s =
     (case (if envoy then parse_envoy empty_info ?p s else (empty_info, ?p, s)) of
        (info, body, s) \<Rightarrow>
          go_bind (parse_dispatch (ev_Protocol event) info body s) (\<lambda>(info, s).
            Inr (Some (info\<lparr>pi_Raw := truncateString body 512\<rparr>), s)))" .
  have bytes: "sl_bytes \<lparr>sl_buf = ev_Payload event, sl_len = length ?p\<rparr> = ?p"
    using assms(1) by (simp add: sl_bytes_def event_payload_def)
  have "envoy"
    using e envoy_frame_CanHandle [OF assms(2-4)] bytes
    by (auto simp: Envoy_CanHandle_def length_envoy_frame EnvoyHeaderLen_def Let_def split: if_splits)
  moreover have "parse_envoy empty_info ?p s = (empty_info\<lparr>pi_Envoy := Some ?msg\<rparr>, body, envoy_annotate ?msg s)"
    using parseHeader_frame [OF assms(2), of "[]"] assms(5) frame_length_unat [OF assms(2)]
    by (simp add: parse_envoy_def Envoy_Parse_def ExtractInnerPayload_def Let_def
        length_envoy_frame envoy_frame_body)
  ultimately show ?thesis by (simp add: parse Let_def)
qed

theorem envoy_event_unwrapped_witness:
  "Parser_Parse (event_with ProtocolHTTP (envoy_frame demo_frame))
        (ConvertRawEventToSpan zero_event '''' '''') =
     (let msg = envoy_message_of (envoy_frame demo_frame)
                  ((fst demo_frame)\<lparr>eh_Checksum := frame_checksum (snd demo_frame)\<rparr>) in
      go_bind (parse_dispatch ProtocolHTTP (empty_info\<lparr>pi_Envoy := Some msg\<rparr>) ''GET /''
                 (envoy_annotate msg (ConvertRawEventToSpan zero_event '''' ''''))) (\<lambda>(info, s').
        Inr (Some (info\<lparr>pi_Raw := ''GET /''\<rparr>), s')))"
proof -
  obtain hdr where d: "demo_frame = (hdr, ''GET /'')" "eh_Version hdr \<le> 2" "eh_Type hdr \<le> 5"
    by (simp add: demo_frame_def EnvoyTypeData_def)
  have "event_payload (event_with ProtocolHTTP (envoy_frame demo_frame)) (envoy_frame (hdr, ''GET /''))"
    unfolding d by (rule event_with_payload) (simp_all add: envoy_frame_def)
  from envoy_event_unwrapped [OF this _ d(2,3)] demo_frame_ok show ?thesis
    by (simp add: d truncateString_def)
qed

end
