(* ===== verification/Sha256.thy ===== *)
theory Sha256
  imports Go_Strings
begin

text \<open>
  \<open>crypto/sha256.Sum256\<close> of Go's standard library (FIPS 180-4), which the correlator uses to
  derive a trace id: padding, message schedule and compression on 32-bit words.
\<close>

definition sha_K :: "u32 list" where
  "sha_K =
     [1116352408, 1899447441, 3049323471, 3921009573, 961987163, 1508970993, 2453635748, 2870763221,
      3624381080, 310598401, 607225278, 1426881987, 1925078388, 2162078206, 2614888103, 3248222580,
      3835390401, 4022224774, 264347078, 604807628, 770255983, 1249150122, 1555081692, 1996064986,
      2554220882, 2821834349, 2952996808, 3210313671, 3336571891, 3584528711, 113926993, 338241895,
      666307205, 773529912, 1294757372, 1396182291, 1695183700, 1986661051, 2177026350, 2456956037,
      2730485921, 2820302411, 3259730800, 3345764771, 3516065817, 3600352804, 4094571909, 275423344,
      430227734, 506948616, 659060556, 883997877, 958139571, 1322822218, 1537002063, 1747873779,
      1955562222, 2024104815, 2227730452, 2361852424, 2428436474, 2756734187, 3204031479, 3329325298]"

definition sha_H0 :: "u32 list" where
  "sha_H0 = [1779033703, 3144134277, 1013904242, 2773480762, 1359893119, 2600822924, 528734635, 1541459225]"

definition rotr :: "nat \<Rightarrow> u32 \<Rightarrow> u32" where
  "rotr n w = (drop_bit n w) OR (push_bit (32 - n) w)"

definition big_s0 :: "u32 \<Rightarrow> u32" where "big_s0 x = rotr 2 x XOR rotr 13 x XOR rotr 22 x"
definition big_s1 :: "u32 \<Rightarrow> u32" where "big_s1 x = rotr 6 x XOR rotr 11 x XOR rotr 25 x"
definition small_s0 :: "u32 \<Rightarrow> u32" where "small_s0 x = rotr 7 x XOR rotr 18 x XOR drop_bit 3 x"
definition small_s1 :: "u32 \<Rightarrow> u32" where "small_s1 x = rotr 17 x XOR rotr 19 x XOR drop_bit 10 x"

definition sha_ch :: "u32 \<Rightarrow> u32 \<Rightarrow> u32 \<Rightarrow> u32" where
  "sha_ch x y z = (x AND y) XOR (NOT x AND z)"

definition sha_maj :: "u32 \<Rightarrow> u32 \<Rightarrow> u32 \<Rightarrow> u32" where
  "sha_maj x y z = (x AND y) XOR (x AND z) XOR (y AND z)"

text \<open>The message: a 1 bit, zeros up to 56 modulo 64 bytes, the length in bits.\<close>

definition sha_pad :: "string \<Rightarrow> string" where
  "sha_pad s =
     s @ [CHR 0x80] @ replicate ((119 - length s mod 64) mod 64) CHR 0x00 @
     be_bytes64 (of_nat (8 * length s))"

fun sha_blocks :: "nat \<Rightarrow> string \<Rightarrow> string list" where
  "sha_blocks 0 s = []"
| "sha_blocks (Suc n) s = take 64 s # sha_blocks n (drop 64 s)"

definition block_words :: "string \<Rightarrow> u32 list" where
  "block_words b = map (\<lambda>i. be_uint32 (take 4 (drop (4 * i) b))) [0..<16]"

fun schedule :: "nat \<Rightarrow> u32 list \<Rightarrow> u32 list" where
  "schedule 0 ws = ws"
| "schedule (Suc n) ws =
     (let t = length ws in
      schedule n (ws @ [small_s1 (ws ! (t - 2)) + ws ! (t - 7) + small_s0 (ws ! (t - 15)) + ws ! (t - 16)]))"

definition sha_round :: "u32 \<Rightarrow> u32 \<Rightarrow> u32 list \<Rightarrow> u32 list" where
  "sha_round k w st =
     (case st of
        [a, b, c, d, e, f, g, h] \<Rightarrow>
          let t1 = h + big_s1 e + sha_ch e f g + k + w;
              t2 = big_s0 a + sha_maj a b c
          in [t1 + t2, a, b, c, d + t1, e, f, g]
      | _ \<Rightarrow> st)"

definition sha_block :: "string \<Rightarrow> u32 list \<Rightarrow> u32 list" where
  "sha_block b st =
     map2 (+) st (fold (\<lambda>(k, w). sha_round k w) (zip sha_K (schedule 48 (block_words b))) st)"

definition sha256 :: "string \<Rightarrow> string" where
  "sha256 s =
     (let p = sha_pad s in
      concat (map be_bytes32 (fold sha_block (sha_blocks (length p div 64) p) sha_H0)))"

lemma length_sha_round [simp]: "length (sha_round k w st) = length st"
  by (auto simp: sha_round_def Let_def split: list.split)

lemma length_sha_rounds [simp]: "length (fold (\<lambda>(k, w). sha_round k w) kws st) = length st"
  by (induction kws arbitrary: st) (auto simp: case_prod_beta)

lemma length_sha_block [simp]: "length (sha_block b st) = length st"
  by (simp add: sha_block_def)

lemma length_sha_state: "length (fold sha_block bs st) = length st"
  by (induction bs arbitrary: st) auto

text \<open>The digest has 32 bytes.\<close>

lemma length_sha256 [simp]: "length (sha256 s) = 32"
proof -
  have "length (concat (map be_bytes32 ws)) = 4 * length ws" for ws
    by (induction ws) simp_all
  then show ?thesis by (simp add: sha256_def Let_def length_sha_state sha_H0_def)
qed

end
