(* ===== verification/Correlator.thy ===== *)
theory Correlator
  imports Protocol_Parser Sha256 Go_Chan
begin

text \<open>
  \<open>pkg/trace/correlator.go\<close>: the connections with their queues of unanswered requests,
  the pending spans, and the handling of the five kinds of events. Spans are shared between
  the in-flight queues, the pending list and the span handler through pointers, so they live
  at addresses of \<open>co_heap\<close>; \<open>co_next\<close> is the next fresh address. The flows are only
  reachable through the connection table, so a flow is a value of the table that each
  operation writes back. The span handler is an observer: \<open>co_log\<close> lists its calls, each
  with the span it was shown. The readings of the clock and the random bytes are the arguments
  \<open>clock\<close> and \<open>rnd\<close>, numbered in the order of the code. One event is processed at a
  time: interleavings of \<open>ProcessEvent\<close> calls are not modelled.
\<close>

section \<open>State\<close>

record pending_request =
  pr_Span :: addr
  pr_RawEvent :: raw_event
  pr_ProtocolInfo :: "protocol_info option"
  pr_Timestamp :: gtime

record inflight_request =
  iq_span :: addr
  iq_event :: raw_event
  iq_protoInfo :: "protocol_info option"
  iq_sendTime :: gtime
  iq_seq :: u64

record connection_flow =
  cf_PID :: u32
  cf_SourceIP :: string
  cf_DestIP :: string
  cf_SourcePort :: u16
  cf_DestPort :: u16
  cf_LastSend :: gtime
  cf_LastRecv :: gtime
  cf_inflightReqs :: "inflight_request list"
  cf_seqCounter :: u64

record correlator_stats =
  cs_TotalEvents :: u64
  cs_ProcessedSpans :: u64
  cs_DroppedEvents :: u64
  cs_InflightRequests :: u64
  cs_ActiveConnections :: u64

record correlator =
  co_pendingRequests :: "pending_request list"
  co_connections :: "string \<rightharpoonup> connection_flow"
  co_timeout :: gduration
  co_maxInflight :: int
  co_spanHandler :: bool
  co_stats :: correlator_stats
  co_heap :: heap
  co_next :: addr
  co_log :: "(addr \<times> span) list"

definition zero_correlator_stats :: correlator_stats where
  "zero_correlator_stats = \<lparr>cs_TotalEvents = 0, cs_ProcessedSpans = 0, cs_DroppedEvents = 0,
     cs_InflightRequests = 0, cs_ActiveConnections = 0\<rparr>"

definition NewCorrelator :: correlator where
  "NewCorrelator = \<lparr>co_pendingRequests = [], co_connections = Map.empty,
     co_timeout = 30 * second, co_maxInflight = 1000, co_spanHandler = False,
     co_stats = zero_correlator_stats, co_heap = Map.empty, co_next = 0, co_log = []\<rparr>"

definition SetSpanHandler :: "correlator \<Rightarrow> correlator" where
  "SetSpanHandler c = c\<lparr>co_spanHandler := True\<rparr>"

definition Correlator_GetStats :: "correlator \<Rightarrow> correlator_stats" where
  "Correlator_GetStats c = co_stats c"

section \<open>Pure helpers\<close>

definition nat_text :: "'a::len word \<Rightarrow> string" where
  "nat_text w = nat_dec (unat w)"

definition connection_text :: "u32 \<Rightarrow> string \<Rightarrow> u16 \<Rightarrow> string \<Rightarrow> u16 \<Rightarrow> string" where
  "connection_text pid ip1 port1 ip2 port2 =
     nat_text pid @ '':'' @ ip1 @ '':'' @ nat_text port1 @ '':'' @ ip2 @ '':'' @ nat_text port2"

definition getConnectionKey :: "u32 \<Rightarrow> string \<Rightarrow> string \<Rightarrow> u16 \<Rightarrow> u16 \<Rightarrow> string" where
  "getConnectionKey pid srcIP dstIP srcPort dstPort =
     (if dstIP < srcIP \<or> srcIP = dstIP \<and> dstPort < srcPort
      then connection_text pid dstIP dstPort srcIP srcPort
      else connection_text pid srcIP srcPort dstIP dstPort)"

definition span_key_of :: "span \<Rightarrow> string" where
  "span_key_of s =
     getConnectionKey (sp_PID s) (sp_SourceIP s) (sp_DestIP s) (sp_SourcePort s) (sp_DestPort s)"

definition isRequestPayload :: "raw_event \<Rightarrow> bool" where
  "isRequestPayload event =
     (if ev_PayloadSize event < 4 then False
      else
        let p = ev_Payload event in
        (p ! 0 = CHR ''G'' \<and> p ! 1 = CHR ''E'' \<and> p ! 2 = CHR ''T'') \<or>
        (p ! 0 = CHR ''P'' \<and> p ! 1 = CHR ''O'' \<and> p ! 2 = CHR ''S'' \<and> p ! 3 = CHR ''T'') \<or>
        (p ! 0 = CHR ''P'' \<and> p ! 1 = CHR ''U'' \<and> p ! 2 = CHR ''T'') \<or>
        (p ! 0 = CHR ''D'' \<and> p ! 1 = CHR ''E'' \<and> p ! 2 = CHR ''L'' \<and> p ! 3 = CHR ''E'') \<or>
        (ev_Protocol event = ProtocolRedis \<and> p ! 0 = CHR ''*'') \<or>
        (ev_Protocol event = ProtocolGRPC \<and> p ! 0 = CHR 0x00))"

definition isResponsePayload :: "raw_event \<Rightarrow> bool" where
  "isResponsePayload event =
     (if ev_PayloadSize event < 4 then False
      else
        let p = ev_Payload event in
        (p ! 0 = CHR ''H'' \<and> p ! 1 = CHR ''T'' \<and> p ! 2 = CHR ''T'' \<and> p ! 3 = CHR ''P'') \<or>
        (ev_Protocol event = ProtocolRedis \<and>
          (p ! 0 = CHR ''+'' \<or> p ! 0 = CHR ''-'' \<or> p ! 0 = CHR '':'' \<or> p ! 0 = CHR ''$'')) \<or>
        (ev_Protocol event = ProtocolGRPC \<and> p ! 0 = CHR 0x01))"

definition generateDeterministicTraceID :: "span \<Rightarrow> string" where
  "generateDeterministicTraceID s =
     hex_encode (take 16 (sha256
       (nat_text (sp_PID s) @ '':'' @ sp_SourceIP s @ '':'' @ nat_text (sp_SourcePort s) @ '':'' @
        sp_DestIP s @ '':'' @ nat_text (sp_DestPort s) @ '':'' @ int_dec (sp_StartTime s) @ '':'' @
        sp_Comm s)))"

section \<open>Primitive effects\<close>

definition span_at :: "correlator \<Rightarrow> addr \<Rightarrow> span" where
  "span_at c a = the (co_heap c a)"

definition upd_span :: "addr \<Rightarrow> (span \<Rightarrow> span) \<Rightarrow> correlator \<Rightarrow> correlator" where
  "upd_span a f c = c\<lparr>co_heap := (co_heap c)(a := map_option f (co_heap c a))\<rparr>"

definition alloc_span :: "span \<Rightarrow> correlator \<Rightarrow> correlator" where
  "alloc_span s c = c\<lparr>co_heap := (co_heap c)(co_next c \<mapsto> s), co_next := Suc (co_next c)\<rparr>"

definition put_flow :: "string \<Rightarrow> connection_flow \<Rightarrow> correlator \<Rightarrow> correlator" where
  "put_flow key flow c = c\<lparr>co_connections := (co_connections c)(key \<mapsto> flow)\<rparr>"

definition call_handler :: "addr \<Rightarrow> correlator \<Rightarrow> correlator" where
  "call_handler a c = c\<lparr>co_log := co_log c @ [(a, span_at c a)]\<rparr>"

text \<open>\<open>atomic.AddUint64\<close> on the counters.\<close>

definition add_total :: "u64 \<Rightarrow> correlator \<Rightarrow> correlator" where
  "add_total n c = c\<lparr>co_stats := (co_stats c)\<lparr>cs_TotalEvents := cs_TotalEvents (co_stats c) + n\<rparr>\<rparr>"

definition add_processed :: "u64 \<Rightarrow> correlator \<Rightarrow> correlator" where
  "add_processed n c =
     c\<lparr>co_stats := (co_stats c)\<lparr>cs_ProcessedSpans := cs_ProcessedSpans (co_stats c) + n\<rparr>\<rparr>"

definition add_dropped :: "u64 \<Rightarrow> correlator \<Rightarrow> correlator" where
  "add_dropped n c =
     c\<lparr>co_stats := (co_stats c)\<lparr>cs_DroppedEvents := cs_DroppedEvents (co_stats c) + n\<rparr>\<rparr>"

definition add_inflight :: "u64 \<Rightarrow> correlator \<Rightarrow> correlator" where
  "add_inflight n c =
     c\<lparr>co_stats := (co_stats c)\<lparr>cs_InflightRequests := cs_InflightRequests (co_stats c) + n\<rparr>\<rparr>"

definition add_active :: "u64 \<Rightarrow> correlator \<Rightarrow> correlator" where
  "add_active n c =
     c\<lparr>co_stats := (co_stats c)\<lparr>cs_ActiveConnections := cs_ActiveConnections (co_stats c) + n\<rparr>\<rparr>"

lemmas effect_defs [go_unfold] =
  upd_span_def alloc_span_def put_flow_def call_handler_def add_total_def add_processed_def
  add_dropped_def add_inflight_def add_active_def

text \<open>\<open>if c.spanHandler != nil { c.spanHandler(s); ProcessedSpans++ }\<close>\<close>

definition report :: "addr \<Rightarrow> correlator \<Rightarrow> correlator" where
  "report a c = (if co_spanHandler c then add_processed 1 (call_handler a c) else c)"

section \<open>Connections\<close>

definition new_flow :: "span \<Rightarrow> connection_flow" where
  "new_flow s = \<lparr>cf_PID = sp_PID s, cf_SourceIP = sp_SourceIP s, cf_DestIP = sp_DestIP s,
     cf_SourcePort = sp_SourcePort s, cf_DestPort = sp_DestPort s, cf_LastSend = zero_time,
     cf_LastRecv = zero_time, cf_inflightReqs = [], cf_seqCounter = 0\<rparr>"

definition handleConnect :: "addr \<Rightarrow> correlator \<Rightarrow> correlator" where
  "handleConnect a c =
     (let s = span_at c a;
          c = put_flow (span_key_of s) (new_flow s) c
      in add_active 1 c)"

definition handleAccept :: "addr \<Rightarrow> correlator \<Rightarrow> correlator" where
  "handleAccept a c =
     (let s = span_at c a;
          c = put_flow (span_key_of s) (new_flow s) c
      in add_active 1 c)"

definition getOrCreateFlow ::
  "addr \<Rightarrow> string \<Rightarrow> correlator \<Rightarrow> connection_flow \<times> correlator"
where
  "getOrCreateFlow a connKey c =
     (case co_connections c connKey of
        Some flow \<Rightarrow> (flow, c)
      | None \<Rightarrow>
          let flow = new_flow (span_at c a)
          in (flow, add_active 1 (put_flow connKey flow c)))"

section \<open>Requests\<close>

text \<open>A span without a trace id gets one derived from its connection and start time.\<close>

definition assign_ids :: "string \<Rightarrow> addr \<Rightarrow> correlator \<Rightarrow> correlator" where
  "assign_ids rnd a c =
     (if sp_TraceID (span_at c a) = '''' then
        upd_span a (\<lambda>s. s\<lparr>sp_TraceID := generateDeterministicTraceID s,
                          sp_SpanID := GenerateSpanID rnd\<rparr>) c
      else c)"

text \<open>The in-flight queue is full: its oldest request leaves it, is counted and reported.\<close>

definition drop_oldest :: "connection_flow \<Rightarrow> correlator \<Rightarrow> connection_flow \<times> correlator" where
  "drop_oldest flow c =
     (if co_maxInflight c \<le> int (length (cf_inflightReqs flow)) then
        (case cf_inflightReqs flow of
           [] \<Rightarrow> (flow, c)
         | req # rest \<Rightarrow>
             (flow\<lparr>cf_inflightReqs := rest\<rparr>, report (iq_span req) (add_dropped 1 c)))
      else (flow, c))"

definition handleSend ::
  "(nat \<Rightarrow> gtime) \<Rightarrow> (nat \<Rightarrow> string) \<Rightarrow> addr \<Rightarrow> raw_event \<Rightarrow> string \<Rightarrow> protocol_info option \<Rightarrow>
   correlator \<Rightarrow> correlator"
where
  "handleSend clock rnd a event connKey protoInfo c =
     (let (flow, c) = getOrCreateFlow a connKey c;
          flow = flow\<lparr>cf_LastSend := clock 0\<rparr>;
          c = put_flow connKey flow c
      in if isRequestPayload event then
           let c = assign_ids (rnd 2) a c;
               (flow, c) = drop_oldest flow c;
               seq = cf_seqCounter flow + 1;
               req = \<lparr>iq_span = a, iq_event = event, iq_protoInfo = protoInfo,
                      iq_sendTime = clock 1, iq_seq = seq\<rparr>;
               flow = flow\<lparr>cf_seqCounter := seq, cf_inflightReqs := cf_inflightReqs flow @ [req]\<rparr>;
               c = put_flow connKey flow c;
               c = add_inflight 1 c
           in upd_span a (\<lambda>s. SetTag s ''request_seq'' (TagU64 seq)) c
         else c)"

section \<open>Responses\<close>

text \<open>
  \<open>link_response now rnd a req\<close>: the span at \<open>a\<close> becomes a child of the request's span
  and both get the time since the request was sent as their duration.
\<close>

definition link_response ::
  "gtime \<Rightarrow> string \<Rightarrow> addr \<Rightarrow> inflight_request \<Rightarrow> correlator \<Rightarrow> correlator"
where
  "link_response now rnd a req c =
     (let r = span_at c (iq_span req);
          c = upd_span a (\<lambda>s. s\<lparr>sp_ParentSpanID := sp_SpanID r, sp_TraceID := sp_TraceID r,
                                sp_SpanID := GenerateSpanID rnd\<rparr>) c;
          duration = f_div (f_of_int (time_sub now (iq_sendTime req))) (Fin (10 ^ 6));
          c = upd_span a (\<lambda>s. s\<lparr>sp_DurationMs := duration\<rparr>) c
      in upd_span (iq_span req) (\<lambda>s. s\<lparr>sp_DurationMs := duration\<rparr>) c)"

definition report_pair :: "addr \<Rightarrow> addr \<Rightarrow> correlator \<Rightarrow> correlator" where
  "report_pair req a c =
     (if co_spanHandler c then add_processed 2 (call_handler a (call_handler req c)) else c)"

definition handleRecv ::
  "(nat \<Rightarrow> gtime) \<Rightarrow> (nat \<Rightarrow> string) \<Rightarrow> addr \<Rightarrow> raw_event \<Rightarrow> string \<Rightarrow> correlator \<Rightarrow> correlator"
where
  "handleRecv clock rnd a event connKey c =
     (let (flow, c) = getOrCreateFlow a connKey c;
          flow = flow\<lparr>cf_LastRecv := clock 0\<rparr>;
          c = put_flow connKey flow c
      in if isResponsePayload event then
           (case cf_inflightReqs flow of
              req # rest \<Rightarrow>
                let c = put_flow connKey (flow\<lparr>cf_inflightReqs := rest\<rparr>) c;
                    c = link_response (clock 1) (rnd 2) a req c;
                    c = upd_span a (\<lambda>s. SetTag s ''request_seq'' (TagU64 (iq_seq req))) c;
                    c = upd_span (iq_span req) (\<lambda>s. SetTag s ''response_seq'' (TagU64 (iq_seq req))) c;
                    c = add_inflight (NOT 0) c;
                    c = report_pair (iq_span req) a c
                in upd_span a (\<lambda>s. SetTag s ''matched'' (TagBool True)) c
            | [] \<Rightarrow>
                upd_span a (\<lambda>s. SetTag s ''orphan_response'' (TagBool True)) (assign_ids (rnd 2) a c))
         else c)"

section \<open>Closing\<close>

text \<open>The unanswered requests of a closed connection are tagged and reported, oldest first.\<close>

definition close_request :: "inflight_request \<Rightarrow> correlator \<Rightarrow> correlator" where
  "close_request req c =
     (if co_spanHandler c then
        add_processed 1 (call_handler (iq_span req)
          (upd_span (iq_span req) (\<lambda>s. SetTag s ''connection_closed'' (TagBool True)) c))
      else c)"

definition handleClose :: "string \<Rightarrow> correlator \<Rightarrow> correlator" where
  "handleClose connKey c =
     (case co_connections c connKey of
        None \<Rightarrow> c
      | Some flow \<Rightarrow>
          let inflightCount = length (cf_inflightReqs flow);
              c = fold close_request (cf_inflightReqs flow) c;
              c = add_inflight (NOT (of_nat inflightCount - 1)) c;
              c = add_active (NOT 0) c
          in c\<lparr>co_connections := (co_connections c)(connKey := None)\<rparr>)"

section \<open>Processing an event\<close>

text \<open>The first pending entry of the span at \<open>a\<close> is removed.\<close>

fun remove_pending :: "addr \<Rightarrow> pending_request list \<Rightarrow> pending_request list" where
  "remove_pending a [] = []"
| "remove_pending a (r # rs) = (if pr_Span r = a then rs else r # remove_pending a rs)"

definition removeFromPending :: "addr \<Rightarrow> correlator \<Rightarrow> correlator" where
  "removeFromPending a c = c\<lparr>co_pendingRequests := remove_pending a (co_pendingRequests c)\<rparr>"

definition tryCorrelate ::
  "gtime \<Rightarrow> string \<Rightarrow> addr \<Rightarrow> raw_event \<Rightarrow> string \<Rightarrow> correlator \<Rightarrow> correlator"
where
  "tryCorrelate now rnd a event connKey c =
     (let (flow, c) = getOrCreateFlow a connKey c
      in if ev_EventType event = EventTypeRecvFrom then
           (case cf_inflightReqs flow of
              req # rest \<Rightarrow>
                let c = put_flow connKey (flow\<lparr>cf_inflightReqs := rest\<rparr>) c;
                    c = link_response now rnd a req c;
                    c = add_inflight (NOT 0) c;
                    c = report_pair (iq_span req) a c
                in removeFromPending a (removeFromPending (iq_span req) c)
            | [] \<Rightarrow> c)
         else c)"

definition handle_event ::
  "(nat \<Rightarrow> gtime) \<Rightarrow> (nat \<Rightarrow> string) \<Rightarrow> addr \<Rightarrow> raw_event \<Rightarrow> string \<Rightarrow> protocol_info option \<Rightarrow>
   correlator \<Rightarrow> correlator"
where
  "handle_event clock rnd a event connKey protoInfo c =
     (if ev_EventType event = EventTypeConnect then handleConnect a c
      else if ev_EventType event = EventTypeAccept then handleAccept a c
      else if ev_EventType event = EventTypeSendTo then handleSend clock rnd a event connKey protoInfo c
      else if ev_EventType event = EventTypeRecvFrom then handleRecv clock rnd a event connKey c
      else if ev_EventType event = EventTypeClose then handleClose connKey c
      else c)"

text \<open>What happens to the span itself after the handler of its event.\<close>

definition finish_event ::
  "(nat \<Rightarrow> gtime) \<Rightarrow> (nat \<Rightarrow> string) \<Rightarrow> addr \<Rightarrow> raw_event \<Rightarrow> string \<Rightarrow> correlator \<Rightarrow> correlator"
where
  "finish_event clock rnd a event connKey c =
     (if sp_TraceID (span_at c a) \<noteq> '''' \<and> co_spanHandler c then
        add_processed 1 (call_handler a c)
      else if sp_TraceID (span_at c a) = '''' then
        tryCorrelate (clock 3) (rnd 3) a event connKey
          (c\<lparr>co_pendingRequests := co_pendingRequests c @
              [\<lparr>pr_Span = a, pr_RawEvent = event, pr_ProtocolInfo = None, pr_Timestamp = clock 2\<rparr>]\<rparr>)
      else c)"

definition ProcessEvent ::
  "(nat \<Rightarrow> gtime) \<Rightarrow> (nat \<Rightarrow> string) \<Rightarrow> raw_event \<Rightarrow> correlator \<Rightarrow> correlator go"
where
  "ProcessEvent clock rnd event c =
     (let c = add_total 1 c
      in go_bind (Parser_Parse event (ConvertRawEventToSpan event (rnd 0) (rnd 1))) (\<lambda>(protoInfo, s).
           let a = co_next c;
               connKey = span_key_of s
           in Inr (finish_event clock rnd a event connKey
                (handle_event clock rnd a event connKey protoInfo (alloc_span s c)))))"

section \<open>Cleaning up\<close>

text \<open>
  One pass over the pending list and one over the table. Go does not fix the order in which
  a map is traversed: \<open>keys\<close> is the order of this pass. \<open>rnd a\<close> are the random bytes
  drawn for the span at \<open>a\<close>.
\<close>

definition expire_span :: "(addr \<Rightarrow> string) \<Rightarrow> addr \<Rightarrow> correlator \<Rightarrow> correlator" where
  "expire_span rnd a c =
     report a (upd_span a (\<lambda>s. SetTag s ''timeout'' (TagBool True)) (assign_ids (rnd a) a c))"

fun expire_pending ::
  "gtime \<Rightarrow> (addr \<Rightarrow> string) \<Rightarrow> pending_request list \<Rightarrow> correlator \<Rightarrow> pending_request list \<times> correlator"
where
  "expire_pending now rnd [] c = ([], c)"
| "expire_pending now rnd (r # rs) c =
     (if co_timeout c < time_sub now (pr_Timestamp r) then
        expire_pending now rnd rs (expire_span rnd (pr_Span r) c)
      else
        let (rest, c) = expire_pending now rnd rs c in (r # rest, c))"

definition flow_expired :: "gtime \<Rightarrow> gduration \<Rightarrow> connection_flow \<Rightarrow> bool" where
  "flow_expired now timeout flow \<longleftrightarrow>
     timeout < time_sub now (cf_LastSend flow) \<and> timeout < time_sub now (cf_LastRecv flow)"

definition timeout_request :: "inflight_request \<Rightarrow> correlator \<Rightarrow> correlator" where
  "timeout_request req c =
     report (iq_span req)
       (upd_span (iq_span req) (\<lambda>s. SetTag s ''connection_timeout'' (TagBool True)) c)"

definition expire_flow :: "gtime \<Rightarrow> string \<Rightarrow> correlator \<Rightarrow> correlator" where
  "expire_flow now key c =
     (case co_connections c key of
        None \<Rightarrow> c
      | Some flow \<Rightarrow>
          if flow_expired now (co_timeout c) flow then
            let c = fold timeout_request (cf_inflightReqs flow) c;
                c = add_inflight (NOT (of_nat (length (cf_inflightReqs flow)) - 1)) c;
                c = add_active (NOT 0) c
            in c\<lparr>co_connections := (co_connections c)(key := None)\<rparr>
          else c)"

definition cleanupExpired ::
  "gtime \<Rightarrow> (addr \<Rightarrow> string) \<Rightarrow> string list \<Rightarrow> correlator \<Rightarrow> correlator"
where
  "cleanupExpired now rnd keys c =
     (let (rest, c) = expire_pending now rnd (co_pendingRequests c) c;
          c = c\<lparr>co_pendingRequests := rest\<rparr>
      in fold (expire_flow now) keys c)"

section \<open>The connection key\<close>

text \<open>
  The table is keyed by the unordered pair of the endpoints. \<open>endpoint_key\<close> is what the
  correlation relies on: both directions of a connection have one key, and different
  connections have different ones.
\<close>

locale endpoint_key =
  fixes key :: "u32 \<Rightarrow> string \<Rightarrow> string \<Rightarrow> u16 \<Rightarrow> u16 \<Rightarrow> 'k"
    and address :: "string \<Rightarrow> bool"
  assumes mirror: "key pid b a q p = key pid a b p q"
    and separates: "address a \<Longrightarrow> address b \<Longrightarrow> address a' \<Longrightarrow> address b' \<Longrightarrow>
      key pid a b p q = key pid' a' b' p' q' \<Longrightarrow>
      pid = pid' \<and> ((a, p, b, q) = (a', p', b', q') \<or> (a, p, b, q) = (b', q', a', p'))"
begin

lemma same_connection:
  assumes "address a" "address b" "address a'" "address b'"
  shows "key pid a b p q = key pid' a' b' p' q' \<longleftrightarrow>
     pid = pid' \<and> ((a, p) = (a', p') \<and> (b, q) = (b', q') \<or> (a, p) = (b', q') \<and> (b, q) = (a', p'))"
proof
  assume "key pid a b p q = key pid' a' b' p' q'"
  from separates [OF assms this]
  show "pid = pid' \<and> ((a, p) = (a', p') \<and> (b, q) = (b', q') \<or> (a, p) = (b', q') \<and> (b, q) = (a', p'))"
    by (elim conjE disjE) simp_all
qed (elim conjE disjE, simp_all add: mirror)

end

lemma nat_text_no_colon: "CHR '':'' \<notin> set (nat_text w)"
proof -
  have "\<not> is_digit (CHR '':'')" by (simp add: is_digit_def less_eq_char_def)
  with nat_dec_digits [of "unat w"] show ?thesis
    unfolding nat_text_def by (metis list_all_iff)
qed

lemma nat_text_inject [simp]: "nat_text v = nat_text w \<longleftrightarrow> v = w"
  by (simp add: nat_text_def word_unat_eq_iff [symmetric])

lemma connection_text_inject:
  assumes "CHR '':'' \<notin> set a" "CHR '':'' \<notin> set b" "CHR '':'' \<notin> set a'" "CHR '':'' \<notin> set b'"
  shows "connection_text pid a p b q = connection_text pid' a' p' b' q' \<longleftrightarrow>
     pid = pid' \<and> a = a' \<and> p = p' \<and> b = b' \<and> q = q'"
proof -
  have split: "x @ '':'' @ y = x' @ '':'' @ y' \<longleftrightarrow> x = x' \<and> y = y'"
    if "CHR '':'' \<notin> set x" "CHR '':'' \<notin> set x'" for x x' y y' :: string
  proof
    assume eq: "x @ '':'' @ y = x' @ '':'' @ y'"
    from arg_cong [OF eq, of "takeWhile (\<lambda>c. c \<noteq> CHR '':'')"] that have "x = x'"
      by (subst (asm) (1 2) takeWhile_append2) auto
    with eq show "x = x' \<and> y = y'" by simp
  qed simp
  show ?thesis
    unfolding connection_text_def
    by (simp only: split [OF nat_text_no_colon nat_text_no_colon] split [OF assms(1,3)]
        split [OF assms(2,4)] nat_text_inject)
qed

interpretation conn: endpoint_key getConnectionKey "\<lambda>ip. CHR '':'' \<notin> set ip"
proof unfold_locales
  show "getConnectionKey pid b a q p = getConnectionKey pid a b p q" for pid a b p q
    by (auto simp: getConnectionKey_def)
next
  fix a b a' b' :: string and pid pid' p q p' q'
  assume "CHR '':'' \<notin> set a" "CHR '':'' \<notin> set b" "CHR '':'' \<notin> set a'" "CHR '':'' \<notin> set b'"
    and "getConnectionKey pid a b p q = getConnectionKey pid' a' b' p' q'"
  then show "pid = pid' \<and> ((a, p, b, q) = (a', p', b', q') \<or> (a, p, b, q) = (b', q', a', p'))"
    by (auto simp: getConnectionKey_def connection_text_inject split: if_split_asm)
qed

lemma intToIP_no_colon: "CHR '':'' \<notin> set (intToIP ip)"
proof -
  have "CHR '':'' \<notin> set (byte_dec w)" for w
    using nat_text_no_colon [of "ucast w :: u8"] by (simp add: byte_dec_def nat_text_def)
  then show ?thesis by (simp add: intToIP_def)
qed

text \<open>The key of an event: parsing does not change what the key is computed from.\<close>

definition event_key :: "raw_event \<Rightarrow> string" where
  "event_key event =
     getConnectionKey (ev_PID event) (intToIP (ev_SAddr event)) (intToIP (ev_DAddr event))
       (ntohs (ev_SPort event)) (ntohs (ev_DPort event))"

lemma span_key_of_core: "span_core s = span_core t \<Longrightarrow> span_key_of s = span_key_of t"
  by (simp add: span_core_def span_key_of_def)

lemma span_key_converted: "span_key_of (ConvertRawEventToSpan event r r') = event_key event"
  by (simp add: span_key_of_def event_key_def ConvertRawEventToSpan_def Let_def)

lemma span_key_parsed:
  "Parser_Parse event (ConvertRawEventToSpan event r r') = Inr (i, s) \<Longrightarrow>
   span_key_of s = event_key event"
  using span_key_of_core [OF Parser_Parse_core] span_key_converted by metis

section \<open>What every operation keeps\<close>

text \<open>
  \<open>extends c c'\<close>: the settings and the set of allocated spans are those of \<open>c\<close>, a span
  with a trace id still has one, and the handler's log has only grown.
\<close>

definition has_id :: "correlator \<Rightarrow> addr \<Rightarrow> bool" where
  "has_id c a \<longleftrightarrow> (\<exists>s. co_heap c a = Some s \<and> sp_TraceID s \<noteq> '''')"

definition extends :: "correlator \<Rightarrow> correlator \<Rightarrow> bool" where
  "extends c c' \<longleftrightarrow>
     co_maxInflight c' = co_maxInflight c \<and> co_timeout c' = co_timeout c \<and>
     co_spanHandler c' = co_spanHandler c \<and> co_next c' = co_next c \<and>
     dom (co_heap c') = dom (co_heap c) \<and> (\<forall>a. has_id c a \<longrightarrow> has_id c' a) \<and>
     (\<exists>l. co_log c' = co_log c @ l)"

lemma extends_refl [simp]: "extends c c"
  by (simp add: extends_def)

lemma extends_trans [trans]: "extends a b \<Longrightarrow> extends b c \<Longrightarrow> extends a c"
  by (auto simp: extends_def)

lemma extends_settings:
  "extends c c' \<Longrightarrow> co_maxInflight c' = co_maxInflight c"
  "extends c c' \<Longrightarrow> co_timeout c' = co_timeout c"
  "extends c c' \<Longrightarrow> co_spanHandler c' = co_spanHandler c"
  "extends c c' \<Longrightarrow> co_next c' = co_next c"
  "extends c c' \<Longrightarrow> dom (co_heap c') = dom (co_heap c)"
  "extends c c' \<Longrightarrow> has_id c a \<Longrightarrow> has_id c' a"
  by (auto simp: extends_def)

lemma extends_effects:
  "extends c (put_flow key flow c)" "extends c (call_handler a c)" "extends c (add_processed n c)"
  "extends c (add_dropped n c)" "extends c (add_inflight n c)" "extends c (add_active n c)"
  "extends c (c\<lparr>co_connections := m\<rparr>)" "extends c (c\<lparr>co_pendingRequests := ps\<rparr>)"
  by (simp_all add: extends_def effect_defs has_id_def)

lemma extends_upd_span:
  "(\<And>s. sp_TraceID s \<noteq> '''' \<Longrightarrow> sp_TraceID (f s) \<noteq> '''') \<Longrightarrow> extends c (upd_span a f c)"
  by (auto simp: extends_def upd_span_def has_id_def split: if_splits)

lemma extends_SetTag: "extends c (upd_span a (\<lambda>s. SetTag s k v) c)"
  by (rule extends_upd_span) simp

lemma extends_fold: "(\<And>x c. extends c (f x c)) \<Longrightarrow> extends c (fold f xs c)"
  by (induction xs arbitrary: c) (auto intro: extends_trans)

lemma generated_id_nonempty [simp]: "generateDeterministicTraceID s \<noteq> ''''"
proof -
  have "length (generateDeterministicTraceID s) = 32"
    by (simp add: generateDeterministicTraceID_def)
  then show ?thesis by (metis list.size(3) zero_neq_numeral)
qed

lemma extends_report: "extends c (report a c)"
  unfolding report_def by (auto intro: extends_trans [OF extends_effects(2)] extends_effects)

lemma extends_report_pair: "extends c (report_pair a b c)"
  unfolding report_pair_def
  by (auto intro: extends_trans [OF extends_trans [OF extends_effects(2) extends_effects(2)]] extends_effects)

lemma extends_assign_ids: "extends c (assign_ids r a c)"
  unfolding assign_ids_def by (auto intro!: extends_upd_span)

text \<open>The same facts for a chain of operations, outermost first.\<close>

lemmas extends_step =
  extends_effects [THEN [2] extends_trans] extends_SetTag [THEN [2] extends_trans]
  extends_report [THEN [2] extends_trans] extends_report_pair [THEN [2] extends_trans]
  extends_assign_ids [THEN [2] extends_trans]

lemma extends_link:
  assumes "has_id c (iq_span req)"
  shows "extends c (link_response now r a req c)"
proof -
  have "sp_TraceID (span_at c (iq_span req)) \<noteq> ''''"
    using assms by (auto simp: has_id_def span_at_def)
  then show ?thesis
    unfolding link_response_def Let_def
    by (intro extends_trans [OF extends_upd_span extends_trans [OF extends_upd_span extends_upd_span]])
       simp_all
qed

lemma extends_getOrCreateFlow: "extends c (snd (getOrCreateFlow a key c))"
  unfolding getOrCreateFlow_def
  by (auto simp: Let_def split: option.split
      intro: extends_trans [OF extends_effects(1) extends_effects(6)])

lemma extends_drop_oldest: "extends c (snd (drop_oldest flow c))"
  unfolding drop_oldest_def
  by (auto split: list.split intro: extends_trans [OF extends_effects(4) extends_report])

lemma extends_close_request: "extends c (close_request req c)"
  unfolding close_request_def
  by (auto intro: extends_trans [OF extends_SetTag extends_trans [OF extends_effects(2) extends_effects(3)]])

lemma extends_handleClose: "extends c (handleClose key c)"
  unfolding handleClose_def Let_def
  by (auto split: option.split intro!: extends_step extends_fold extends_close_request)

section \<open>The invariant of the correlator\<close>

text \<open>
  \<open>counts_down n ns\<close>: the numbers are \<open>n\<close>, \<open>n - 1\<close>, and so on. The sequence
  numbers of a queue count down from the flow's counter when read from its end.
\<close>

fun counts_down :: "u64 \<Rightarrow> u64 list \<Rightarrow> bool" where
  "counts_down n [] = True"
| "counts_down n (m # ms) = (m = n \<and> counts_down (n - 1) ms)"

lemma counts_down_append: "counts_down n (xs @ ys) \<Longrightarrow> counts_down n xs"
  by (induction xs arbitrary: n) auto

definition queue_ok :: "correlator \<Rightarrow> u64 \<Rightarrow> inflight_request list \<Rightarrow> bool" where
  "queue_ok c n qs \<longleftrightarrow>
     int (length qs) \<le> co_maxInflight c \<and> (\<forall>q\<in>set qs. has_id c (iq_span q)) \<and>
     distinct (map iq_span qs) \<and> counts_down n (rev (map iq_seq qs))"

definition correlator_ok :: "correlator \<Rightarrow> bool" where
  "correlator_ok c \<longleftrightarrow>
     0 < co_maxInflight c \<and> finite (dom (co_connections c)) \<and>
     dom (co_heap c) = {..<co_next c} \<and>
     (\<forall>r\<in>set (co_pendingRequests c). pr_Span r < co_next c) \<and>
     (\<forall>key flow. co_connections c key = Some flow \<longrightarrow>
        queue_ok c (cf_seqCounter flow) (cf_inflightReqs flow))"

lemma queue_ok_Nil [simp]: "queue_ok c n [] \<longleftrightarrow> 0 \<le> co_maxInflight c"
  by (simp add: queue_ok_def)

lemma queue_ok_tl: "queue_ok c n (q # qs) \<Longrightarrow> queue_ok c n qs"
  by (auto simp: queue_ok_def dest: counts_down_append)

lemma queue_ok_extends: "queue_ok c n qs \<Longrightarrow> extends c c' \<Longrightarrow> queue_ok c' n qs"
  by (auto simp: queue_ok_def extends_settings)

lemma queue_ok_push:
  assumes "queue_ok c n qs" "int (length qs) < co_maxInflight c" "has_id c (iq_span q)"
    and "iq_span q \<notin> iq_span ` set qs" "iq_seq q = n + 1"
  shows "queue_ok c (n + 1) (qs @ [q])"
  using assms by (auto simp: queue_ok_def)

text \<open>The invariant only depends on what \<open>extends\<close> keeps, the table and the pending list.\<close>

lemma correlator_ok_extends:
  assumes "correlator_ok c" "extends c c'"
    and "\<And>r. r \<in> set (co_pendingRequests c') \<Longrightarrow> pr_Span r < co_next c"
    and "finite (dom (co_connections c')) "
    and "\<And>key flow. co_connections c' key = Some flow \<Longrightarrow>
       co_connections c key = Some flow \<or> queue_ok c' (cf_seqCounter flow) (cf_inflightReqs flow)"
  shows "correlator_ok c'"
proof -
  have "queue_ok c' (cf_seqCounter flow) (cf_inflightReqs flow)"
    if "co_connections c' key = Some flow" for key flow
    using assms(5) [OF that] assms(1) queue_ok_extends [OF _ assms(2)]
    by (auto simp: correlator_ok_def)
  with assms(1,3,4) show ?thesis
    by (simp add: correlator_ok_def extends_settings [OF assms(2)])
qed

lemma correlator_ok_queue:
  "correlator_ok c \<Longrightarrow> co_connections c key = Some flow \<Longrightarrow>
   queue_ok c (cf_seqCounter flow) (cf_inflightReqs flow)"
  by (simp add: correlator_ok_def)

text \<open>What the operations do to the table and to the pending list.\<close>

lemma effects_tables [simp]:
  "co_connections (upd_span a f c) = co_connections c"
  "co_connections (call_handler a c) = co_connections c"
  "co_connections (report a c) = co_connections c"
  "co_connections (report_pair a b c) = co_connections c"
  "co_connections (add_inflight n c) = co_connections c"
  "co_connections (add_active n c) = co_connections c"
  "co_connections (add_dropped n c) = co_connections c"
  "co_connections (add_processed n c) = co_connections c"
  "co_connections (assign_ids r a c) = co_connections c"
  "co_connections (link_response now r a req c) = co_connections c"
  "co_connections (close_request req c) = co_connections c"
  "co_connections (put_flow key flow c) = (co_connections c)(key \<mapsto> flow)"
  "co_pendingRequests (upd_span a f c) = co_pendingRequests c"
  "co_pendingRequests (call_handler a c) = co_pendingRequests c"
  "co_pendingRequests (report a c) = co_pendingRequests c"
  "co_pendingRequests (report_pair a b c) = co_pendingRequests c"
  "co_pendingRequests (add_inflight n c) = co_pendingRequests c"
  "co_pendingRequests (add_active n c) = co_pendingRequests c"
  "co_pendingRequests (add_dropped n c) = co_pendingRequests c"
  "co_pendingRequests (add_processed n c) = co_pendingRequests c"
  "co_pendingRequests (assign_ids r a c) = co_pendingRequests c"
  "co_pendingRequests (link_response now r a req c) = co_pendingRequests c"
  "co_pendingRequests (close_request req c) = co_pendingRequests c"
  "co_pendingRequests (put_flow key flow c) = co_pendingRequests c"
  by (simp_all add: effect_defs report_def report_pair_def assign_ids_def link_response_def
      close_request_def Let_def)

lemma fold_tables:
  "(\<And>x c. co_connections (f x c) = co_connections c) \<Longrightarrow>
   co_connections (fold f xs c) = co_connections c"
  "(\<And>x c. co_pendingRequests (f x c) = co_pendingRequests c) \<Longrightarrow>
   co_pendingRequests (fold f xs c) = co_pendingRequests c"
  by (induction xs arbitrary: c) simp_all

text \<open>\<open>unqueued c a\<close>: the span at \<open>a\<close> waits in no in-flight queue.\<close>

definition unqueued :: "correlator \<Rightarrow> addr \<Rightarrow> bool" where
  "unqueued c a \<longleftrightarrow>
     (\<forall>key flow q. co_connections c key = Some flow \<longrightarrow> q \<in> set (cf_inflightReqs flow) \<longrightarrow>
        iq_span q \<noteq> a)"

lemma unqueuedI:
  "(\<And>key flow q. co_connections c key = Some flow \<Longrightarrow> q \<in> set (cf_inflightReqs flow) \<Longrightarrow>
      iq_span q \<noteq> a) \<Longrightarrow> unqueued c a"
  by (auto simp: unqueued_def)

lemma unqueuedD:
  "unqueued c a \<Longrightarrow> co_connections c key = Some flow \<Longrightarrow> q \<in> set (cf_inflightReqs flow) \<Longrightarrow>
   iq_span q \<noteq> a"
  by (auto simp: unqueued_def)

lemma unqueued_fresh:
  assumes "correlator_ok c" "co_next c \<le> a"
  shows "unqueued c a"
  unfolding unqueued_def
proof (intro allI impI)
  fix key flow q assume "co_connections c key = Some flow" and q: "q \<in> set (cf_inflightReqs flow)"
  with assms(1) have "queue_ok c (cf_seqCounter flow) (cf_inflightReqs flow)"
    by (auto intro: correlator_ok_queue)
  with q have "has_id c (iq_span q)" by (simp add: queue_ok_def)
  then have "iq_span q < co_next c"
    using assms(1) by (auto simp: has_id_def correlator_ok_def)
  with assms(2) show "iq_span q \<noteq> a" by simp
qed

lemma ok_alloc:
  assumes "correlator_ok c"
  shows "correlator_ok (alloc_span s c)" "unqueued (alloc_span s c) (co_next c)"
proof -
  have mono: "has_id (alloc_span s c) a" if "has_id c a" for a
    using that assms by (auto simp: has_id_def alloc_span_def correlator_ok_def)
  have "queue_ok (alloc_span s c) n qs" if "queue_ok c n qs" for n qs
    using that mono by (auto simp: queue_ok_def alloc_span_def)
  then show "correlator_ok (alloc_span s c)"
    using assms by (auto simp: correlator_ok_def alloc_span_def less_Suc_eq)
  show "unqueued (alloc_span s c) (co_next c)"
    using unqueued_fresh [OF assms order_refl] by (simp add: unqueued_def alloc_span_def)
qed

lemma ok_put_flow:
  assumes "correlator_ok c" "queue_ok c (cf_seqCounter flow) (cf_inflightReqs flow)"
  shows "correlator_ok (put_flow key flow c)"
  using assms by (auto simp: correlator_ok_def put_flow_def queue_ok_def has_id_def)

lemma ok_frame:
  assumes "correlator_ok c" "extends c c'" "co_connections c' = co_connections c"
    and "set (co_pendingRequests c') \<subseteq> set (co_pendingRequests c)"
  shows "correlator_ok c'"
  by (rule correlator_ok_extends [OF assms(1,2)])
     (use assms in \<open>auto simp: correlator_ok_def\<close>)

lemma ok_drop_flow:
  "correlator_ok c \<Longrightarrow> correlator_ok (c\<lparr>co_connections := (co_connections c)(key := None)\<rparr>)"
  by (auto simp: correlator_ok_def queue_ok_def has_id_def)

lemma ok_getOrCreateFlow:
  assumes "correlator_ok c" "getOrCreateFlow a key c = (flow, c')"
  shows "correlator_ok c'" "co_connections c' = (co_connections c)(key \<mapsto> flow)"
    "queue_ok c' (cf_seqCounter flow) (cf_inflightReqs flow)"
    "unqueued c b \<Longrightarrow> unqueued c' b" "extends c c'" "co_pendingRequests c' = co_pendingRequests c"
    "co_heap c' = co_heap c"
proof -
  have n: "queue_ok c n []" for n using assms(1) by (simp add: correlator_ok_def)
  show t: "co_connections c' = (co_connections c)(key \<mapsto> flow)"
    using assms(2) by (auto simp: getOrCreateFlow_def Let_def split: option.splits)
  show e: "extends c c'"
    using extends_getOrCreateFlow [of c a key] assms(2) by simp
  show p: "co_pendingRequests c' = co_pendingRequests c" "co_heap c' = co_heap c"
    using assms(2)
    by (auto simp: getOrCreateFlow_def Let_def effect_defs split: option.splits)
  show q: "queue_ok c' (cf_seqCounter flow) (cf_inflightReqs flow)"
    using queue_ok_extends [OF n e] correlator_ok_queue [OF assms(1), of key] assms(2) e
    by (auto simp: getOrCreateFlow_def Let_def new_flow_def split: option.splits)
  show "correlator_ok c'"
    by (rule correlator_ok_extends [OF assms(1) e])
       (use assms(1) q in \<open>auto simp: correlator_ok_def t p split: if_splits\<close>)
  show "unqueued c' b" if u: "unqueued c b"
  proof (rule unqueuedI)
    fix key' flow' q
    assume c': "co_connections c' key' = Some flow'" and q: "q \<in> set (cf_inflightReqs flow')"
    have new: "cf_inflightReqs (new_flow s) = []" for s by (simp add: new_flow_def)
    have "co_connections c key' = Some flow'"
    proof (cases "co_connections c key")
      case None
      with assms(2) have "flow = new_flow (span_at c a)"
        by (simp add: getOrCreateFlow_def Let_def)
      with c' q new show ?thesis unfolding t by (auto split: if_split_asm)
    next
      case (Some f)
      with assms(2) have "c' = c" by (simp add: getOrCreateFlow_def)
      with c' show ?thesis by simp
    qed
    from unqueuedD [OF u this q] show "iq_span q \<noteq> b" .
  qed
qed

lemma ok_connect:
  assumes "correlator_ok c"
  shows "correlator_ok (handleConnect a c)" "correlator_ok (handleAccept a c)"
proof -
  have n: "queue_ok c 0 []" using assms by (simp add: correlator_ok_def)
  then have "correlator_ok (put_flow (span_key_of (span_at c a)) (new_flow (span_at c a)) c)"
    by (intro ok_put_flow [OF assms]) (simp add: new_flow_def)
  from ok_frame [OF this extends_effects(6)]
  show "correlator_ok (handleConnect a c)" "correlator_ok (handleAccept a c)"
    by (simp_all add: handleConnect_def handleAccept_def Let_def)
qed

lemma ok_assign_ids:
  assumes "correlator_ok c" "a < co_next c"
  shows "correlator_ok (assign_ids r a c)" "has_id (assign_ids r a c) a"
proof -
  show "correlator_ok (assign_ids r a c)"
    by (rule ok_frame [OF assms(1) extends_assign_ids]) simp_all
  from assms have "a \<in> dom (co_heap c)" by (simp add: correlator_ok_def)
  then show "has_id (assign_ids r a c) a"
    by (auto simp: assign_ids_def has_id_def upd_span_def span_at_def)
qed

lemma ok_drop_oldest:
  assumes "correlator_ok c" "queue_ok c (cf_seqCounter flow) (cf_inflightReqs flow)"
    and "drop_oldest flow c = (flow', c')"
  shows "correlator_ok c'" "extends c c'" "queue_ok c' (cf_seqCounter flow') (cf_inflightReqs flow')"
    "int (length (cf_inflightReqs flow')) < co_maxInflight c'"
    "set (cf_inflightReqs flow') \<subseteq> set (cf_inflightReqs flow)"
    "co_connections c' = co_connections c" "co_pendingRequests c' = co_pendingRequests c"
proof -
  show e: "extends c c'"
    using extends_drop_oldest [of c flow] assms(3) by simp
  show t: "co_connections c' = co_connections c" and p: "co_pendingRequests c' = co_pendingRequests c"
    using assms(3) by (auto simp: drop_oldest_def split: if_splits list.splits)
  show "correlator_ok c'"
    by (rule ok_frame [OF assms(1) e]) (simp_all add: t p)
  have "0 < co_maxInflight c" "int (length (cf_inflightReqs flow)) \<le> co_maxInflight c"
    using assms(1,2) by (simp_all add: correlator_ok_def queue_ok_def)
  then show "int (length (cf_inflightReqs flow')) < co_maxInflight c'"
    using assms(3) extends_settings(1) [OF e]
    by (auto simp: drop_oldest_def split: if_splits list.splits)
  show "set (cf_inflightReqs flow') \<subseteq> set (cf_inflightReqs flow)"
    using assms(3) by (auto simp: drop_oldest_def split: if_splits list.splits)
  show "queue_ok c' (cf_seqCounter flow') (cf_inflightReqs flow')"
    using assms(3) queue_ok_extends [OF assms(2) e]
    by (auto simp: drop_oldest_def split: if_splits list.splits dest: queue_ok_tl)
qed

lemma ok_handleSend:
  assumes "correlator_ok c" "a < co_next c" "unqueued c a"
  shows "correlator_ok (handleSend clock rnd a event key info c)"
    "extends c (handleSend clock rnd a event key info c)"
proof -
  obtain flow c1 where g: "getOrCreateFlow a key c = (flow, c1)" by force
  note o1 = ok_getOrCreateFlow [OF assms(1) g]
  let ?flow = "flow\<lparr>cf_LastSend := clock 0\<rparr>"
  let ?c2 = "put_flow key ?flow c1"
  have ok2: "correlator_ok ?c2" and e2: "extends c ?c2"
    using o1 by (auto intro: ok_put_flow extends_trans [OF _ extends_effects(1)])
  let ?c3 = "assign_ids (rnd 2) a ?c2"
  have a2: "a < co_next ?c2" using assms(2) extends_settings(4) [OF e2] by simp
  note ok3 = ok_assign_ids [OF ok2 a2, of "rnd 2"]
  have e3: "extends c ?c3" by (rule extends_trans [OF e2 extends_assign_ids])
  obtain flow4 c4 where d: "drop_oldest ?flow ?c3 = (flow4, c4)" by force
  have "queue_ok ?c3 (cf_seqCounter ?flow) (cf_inflightReqs ?flow)"
    using correlator_ok_queue [OF ok3(1), of key ?flow] by simp
  note o4 = ok_drop_oldest [OF ok3(1) this d]
  have e4: "extends c c4" by (rule extends_trans [OF e3 o4(2)])
  let ?req = "\<lparr>iq_span = a, iq_event = event, iq_protoInfo = info, iq_sendTime = clock 1,
               iq_seq = cf_seqCounter flow4 + 1\<rparr>"
  let ?flow5 = "flow4\<lparr>cf_seqCounter := cf_seqCounter flow4 + 1,
                      cf_inflightReqs := cf_inflightReqs flow4 @ [?req]\<rparr>"
  have "iq_span q \<noteq> a" if "q \<in> set (cf_inflightReqs flow4)" for q
    using unqueuedD [OF o1(4) [OF assms(3)], of key flow q] that o4(5) by (auto simp: o1(2))
  then have "queue_ok c4 (cf_seqCounter ?flow5) (cf_inflightReqs ?flow5)"
    using queue_ok_push [OF o4(3,4), of ?req] extends_settings(6) [OF o4(2) ok3(2)] by auto
  from ok_put_flow [OF o4(1) this] have ok5: "correlator_ok (put_flow key ?flow5 c4)" .
  let ?c6 = "upd_span a (\<lambda>s. SetTag s ''request_seq'' (TagU64 (cf_seqCounter flow4 + 1)))
       (add_inflight 1 (put_flow key ?flow5 c4))"
  have e6: "extends (put_flow key ?flow5 c4) ?c6"
    by (rule extends_trans [OF extends_effects(5) extends_SetTag])
  have ok6: "correlator_ok ?c6" by (rule ok_frame [OF ok5 e6]) simp_all
  show "correlator_ok (handleSend clock rnd a event key info c)"
    using ok2 ok6 by (simp add: handleSend_def g d Let_def)
  show "extends c (handleSend clock rnd a event key info c)"
    using e2 extends_trans [OF e4 extends_trans [OF extends_effects(1) e6]]
    by (simp add: handleSend_def g d Let_def)
qed

lemma ok_take_request:
  assumes "correlator_ok c" "co_connections c key = Some flow" "cf_inflightReqs flow = req # rest"
  shows "correlator_ok (put_flow key (flow\<lparr>cf_inflightReqs := rest\<rparr>) c)"
    "has_id (put_flow key (flow\<lparr>cf_inflightReqs := rest\<rparr>) c) (iq_span req)"
proof -
  have q: "queue_ok c (cf_seqCounter flow) (req # rest)"
    using correlator_ok_queue [OF assms(1,2)] assms(3) by simp
  then show "correlator_ok (put_flow key (flow\<lparr>cf_inflightReqs := rest\<rparr>) c)"
    by (intro ok_put_flow [OF assms(1)]) (simp add: queue_ok_tl)
  show "has_id (put_flow key (flow\<lparr>cf_inflightReqs := rest\<rparr>) c) (iq_span req)"
    using q by (simp add: queue_ok_def put_flow_def has_id_def)
qed

lemma ok_handleRecv:
  assumes "correlator_ok c"
  shows "correlator_ok (handleRecv clock rnd a event key c)"
    "extends c (handleRecv clock rnd a event key c)"
proof -
  obtain flow c1 where g: "getOrCreateFlow a key c = (flow, c1)" by force
  note o1 = ok_getOrCreateFlow [OF assms g]
  let ?flow = "flow\<lparr>cf_LastRecv := clock 0\<rparr>"
  let ?c2 = "put_flow key ?flow c1"
  have ok2: "correlator_ok ?c2" and e2: "extends c ?c2"
    using o1 by (auto intro: ok_put_flow extends_trans [OF _ extends_effects(1)])
  have "correlator_ok (handleRecv clock rnd a event key c) \<and>
        extends c (handleRecv clock rnd a event key c)"
  proof (cases "isResponsePayload event")
    case False
    with ok2 e2 show ?thesis by (simp add: handleRecv_def g)
  next
    case resp: True
    show ?thesis
    proof (cases "cf_inflightReqs flow")
      case Nil
      have "extends ?c2 (upd_span a (\<lambda>s. SetTag s ''orphan_response'' (TagBool True)) (assign_ids (rnd 2) a ?c2))"
        by (rule extends_trans [OF extends_assign_ids extends_SetTag])
      from this ok_frame [OF ok2 this] extends_trans [OF e2 this] resp Nil show ?thesis
        by (simp add: handleRecv_def g)
    next
      case (Cons req rest)
      let ?c3 = "put_flow key (?flow\<lparr>cf_inflightReqs := rest\<rparr>) ?c2"
      have "co_connections ?c2 key = Some ?flow" "cf_inflightReqs ?flow = req # rest"
        using Cons by simp_all
      note o3 = ok_take_request [OF ok2 this]
      let ?c4 = "upd_span a (\<lambda>s. SetTag s ''matched'' (TagBool True))
          (report_pair (iq_span req) a (add_inflight (NOT 0)
            (upd_span (iq_span req) (\<lambda>s. SetTag s ''response_seq'' (TagU64 (iq_seq req)))
              (upd_span a (\<lambda>s. SetTag s ''request_seq'' (TagU64 (iq_seq req)))
                (link_response (clock 1) (rnd 2) a req ?c3)))))"
      have e4: "extends ?c3 ?c4"
        by (intro extends_step extends_link o3(2))
      have "handleRecv clock rnd a event key c = ?c4"
        using resp Cons by (simp add: handleRecv_def g Let_def)
      with ok_frame [OF o3(1) e4] extends_trans [OF e2 extends_trans [OF extends_effects(1) e4]]
      show ?thesis by simp
    qed
  qed
  then show "correlator_ok (handleRecv clock rnd a event key c)"
    "extends c (handleRecv clock rnd a event key c)" by simp_all
qed

lemma ok_handleClose:
  assumes "correlator_ok c"
  shows "correlator_ok (handleClose key c)"
proof (cases "co_connections c key")
  case (Some flow)
  let ?c1 = "add_active (NOT 0) (add_inflight (NOT (of_nat (length (cf_inflightReqs flow)) - 1))
      (fold close_request (cf_inflightReqs flow) c))"
  have "extends c ?c1"
    by (intro extends_step extends_fold extends_close_request)
  from ok_drop_flow [OF ok_frame [OF assms this], of key] Some show ?thesis
    by (simp add: handleClose_def fold_tables)
qed (simp add: handleClose_def assms)

lemma remove_pending_subset: "set (remove_pending a rs) \<subseteq> set rs"
  by (induction rs) auto

lemma ok_tryCorrelate:
  assumes "correlator_ok c"
  shows "correlator_ok (tryCorrelate now r a event key c)"
    "extends c (tryCorrelate now r a event key c)"
proof -
  obtain flow c1 where g: "getOrCreateFlow a key c = (flow, c1)" by force
  note o1 = ok_getOrCreateFlow [OF assms g]
  have "correlator_ok (tryCorrelate now r a event key c) \<and> extends c (tryCorrelate now r a event key c)"
  proof (cases "ev_EventType event = EventTypeRecvFrom \<and> cf_inflightReqs flow \<noteq> []")
    case False
    with o1 show ?thesis by (auto simp: tryCorrelate_def g split: list.split)
  next
    case True
    then obtain req rest where q: "cf_inflightReqs flow = req # rest" by (cases "cf_inflightReqs flow") auto
    have "co_connections c1 key = Some flow" by (simp add: o1)
    note o3 = ok_take_request [OF o1(1) this q]
    let ?c3 = "put_flow key (flow\<lparr>cf_inflightReqs := rest\<rparr>) c1"
    let ?c4 = "removeFromPending a (removeFromPending (iq_span req)
        (report_pair (iq_span req) a (add_inflight (NOT 0) (link_response now r a req ?c3))))"
    have e4: "extends ?c3 ?c4"
      unfolding removeFromPending_def
      by (intro extends_step extends_link o3(2))
    have "set (co_pendingRequests ?c4) \<subseteq> set (co_pendingRequests ?c3)"
      unfolding removeFromPending_def
      by simp (meson order_trans remove_pending_subset)
    moreover have "co_connections ?c4 = co_connections ?c3" by (simp add: removeFromPending_def)
    ultimately have "correlator_ok ?c4" by (intro ok_frame [OF o3(1) e4])
    moreover have "tryCorrelate now r a event key c = ?c4"
      using True q by (simp add: tryCorrelate_def g Let_def)
    ultimately show ?thesis
      using extends_trans [OF o1(5) extends_trans [OF extends_effects(1) e4]] by simp
  qed
  then show "correlator_ok (tryCorrelate now r a event key c)"
    "extends c (tryCorrelate now r a event key c)" by simp_all
qed

lemma extends_connect: "extends c (handleConnect a c)" "extends c (handleAccept a c)"
  unfolding handleConnect_def handleAccept_def Let_def by (intro extends_step extends_refl)+

lemma ok_handle_event:
  assumes "correlator_ok c" "a < co_next c" "unqueued c a"
  shows "correlator_ok (handle_event clock rnd a event key info c)"
    "extends c (handle_event clock rnd a event key info c)"
  using assms by (simp_all add: handle_event_def ok_connect ok_handleSend ok_handleRecv ok_handleClose
      extends_connect extends_handleClose)

lemma ok_finish_event:
  assumes "correlator_ok c" "a < co_next c"
  shows "correlator_ok (finish_event clock rnd a event key c)"
    "extends c (finish_event clock rnd a event key c)"
proof -
  let ?r = "\<lparr>pr_Span = a, pr_RawEvent = event, pr_ProtocolInfo = None, pr_Timestamp = clock 2\<rparr>"
  let ?c1 = "c\<lparr>co_pendingRequests := co_pendingRequests c @ [?r]\<rparr>"
  let ?c2 = "add_processed 1 (call_handler a c)"
  have e1: "extends c ?c1" by (rule extends_effects)
  have ok1: "correlator_ok ?c1"
    by (rule correlator_ok_extends [OF assms(1) e1]) (use assms in \<open>auto simp: correlator_ok_def\<close>)
  have e2: "extends c ?c2" by (intro extends_step extends_refl)
  have ok2: "correlator_ok ?c2" by (rule ok_frame [OF assms(1) e2]) simp_all
  show "correlator_ok (finish_event clock rnd a event key c)"
    using assms(1) ok2 ok_tryCorrelate(1) [OF ok1] by (simp add: finish_event_def)
  show "extends c (finish_event clock rnd a event key c)"
    using e2 extends_trans [OF e1 ok_tryCorrelate(2) [OF ok1]] by (simp add: finish_event_def)
qed

lemma add_total_ok [simp]: "correlator_ok (add_total n c) \<longleftrightarrow> correlator_ok c"
  by (simp add: correlator_ok_def add_total_def queue_ok_def has_id_def)

lemma add_total_frame [simp]:
  "co_connections (add_total n c) = co_connections c" "co_next (add_total n c) = co_next c"
  "co_heap (add_total n c) = co_heap c" "co_spanHandler (add_total n c) = co_spanHandler c"
  "co_log (add_total n c) = co_log c" "co_maxInflight (add_total n c) = co_maxInflight c"
  "co_pendingRequests (add_total n c) = co_pendingRequests c"
  by (simp_all add: add_total_def)

lemma alloc_frame [simp]:
  "co_connections (alloc_span s c) = co_connections c" "co_next (alloc_span s c) = Suc (co_next c)"
  "co_heap (alloc_span s c) = (co_heap c)(co_next c \<mapsto> s)" "co_log (alloc_span s c) = co_log c"
  "co_spanHandler (alloc_span s c) = co_spanHandler c" "co_stats (alloc_span s c) = co_stats c"
  "co_maxInflight (alloc_span s c) = co_maxInflight c"
  "co_pendingRequests (alloc_span s c) = co_pendingRequests c"
  by (simp_all add: alloc_span_def)

text \<open>The steps of \<open>ProcessEvent\<close>, once the event has been parsed.\<close>

lemma ProcessEvent_Inr:
  assumes "ProcessEvent clock rnd event c = Inr c'"
  obtains info s where
    "Parser_Parse event (ConvertRawEventToSpan event (rnd 0) (rnd 1)) = Inr (info, s)"
    "c' = finish_event clock rnd (co_next c) event (event_key event)
       (handle_event clock rnd (co_next c) event (event_key event) info
         (alloc_span s (add_total 1 c)))"
proof -
  from assms obtain info s where p:
    "Parser_Parse event (ConvertRawEventToSpan event (rnd 0) (rnd 1)) = Inr (info, s)"
    by (auto simp: ProcessEvent_def go_bind_eq_Inr)
  with assms span_key_parsed [OF p] that show thesis
    by (simp add: ProcessEvent_def Let_def)
qed

lemma ok_ProcessEvent:
  assumes "correlator_ok c" "ProcessEvent clock rnd event c = Inr c'"
  shows "correlator_ok c'"
proof -
  from assms(2) obtain info s where c': "c' = finish_event clock rnd (co_next c) event (event_key event)
       (handle_event clock rnd (co_next c) event (event_key event) info
         (alloc_span s (add_total 1 c)))"
    by (rule ProcessEvent_Inr)
  let ?c1 = "alloc_span s (add_total 1 c)"
  have "correlator_ok (add_total 1 c)" using assms(1) by simp
  from ok_alloc [OF this, of s] have "correlator_ok ?c1" "unqueued ?c1 (co_next c)" by simp_all
  note h = ok_handle_event [OF this(1) _ this(2)]
  show ?thesis unfolding c'
    by (rule ok_finish_event(1) [OF h(1)]) (simp_all add: extends_settings(4) [OF h(2)])
qed

section \<open>Clean-up\<close>

lemma expire_span_frame:
  "extends c (expire_span rnd a c)" "co_connections (expire_span rnd a c) = co_connections c"
  "co_pendingRequests (expire_span rnd a c) = co_pendingRequests c"
  unfolding expire_span_def by (intro extends_step extends_refl | simp)+

lemma expire_pending_frame:
  "extends c (snd (expire_pending now rnd rs c))"
  "co_connections (snd (expire_pending now rnd rs c)) = co_connections c"
  "co_pendingRequests (snd (expire_pending now rnd rs c)) = co_pendingRequests c"
  by (induction rs arbitrary: c)
     (auto simp: expire_span_frame split: prod.splits
       intro: extends_trans [OF expire_span_frame(1)], (metis snd_conv)+)

text \<open>The entries that stay are those that have not timed out.\<close>

lemma expire_pending_rest:
  "fst (expire_pending now rnd rs c) = filter (\<lambda>r. \<not> co_timeout c < time_sub now (pr_Timestamp r)) rs"
proof (induction rs arbitrary: c)
  case (Cons r rs)
  have "co_timeout (expire_span rnd a c) = co_timeout c" for a
    by (rule extends_settings(2) [OF expire_span_frame(1)])
  with Cons show ?case by (auto simp: case_prod_beta Let_def)
qed simp

lemma timeout_request_frame:
  "extends c (timeout_request q c)" "co_connections (timeout_request q c) = co_connections c"
  "co_pendingRequests (timeout_request q c) = co_pendingRequests c"
  unfolding timeout_request_def by (intro extends_step extends_refl | simp)+

lemma expire_flow_frame:
  "extends c (expire_flow now key c)"
  "co_pendingRequests (expire_flow now key c) = co_pendingRequests c"
  "co_connections (expire_flow now key c) =
     (case co_connections c key of
        Some flow \<Rightarrow> if flow_expired now (co_timeout c) flow
                     then (co_connections c)(key := None) else co_connections c
      | None \<Rightarrow> co_connections c)"
proof -
  show "extends c (expire_flow now key c)"
    unfolding expire_flow_def Let_def
    by (auto split: option.split intro!: extends_step extends_fold timeout_request_frame)
qed (auto simp: expire_flow_def Let_def fold_tables timeout_request_frame split: option.split)

lemma ok_expire_flow: "correlator_ok c \<Longrightarrow> correlator_ok (expire_flow now key c)"
  by (rule correlator_ok_extends [OF _ expire_flow_frame(1)])
     (auto simp: expire_flow_frame correlator_ok_def split: option.splits if_splits)

lemma fold_expire_flow:
  "extends c (fold (expire_flow now) keys c)"
  "co_pendingRequests (fold (expire_flow now) keys c) = co_pendingRequests c"
  "co_connections (fold (expire_flow now) keys c) key =
     (case co_connections c key of
        Some flow \<Rightarrow> if key \<in> set keys \<and> flow_expired now (co_timeout c) flow then None else Some flow
      | None \<Rightarrow> None)"
proof (induction keys arbitrary: c)
  case (Cons k ks)
  { case 1 show ?case using extends_trans [OF expire_flow_frame(1) Cons.IH(1)] by simp }
  { case 2 show ?case by (simp add: Cons.IH(2) expire_flow_frame) }
  { case 3 show ?case
      by (auto simp: Cons.IH(3) expire_flow_frame(3) extends_settings(2) [OF expire_flow_frame(1)]
          split: option.split) }
qed (auto split: option.split)

lemma ok_cleanupExpired:
  assumes "correlator_ok c"
  shows "correlator_ok (cleanupExpired now rnd keys c)"
proof -
  obtain rest c1 where e: "expire_pending now rnd (co_pendingRequests c) c = (rest, c1)" by force
  have x: "extends c c1" and t: "co_connections c1 = co_connections c"
    using expire_pending_frame(1,2) [where c = c and now = now and rnd = rnd and rs = "co_pendingRequests c"] e
    by simp_all
  have r: "set rest \<subseteq> set (co_pendingRequests c)"
    using expire_pending_rest [where c = c and now = now and rnd = rnd and rs = "co_pendingRequests c"] e
    by auto
  have ok: "correlator_ok (c1\<lparr>co_pendingRequests := rest\<rparr>)"
    by (rule ok_frame [OF assms extends_trans [OF x extends_effects(8)]]) (use t r in simp_all)
  have "correlator_ok (fold (expire_flow now) keys d)" if "correlator_ok d" for d
    using that by (induction keys arbitrary: d) (simp_all add: ok_expire_flow)
  from this [OF ok] show ?thesis by (simp add: cleanupExpired_def e)
qed

end
