(* ===== verification/Go_Lib.thy ===== *)
theory Go_Lib
  imports Go_Strings Go_Float "HOL-Library.Multiset"
begin

text \<open>
  What the program uses of Go's library beyond strings: printing and truncating floats,
  escaping for HTML, the FNV-1a hashes, and the contract of \<open>sort.Slice\<close>.
\<close>

section \<open>Floats\<close>

text \<open>\<open>%.nf\<close>: the nearest decimal with \<open>n\<close> places, ties to even.\<close>

definition round_even :: "real \<Rightarrow> int" where
  "round_even x =
     (let k = \<lfloor>x\<rfloor>; d = x - of_int k in
      if d < 1 / 2 then k else if 1 / 2 < d then k + 1 else if even k then k else k + 1)"

definition f_fixed :: "nat \<Rightarrow> f64 \<Rightarrow> string" where
  "f_fixed n x =
     (case x of
        NaN \<Rightarrow> ''NaN'' | PInf \<Rightarrow> ''+Inf'' | NInf \<Rightarrow> ''-Inf''
      | Fin r \<Rightarrow>
          let k = nat (round_even (\<bar>r\<bar> * 10 ^ n));
              frac = nat_dec (k mod 10 ^ n)
          in (if r < 0 then ''-'' else '''') @ nat_dec (k div 10 ^ n) @ ''.'' @
             replicate (n - length frac) CHR ''0'' @ frac)"

text \<open>
  \<open>int64(x)\<close> truncates towards zero. Go leaves a value out of range to the platform; on
  amd64, where the agent runs, it gives the least integer.
\<close>

definition f_trunc :: "real \<Rightarrow> int" where
  "f_trunc r = (if r < 0 then \<lceil>r\<rceil> else \<lfloor>r\<rfloor>)"

definition f_to_int64 :: "f64 \<Rightarrow> int" where
  "f_to_int64 x =
     (case x of
        Fin r \<Rightarrow> if min_int64 \<le> f_trunc r \<and> f_trunc r \<le> max_int64 then f_trunc r else min_int64
      | _ \<Rightarrow> min_int64)"

lemma f_to_int64_range: "min_int64 \<le> f_to_int64 x \<and> f_to_int64 x \<le> max_int64"
  by (cases x) (auto simp: f_to_int64_def min_int64_def max_int64_def)

lemma f_to_int64_nat: "int n \<le> max_int64 \<Longrightarrow> f_to_int64 (Fin (real n)) = int n"
  by (simp add: f_to_int64_def f_trunc_def min_int64_def max_int64_def)

text \<open>\<open>a % b\<close> on integers takes the sign of \<open>a\<close>; \<open>b = 0\<close> panics.\<close>

definition go_rem :: "int \<Rightarrow> int \<Rightarrow> int go" where
  "go_rem a b = (if b = 0 then Inl DivideByZero else Inr (sgn a * (\<bar>a\<bar> mod \<bar>b\<bar>)))"

section \<open>HTML\<close>

text \<open>\<open>html.EscapeString\<close>.\<close>

definition html_escape_char :: "char \<Rightarrow> string" where
  "html_escape_char c =
     (if c = CHR ''&'' then ''&amp;''
      else if c = CHR 0x27 then ''&#39;''
      else if c = CHR ''<'' then ''&lt;''
      else if c = CHR ''>'' then ''&gt;''
      else if c = CHR 0x22 then ''&#34;''
      else [c])"

definition html_escape :: "string \<Rightarrow> string" where
  "html_escape s = concat (map html_escape_char s)"

text \<open>Escaped text contains no character that could open or close markup or an attribute.\<close>

lemma html_escape_safe:
  "c \<in> set (html_escape s) \<Longrightarrow> c \<notin> {CHR ''<'', CHR ''>'', CHR 0x22, CHR 0x27}"
proof -
  have "c \<notin> {CHR ''<'', CHR ''>'', CHR 0x22, CHR 0x27}" if "c \<in> set (html_escape_char d)" for d
    using that by (cases "d = CHR ''&''"; cases "d = CHR 0x27"; cases "d = CHR ''<''";
      cases "d = CHR ''>''"; cases "d = CHR 0x22") (auto simp: html_escape_char_def)
  then show "c \<in> set (html_escape s) \<Longrightarrow> c \<notin> {CHR ''<'', CHR ''>'', CHR 0x22, CHR 0x27}"
    by (auto simp: html_escape_def)
qed

section \<open>Hashes\<close>

definition fnv32a :: "string \<Rightarrow> u32" where
  "fnv32a s = foldl (\<lambda>h c. (h XOR of_char c) * 16777619) 2166136261 s"

definition fnv64a :: "string \<Rightarrow> u64" where
  "fnv64a s = foldl (\<lambda>h c. (h XOR of_char c) * 1099511628211) 14695981039346656037 s"

section \<open>Sorting\<close>

text \<open>
  \<open>sort.Slice(xs, less)\<close> is not stable and its result on equal elements is not
  specified, so it is an argument of the model. \<open>slice_sort\<close> is its contract: if
  \<open>lt\<close> is a strict weak order (\<open>weak_order\<close>) then the result is a permutation in which no
  element is less than an earlier one.
\<close>

definition weak_order :: "('a \<Rightarrow> 'a \<Rightarrow> bool) \<Rightarrow> 'a set \<Rightarrow> bool" where
  "weak_order lt A \<longleftrightarrow>
     (\<forall>x\<in>A. \<not> lt x x) \<and>
     (\<forall>x\<in>A. \<forall>y\<in>A. \<forall>z\<in>A. lt x y \<longrightarrow> lt y z \<longrightarrow> lt x z) \<and>
     (\<forall>x\<in>A. \<forall>y\<in>A. \<forall>z\<in>A. \<not> lt x y \<longrightarrow> \<not> lt y z \<longrightarrow> \<not> lt x z)"

lemma weak_order_asym: "weak_order lt A \<Longrightarrow> x \<in> A \<Longrightarrow> y \<in> A \<Longrightarrow> lt y x \<Longrightarrow> \<not> lt x y"
  unfolding weak_order_def by blast

lemma weak_order_neg:
  "weak_order lt A \<Longrightarrow> x \<in> A \<Longrightarrow> y \<in> A \<Longrightarrow> z \<in> A \<Longrightarrow> \<not> lt z y \<Longrightarrow> \<not> lt y x \<Longrightarrow> \<not> lt z x"
  unfolding weak_order_def by blast

definition slice_sort :: "(('a \<Rightarrow> 'a \<Rightarrow> bool) \<Rightarrow> 'a list \<Rightarrow> 'a list) \<Rightarrow> bool" where
  "slice_sort srt \<longleftrightarrow>
     (\<forall>lt xs. mset (srt lt xs) = mset xs \<and>
        (weak_order lt (set xs) \<longrightarrow> sorted_wrt (\<lambda>x y. \<not> lt y x) (srt lt xs)))"

lemma slice_sort_mset: "slice_sort srt \<Longrightarrow> mset (srt lt xs) = mset xs"
  by (simp add: slice_sort_def)

lemma slice_sort_set: "slice_sort srt \<Longrightarrow> set (srt lt xs) = set xs"
  by (metis slice_sort_mset set_mset_mset)

lemma slice_sort_length: "slice_sort srt \<Longrightarrow> length (srt lt xs) = length xs"
  by (metis slice_sort_mset size_mset)

lemma slice_sort_distinct: "slice_sort srt \<Longrightarrow> distinct (srt lt xs) \<longleftrightarrow> distinct xs"
  by (metis slice_sort_mset mset_eq_imp_distinct_iff)

lemma slice_sort_sorted:
  "slice_sort srt \<Longrightarrow> weak_order lt (set xs) \<Longrightarrow> sorted_wrt (\<lambda>x y. \<not> lt y x) (srt lt xs)"
  by (simp add: slice_sort_def)

text \<open>An order by a key in a linear order is a strict weak order.\<close>

lemma weak_order_key: "weak_order (\<lambda>x y. (key x :: 'k::linorder) < key y) A"
  by (auto simp: weak_order_def)

text \<open>Insertion sort, which \<open>sort.Slice\<close> itself uses on short slices, meets the contract.\<close>

fun ins :: "('a \<Rightarrow> 'a \<Rightarrow> bool) \<Rightarrow> 'a \<Rightarrow> 'a list \<Rightarrow> 'a list" where
  "ins lt x [] = [x]"
| "ins lt x (y # ys) = (if lt y x then y # ins lt x ys else x # y # ys)"

definition insertion_sort :: "('a \<Rightarrow> 'a \<Rightarrow> bool) \<Rightarrow> 'a list \<Rightarrow> 'a list" where
  "insertion_sort lt xs = foldr (ins lt) xs []"

lemma mset_ins [simp]: "mset (ins lt x ys) = add_mset x (mset ys)"
  by (induction ys) auto

lemma set_ins [simp]: "set (ins lt x ys) = insert x (set ys)"
  by (metis mset_ins set_mset_add_mset_insert set_mset_mset)

lemma mset_insertion_sort [simp]: "mset (insertion_sort lt xs) = mset xs"
  by (induction xs) (simp_all add: insertion_sort_def)

lemma sorted_ins:
  assumes "weak_order lt A" "x \<in> A" "set ys \<subseteq> A" "sorted_wrt (\<lambda>x y. \<not> lt y x) ys"
  shows "sorted_wrt (\<lambda>x y. \<not> lt y x) (ins lt x ys)"
  using assms(3,4)
proof (induction ys)
  case (Cons y ys)
  show ?case
  proof (cases "lt y x")
    case True
    moreover have "y \<in> A" using Cons.prems(1) by simp
    ultimately have "\<not> lt x y" using weak_order_asym [OF assms(1)] assms(2) by blast
    with True Cons show ?thesis by simp
  next
    case False
    have "\<not> lt z x" if "z \<in> set ys" for z
    proof -
      have "\<not> lt z y" "z \<in> A" "y \<in> A" using that Cons.prems by auto
      with False show ?thesis using weak_order_neg [OF assms(1)] assms(2) by blast
    qed
    with False Cons.prems show ?thesis by simp
  qed
qed simp

lemma insertion_sort_contract: "slice_sort insertion_sort"
proof -
  have "sorted_wrt (\<lambda>x y. \<not> lt y x) (insertion_sort lt ys)"
    if "weak_order lt (set xs)" "set ys \<subseteq> set xs" for lt :: "'a \<Rightarrow> 'a \<Rightarrow> bool" and xs ys
    using that(2)
  proof (induction ys)
    case (Cons y ys)
    have "set (insertion_sort lt ys) \<subseteq> set xs"
      using Cons.prems by (metis insert_subset list.simps(15) mset_insertion_sort set_mset_mset)
    with Cons sorted_ins [OF that(1)] show ?case by (simp add: insertion_sort_def)
  qed (simp add: insertion_sort_def)
  then show ?thesis by (simp add: slice_sort_def)
qed

end
