(* ===== verification/Anomaly.thy ===== *)
theory Anomaly
  imports Trace_Model Go_Chan Go_Lib
begin

text \<open>
  \<open>pkg/anomaly/anomaly.go\<close>: running statistics per operation, the latency alert with its
  cooldown, and the two maintenance loops' bodies. The readings of the clock are an argument
  \<open>clock\<close>, one per call of \<open>time.Now\<close> in the order of the code. Sending an alert over HTTP
  is not modelled; what is sent (labels and annotations) is.
\<close>

section \<open>Data\<close>

record latency_stats =
  ls_Count :: u64
  ls_Sum :: f64
  ls_SumSq :: f64
  ls_EWMA :: f64
  ls_EWMAVar :: f64
  ls_Mean :: f64
  ls_StdDev :: f64
  ls_P50 :: f64
  ls_P95 :: f64
  ls_P99 :: f64
  ls_Alpha :: f64
  ls_LastUpdate :: gtime

record anomaly_alert =
  al_TraceID :: string
  al_SpanID :: string
  al_ServiceName :: string
  al_Operation :: string
  al_Timestamp :: gtime
  al_Severity :: string
  al_AnomalyType :: string
  al_Description :: string
  al_CurrentValue :: f64
  al_Threshold :: f64
  al_Deviation :: f64
  al_Tags :: "(string \<rightharpoonup> tag_value) option"

record alertmanager_config =
  am_Enabled :: bool
  am_URL :: string
  am_TimeoutMs :: int

record detector_config =
  dc_Alpha :: f64
  dc_DeviationThreshold :: f64
  dc_MinSamples :: int
  dc_CooldownSeconds :: int
  dc_AlertManager :: alertmanager_config

record operation_key =
  ok_ServiceName :: string
  ok_Operation :: string
  ok_Protocol :: string

text \<open>\<open>ad_stopped\<close>: the stop channel is closed.\<close>

record anomaly_detector =
  ad_stats :: "operation_key \<rightharpoonup> latency_stats"
  ad_config :: detector_config
  ad_alertChan :: "anomaly_alert list"
  ad_cooldown :: "string \<rightharpoonup> gtime"
  ad_stopped :: bool

definition alert_capacity :: nat where "alert_capacity = 10000"

definition default_detector_config :: detector_config where
  "default_detector_config =
     \<lparr>dc_Alpha = Fin (1 / 5), dc_DeviationThreshold = Fin 3, dc_MinSamples = 100,
      dc_CooldownSeconds = 60,
      dc_AlertManager = \<lparr>am_Enabled = False, am_URL = '''', am_TimeoutMs = 0\<rparr>\<rparr>"

definition NewAnomalyDetector :: "detector_config option \<Rightarrow> anomaly_detector" where
  "NewAnomalyDetector cfg =
     \<lparr>ad_stats = Map.empty,
      ad_config = (case cfg of None \<Rightarrow> default_detector_config | Some c \<Rightarrow> c),
      ad_alertChan = [], ad_cooldown = Map.empty, ad_stopped = False\<rparr>"

section \<open>Operations\<close>

definition span_key :: "span \<Rightarrow> operation_key" where
  "span_key sp = \<lparr>ok_ServiceName = sp_ServiceName sp, ok_Operation = sp_Operation sp,
     ok_Protocol = sp_Protocol sp\<rparr>"

definition new_stats :: "detector_config \<Rightarrow> gtime \<Rightarrow> latency_stats" where
  "new_stats cfg now =
     \<lparr>ls_Count = 0, ls_Sum = Fin 0, ls_SumSq = Fin 0, ls_EWMA = Fin 0, ls_EWMAVar = Fin 0,
      ls_Mean = Fin 0, ls_StdDev = Fin 0, ls_P50 = Fin 0, ls_P95 = Fin 0, ls_P99 = Fin 0,
      ls_Alpha = dc_Alpha cfg, ls_LastUpdate = now\<rparr>"

text \<open>The update of the statistics by one duration \<open>d\<close>.\<close>

definition update_stats :: "f64 \<Rightarrow> f64 \<Rightarrow> gtime \<Rightarrow> latency_stats \<Rightarrow> latency_stats" where
  "update_stats alpha d now st =
     (let st = st\<lparr>ls_Count := ls_Count st + 1,
                  ls_Sum := f_add (ls_Sum st) d,
                  ls_SumSq := f_add (ls_SumSq st) (f_mul d d),
                  ls_LastUpdate := now\<rparr>;
          st = (if f_eq (ls_EWMA st) (Fin 0)
                then st\<lparr>ls_EWMA := d, ls_EWMAVar := Fin 0\<rparr>
                else
                  let diff = f_sub d (ls_EWMA st) in
                  st\<lparr>ls_EWMA := f_add (ls_EWMA st) (f_mul alpha diff),
                     ls_EWMAVar := f_mul (f_sub (Fin 1) alpha)
                       (f_add (ls_EWMAVar st) (f_mul (f_mul alpha diff) diff))\<rparr>);
          st = st\<lparr>ls_Mean := f_div (ls_Sum st) (f_of_u64 (ls_Count st))\<rparr>
      in if 1 < ls_Count st then
           let variance = f_div
                 (f_sub (ls_SumSq st)
                    (f_div (f_mul (ls_Sum st) (ls_Sum st)) (f_of_u64 (ls_Count st))))
                 (f_of_u64 (ls_Count st - 1))
           in st\<lparr>ls_StdDev := f_sqrt (f_max (Fin 0) variance)\<rparr>
         else st)"

definition alert_threshold :: "detector_config \<Rightarrow> latency_stats \<Rightarrow> f64" where
  "alert_threshold cfg st =
     f_add (ls_EWMA st) (f_mul (dc_DeviationThreshold cfg) (f_sqrt (ls_EWMAVar st)))"

definition alert_severity :: "f64 \<Rightarrow> string" where
  "alert_severity deviation =
     (if f_lt (Fin 500) deviation then ''critical''
      else if f_lt (Fin 200) deviation then ''error'' else ''warning'')"

definition make_alert :: "f64 \<Rightarrow> latency_stats \<Rightarrow> gtime \<Rightarrow> span \<Rightarrow> anomaly_alert" where
  "make_alert threshold st now sp =
     (let deviation = f_mul (f_div (f_sub (sp_DurationMs sp) (ls_EWMA st)) (ls_EWMA st)) (Fin 100) in
      \<lparr>al_TraceID = sp_TraceID sp, al_SpanID = sp_SpanID sp, al_ServiceName = sp_ServiceName sp,
       al_Operation = sp_Operation sp, al_Timestamp = now,
       al_Severity = alert_severity deviation, al_AnomalyType = ''latency_spike'',
       al_Description = ''Latency anomaly detected: '' @ f_fixed 2 (sp_DurationMs sp) @
         ''ms exceeds threshold '' @ f_fixed 2 threshold @ ''ms'',
       al_CurrentValue = sp_DurationMs sp, al_Threshold = threshold, al_Deviation = deviation,
       al_Tags = sp_Tags sp\<rparr>)"

definition alert_key :: "operation_key \<Rightarrow> string \<Rightarrow> string" where
  "alert_key key severity =
     ok_ServiceName key @ '':'' @ ok_Operation key @ '':'' @ ok_Protocol key @ '':'' @ severity"

text \<open>\<open>t_since\<close> and \<open>t_set\<close> are the clock at \<open>time.Since\<close> and at \<open>time.Now\<close>.\<close>

definition shouldSendAlert ::
  "gtime \<Rightarrow> gtime \<Rightarrow> anomaly_detector \<Rightarrow> operation_key \<Rightarrow> string \<Rightarrow> bool \<times> anomaly_detector"
where
  "shouldSendAlert t_since t_set ad key severity =
     (let k = alert_key key severity;
          limit = wrap64 (dc_CooldownSeconds (ad_config ad) * second);
          send = (case ad_cooldown ad k of None \<Rightarrow> True | Some lastSent \<Rightarrow> limit < time_sub t_since lastSent)
      in if send then (True, ad\<lparr>ad_cooldown := (ad_cooldown ad)(k \<mapsto> t_set)\<rparr>) else (False, ad))"

definition enqueue_alert :: "anomaly_alert \<Rightarrow> anomaly_detector \<Rightarrow> anomaly_detector" where
  "enqueue_alert alert ad =
     (case chan_send alert_capacity (ad_alertChan ad) alert of
        Some q \<Rightarrow> ad\<lparr>ad_alertChan := q\<rparr>
      | None \<Rightarrow> ad)"

definition RecordSpan ::
  "(nat \<Rightarrow> gtime) \<Rightarrow> anomaly_detector \<Rightarrow> span option \<Rightarrow> anomaly_alert option \<times> anomaly_detector"
where
  "RecordSpan clock ad spo =
     (case spo of
        None \<Rightarrow> (None, ad)
      | Some sp \<Rightarrow>
          if f_le (sp_DurationMs sp) (Fin 0) then (None, ad)
          else
            let key = span_key sp;
                cfg = ad_config ad;
                st = (case ad_stats ad key of Some st \<Rightarrow> st | None \<Rightarrow> new_stats cfg (clock 0));
                st = update_stats (dc_Alpha cfg) (sp_DurationMs sp) (clock 1) st;
                ad = ad\<lparr>ad_stats := (ad_stats ad)(key \<mapsto> st)\<rparr>
            in if ls_Count st < word_of_int (dc_MinSamples cfg) then (None, ad)
               else
                 let threshold = alert_threshold cfg st in
                 if f_lt threshold (sp_DurationMs sp) then
                   let alert = make_alert threshold st (clock 2) sp in
                   case shouldSendAlert (clock 3) (clock 4) ad key (al_Severity alert) of
                     (send, ad) \<Rightarrow>
                       if send then (Some alert, enqueue_alert alert ad) else (None, ad)
                 else (None, ad))"

definition cleanupOldStats :: "gtime \<Rightarrow> anomaly_detector \<Rightarrow> anomaly_detector" where
  "cleanupOldStats now ad =
     ad\<lparr>ad_stats := (\<lambda>k. case ad_stats ad k of
         Some st \<Rightarrow> if ls_LastUpdate st < now - 3600 * second then None else Some st
       | None \<Rightarrow> None)\<rparr>"

definition cleanupOldCooldown :: "gtime \<Rightarrow> anomaly_detector \<Rightarrow> anomaly_detector" where
  "cleanupOldCooldown now ad =
     ad\<lparr>ad_cooldown := (\<lambda>k. case ad_cooldown ad k of
         Some t \<Rightarrow> if t < now - 600 * second then None else Some t
       | None \<Rightarrow> None)\<rparr>"

definition Anomaly_GetStats :: "anomaly_detector \<Rightarrow> operation_key \<Rightarrow> latency_stats option" where
  "Anomaly_GetStats ad key = ad_stats ad key"

definition Anomaly_GetAllStats :: "anomaly_detector \<Rightarrow> operation_key \<rightharpoonup> latency_stats" where
  "Anomaly_GetAllStats ad = ad_stats ad"

definition Anomaly_Stop :: "anomaly_detector \<Rightarrow> anomaly_detector go" where
  "Anomaly_Stop ad =
     (if ad_stopped ad then Inl CloseOfClosedChan else Inr (ad\<lparr>ad_stopped := True\<rparr>))"

definition IsAnomaly :: "anomaly_detector \<Rightarrow> span option \<Rightarrow> bool" where
  "IsAnomaly ad spo =
     (case spo of
        None \<Rightarrow> False
      | Some sp \<Rightarrow>
          if f_le (sp_DurationMs sp) (Fin 0) then False
          else
            case ad_stats ad (span_key sp) of
              None \<Rightarrow> False
            | Some st \<Rightarrow>
                if ls_Count st < word_of_int (dc_MinSamples (ad_config ad)) then False
                else f_lt (alert_threshold (ad_config ad) st) (sp_DurationMs sp))"

text \<open>
  A round of \<open>alertSender\<close>: it returns when the detector is stopped, otherwise it takes the
  oldest alert and sends it, and blocks while there is none (\<open>None\<close>). When both are possible
  Go chooses: \<open>prefer_stop\<close> is that choice.
\<close>

definition alertSender_recv ::
  "bool \<Rightarrow> anomaly_detector \<Rightarrow> (anomaly_alert option \<times> anomaly_detector) option"
where
  "alertSender_recv prefer_stop ad =
     (case ad_alertChan ad of
        [] \<Rightarrow> if ad_stopped ad then Some (None, ad) else None
      | alert # q \<Rightarrow>
          if ad_stopped ad \<and> prefer_stop then Some (None, ad)
          else Some (Some alert, ad\<lparr>ad_alertChan := q\<rparr>))"

text \<open>What \<open>sendAlertManager\<close> puts into the request.\<close>

definition alert_labels :: "anomaly_alert \<Rightarrow> string \<rightharpoonup> string" where
  "alert_labels a =
     [''alertname'' \<mapsto> ''LatencyAnomaly'', ''severity'' \<mapsto> al_Severity a,
      ''service'' \<mapsto> al_ServiceName a, ''operation'' \<mapsto> al_Operation a,
      ''trace_id'' \<mapsto> al_TraceID a, ''span_id'' \<mapsto> al_SpanID a,
      ''anomaly_type'' \<mapsto> al_AnomalyType a]"

definition alert_annotations :: "anomaly_alert \<Rightarrow> string \<rightharpoonup> string" where
  "alert_annotations a =
     [''description'' \<mapsto> al_Description a, ''current'' \<mapsto> f_fixed 2 (al_CurrentValue a) @ ''ms'',
      ''threshold'' \<mapsto> f_fixed 2 (al_Threshold a) @ ''ms'',
      ''deviation'' \<mapsto> f_fixed 1 (al_Deviation a) @ ''%'']"

interpretation alerts: lossy_queue enqueue_alert ad_alertChan id "\<lambda>_. alert_capacity"
  by unfold_locales (auto simp: enqueue_alert_def chan_send_def)

section \<open>The moving average\<close>

lemma update_EWMA:
  "ls_EWMA (update_stats alpha d now st) =
     (if f_eq (ls_EWMA st) (Fin 0) then d
      else f_add (ls_EWMA st) (f_mul alpha (f_sub d (ls_EWMA st))))"
  "ls_EWMAVar (update_stats alpha d now st) =
     (if f_eq (ls_EWMA st) (Fin 0) then Fin 0
      else f_mul (f_sub (Fin 1) alpha)
        (f_add (ls_EWMAVar st)
           (f_mul (f_mul alpha (f_sub d (ls_EWMA st))) (f_sub d (ls_EWMA st)))))"
  by (simp_all add: update_stats_def Let_def)

lemma update_counts:
  "ls_Count (update_stats alpha d now st) = ls_Count st + 1"
  "ls_Sum (update_stats alpha d now st) = f_add (ls_Sum st) d"
  "ls_SumSq (update_stats alpha d now st) = f_add (ls_SumSq st) (f_mul d d)"
  "ls_Mean (update_stats alpha d now st) = f_div (f_add (ls_Sum st) d) (f_of_u64 (ls_Count st + 1))"
  by (simp_all add: update_stats_def Let_def)

definition ewma_ok :: "latency_stats \<Rightarrow> bool" where
  "ewma_ok st \<longleftrightarrow> (\<exists>e v. ls_EWMA st = Fin e \<and> ls_EWMAVar st = Fin v \<and> 0 \<le> v)"

lemma ewma_ok_new [simp]: "ewma_ok (new_stats cfg now)"
  by (simp add: ewma_ok_def new_stats_def)

lemma ewma_ok_update:
  assumes "ewma_ok st" "0 \<le> a" "a \<le> 1"
  shows "ewma_ok (update_stats (Fin a) (Fin d) now st)"
proof -
  from assms(1) obtain e v where "ls_EWMA st = Fin e" "ls_EWMAVar st = Fin v" "0 \<le> v"
    by (auto simp: ewma_ok_def)
  with assms(2,3) show ?thesis
    by (auto simp: ewma_ok_def update_EWMA mult.assoc intro!: mult_nonneg_nonneg add_nonneg_nonneg)
qed

text \<open>The threshold that has just absorbed a value is never below that value.\<close>

lemma threshold_absorbs:
  fixes a e v d \<kappa> :: real
  assumes "0 \<le> v" "0 \<le> a" "a \<le> 1" "0 \<le> \<kappa>" "1 \<le> (1 + \<kappa>\<^sup>2) * a"
  shows "d \<le> e + a * (d - e) + \<kappa> * sqrt ((1 - a) * (v + a * (d - e)\<^sup>2))"
proof (cases "d \<le> e")
  case True
  then have "0 \<le> (1 - a) * (e - d)" using assms(3) by simp
  moreover have "0 \<le> \<kappa> * sqrt ((1 - a) * (v + a * (d - e)\<^sup>2))"
    using assms by simp
  ultimately show ?thesis by (simp add: algebra_simps)
next
  case False
  let ?x = "d - e"
  have "1 - a \<le> \<kappa>\<^sup>2 * a" using assms(5) by (simp add: algebra_simps)
  then have "((1 - a) * ?x\<^sup>2) * (1 - a) \<le> ((1 - a) * ?x\<^sup>2) * (\<kappa>\<^sup>2 * a)"
    by (rule mult_left_mono) (use assms(3) in simp)
  also have "\<dots> \<le> \<kappa>\<^sup>2 * ((1 - a) * (v + a * ?x\<^sup>2))"
  proof -
    have "0 \<le> \<kappa>\<^sup>2 * ((1 - a) * v)" using assms(1,3) by simp
    then show ?thesis by (simp add: algebra_simps)
  qed
  finally have "((1 - a) * ?x)\<^sup>2 \<le> \<kappa>\<^sup>2 * ((1 - a) * (v + a * ?x\<^sup>2))"
    by (simp add: power_mult_distrib power2_eq_square algebra_simps)
  then have "sqrt (((1 - a) * ?x)\<^sup>2) \<le> sqrt (\<kappa>\<^sup>2 * ((1 - a) * (v + a * ?x\<^sup>2)))"
    by (rule real_sqrt_le_mono)
  then have "(1 - a) * ?x \<le> \<kappa> * sqrt ((1 - a) * (v + a * ?x\<^sup>2))"
    using False assms(3,4) by (simp add: real_sqrt_mult)
  then show ?thesis by (simp add: algebra_simps)
qed

text \<open>\<open>quiet_config\<close>: the weight of a new value is too large for it to stand out.\<close>

definition quiet_config :: "detector_config \<Rightarrow> bool" where
  "quiet_config cfg \<longleftrightarrow>
     (\<exists>a \<kappa>. dc_Alpha cfg = Fin a \<and> dc_DeviationThreshold cfg = Fin \<kappa> \<and>
        0 \<le> a \<and> a \<le> 1 \<and> 0 \<le> \<kappa> \<and> 1 \<le> (1 + \<kappa>\<^sup>2) * a)"

lemma quiet_default [simp]: "quiet_config default_detector_config"
  unfolding quiet_config_def default_detector_config_def
  by (rule exI [of _ "1 / 5"], rule exI [of _ 3]) simp

lemma quiet_threshold:
  assumes "quiet_config cfg" "ewma_ok st"
  shows "\<not> f_lt (alert_threshold cfg (update_stats (dc_Alpha cfg) (Fin d) now st)) (Fin d)"
    and "ewma_ok (update_stats (dc_Alpha cfg) (Fin d) now st)"
proof -
  from assms(1) obtain a \<kappa> where c: "dc_Alpha cfg = Fin a" "dc_DeviationThreshold cfg = Fin \<kappa>"
    "0 \<le> a" "a \<le> 1" "0 \<le> \<kappa>" "1 \<le> (1 + \<kappa>\<^sup>2) * a"
    by (auto simp: quiet_config_def)
  show "ewma_ok (update_stats (dc_Alpha cfg) (Fin d) now st)"
    unfolding c(1) by (rule ewma_ok_update) (use assms(2) c in auto)
  from assms(2) obtain e v where s: "ls_EWMA st = Fin e" "ls_EWMAVar st = Fin v" "0 \<le> v"
    by (auto simp: ewma_ok_def)
  have "0 \<le> (1 - a) * (v + a * (d - e)\<^sup>2)" using c s(3) by simp
  then have "\<not> (1 - a) * (v + a * (d - e) * (d - e)) < 0"
    by (simp add: power2_eq_square mult.assoc)
  then show "\<not> f_lt (alert_threshold cfg (update_stats (dc_Alpha cfg) (Fin d) now st)) (Fin d)"
    using threshold_absorbs [OF s(3) c(3-6), of d e]
    by (auto simp: alert_threshold_def update_EWMA s c(1,2) power2_eq_square mult.assoc not_less)
qed

definition detector_ok :: "anomaly_detector \<Rightarrow> bool" where
  "detector_ok ad \<longleftrightarrow> (\<forall>k st. ad_stats ad k = Some st \<longrightarrow> ewma_ok st)"

lemma RecordSpan_quiet:
  assumes "quiet_config (ad_config ad)" "detector_ok ad"
    and "\<And>sp. spo = Some sp \<Longrightarrow> f_finite (sp_DurationMs sp)"
  shows "fst (RecordSpan clock ad spo) = None" "detector_ok (snd (RecordSpan clock ad spo))"
    "ad_config (snd (RecordSpan clock ad spo)) = ad_config ad"
    "ad_alertChan (snd (RecordSpan clock ad spo)) = ad_alertChan ad"
proof -
  have "fst (RecordSpan clock ad spo) = None \<and> detector_ok (snd (RecordSpan clock ad spo)) \<and>
    ad_config (snd (RecordSpan clock ad spo)) = ad_config ad \<and>
    ad_alertChan (snd (RecordSpan clock ad spo)) = ad_alertChan ad"
  proof (cases "spo = None \<or> f_le (sp_DurationMs (the spo)) (Fin 0)")
    case True
    then show ?thesis using assms(2) by (cases spo) (auto simp: RecordSpan_def)
  next
    case False
    then obtain sp where sp: "spo = Some sp" "\<not> f_le (sp_DurationMs sp) (Fin 0)" by auto
    then obtain d where d: "sp_DurationMs sp = Fin d" using assms(3) by (auto simp: f_finite_iff)
    let ?st = "case ad_stats ad (span_key sp) of Some st \<Rightarrow> st | None \<Rightarrow> new_stats (ad_config ad) (clock 0)"
    have "ewma_ok ?st" using assms(2) by (auto simp: detector_ok_def split: option.split)
    note q = quiet_threshold [OF assms(1) this, of d "clock 1"]
    have "RecordSpan clock ad spo = (None, ad\<lparr>ad_stats := (ad_stats ad)(span_key sp \<mapsto>
        update_stats (dc_Alpha (ad_config ad)) (Fin d) (clock 1) ?st)\<rparr>)"
      using sp(2) q(1) by (simp add: RecordSpan_def sp(1) d Let_def)
    with q(2) assms(2) show ?thesis by (auto simp: detector_ok_def)
  qed
  then show "fst (RecordSpan clock ad spo) = None" "detector_ok (snd (RecordSpan clock ad spo))"
    "ad_config (snd (RecordSpan clock ad spo)) = ad_config ad"
    "ad_alertChan (snd (RecordSpan clock ad spo)) = ad_alertChan ad" by simp_all
qed

fun record_all ::
  "anomaly_detector \<Rightarrow> ((nat \<Rightarrow> gtime) \<times> span) list \<Rightarrow> anomaly_alert option list \<times> anomaly_detector"
where
  "record_all ad [] = ([], ad)"
| "record_all ad ((clock, sp) # xs) =
     (case RecordSpan clock ad (Some sp) of
        (r, ad') \<Rightarrow> case record_all ad' xs of (rs, ad'') \<Rightarrow> (r # rs, ad''))"

lemma record_all_quiet:
  assumes "quiet_config (ad_config ad)" "detector_ok ad"
    and "\<forall>x\<in>set xs. f_finite (sp_DurationMs (snd x))"
  shows "fst (record_all ad xs) = replicate (length xs) None \<and>
     ad_alertChan (snd (record_all ad xs)) = ad_alertChan ad"
  using assms
proof (induction xs arbitrary: ad)
  case Nil
  then show ?case by simp
next
  case (Cons x xs)
  obtain clock sp where x: "x = (clock, sp)" by (cases x)
  with Cons.prems(3) have "f_finite (sp_DurationMs sp)" by simp
  then have q: "fst (RecordSpan clock ad (Some sp)) = None" "detector_ok (snd (RecordSpan clock ad (Some sp)))"
    "ad_config (snd (RecordSpan clock ad (Some sp))) = ad_config ad"
    "ad_alertChan (snd (RecordSpan clock ad (Some sp))) = ad_alertChan ad"
    using RecordSpan_quiet [OF Cons.prems(1,2), of "Some sp"] by auto
  obtain ad' where r: "RecordSpan clock ad (Some sp) = (None, ad')"
    using q(1) by (cases "RecordSpan clock ad (Some sp)") auto
  with q Cons.IH [of ad'] Cons.prems(1,3) show ?case
    by (simp add: x case_prod_beta)
qed

text \<open>The statistics after a list of finite durations.\<close>

definition stats_run :: "real \<Rightarrow> real list \<Rightarrow> latency_stats" where
  "stats_run a ds =
     fold (\<lambda>d. update_stats (Fin a) (Fin d) 0) ds (new_stats default_detector_config 0)"

lemma stats_run_snoc: "stats_run a (ds @ [d]) = update_stats (Fin a) (Fin d) 0 (stats_run a ds)"
  by (simp add: stats_run_def)

text \<open>The exponentially weighted mean of a list, started at its first value.\<close>

definition wmean :: "real \<Rightarrow> real list \<Rightarrow> real" where
  "wmean a ds = (case ds of [] \<Rightarrow> 0 | d # es \<Rightarrow> fold (\<lambda>x m. (1 - a) * m + a * x) es d)"

lemma wmean_snoc: "ds \<noteq> [] \<Longrightarrow> wmean a (ds @ [d]) = (1 - a) * wmean a ds + a * d"
  by (cases ds) (simp_all add: wmean_def)

lemma wmean_single [simp]: "wmean a [d] = d"
  by (simp add: wmean_def)

lemma wmean_range:
  assumes "0 \<le> a" "a \<le> 1" "ds \<noteq> []" "\<forall>d\<in>set ds. lo \<le> d \<and> d \<le> hi"
  shows "lo \<le> wmean a ds \<and> wmean a ds \<le> hi"
  using assms(3,4)
proof (induction ds rule: rev_nonempty_induct)
  case (single d)
  then show ?case by simp
next
  case (snoc d ds)
  let ?m = "wmean a ds"
  from snoc have m: "lo \<le> ?m" "?m \<le> hi" "lo \<le> d" "d \<le> hi" by simp_all
  have "(1 - a) * lo + a * lo \<le> (1 - a) * ?m + a * d"
    using m assms(1,2) by (intro add_mono mult_left_mono) simp_all
  moreover have "(1 - a) * ?m + a * d \<le> (1 - a) * hi + a * hi"
    using m assms(1,2) by (intro add_mono mult_left_mono) simp_all
  ultimately show ?case
    using snoc.hyps by (simp add: wmean_snoc algebra_simps)
qed

lemma wmean_pos:
  assumes "0 \<le> a" "a \<le> 1" "ds \<noteq> []" "\<forall>d\<in>set ds. 0 < d"
  shows "0 < wmean a ds"
proof -
  have "Min (set ds) \<le> wmean a ds"
    using wmean_range [OF assms(1-3), of "Min (set ds)" "Max (set ds)"] by simp
  moreover have "0 < Min (set ds)" using assms(3,4) by (simp add: Min_gr_iff)
  ultimately show ?thesis by linarith
qed

lemma stats_run_ewma:
  assumes "0 \<le> a" "a \<le> 1" "ds \<noteq> []" "\<forall>d\<in>set ds. 0 < d"
  shows "ls_EWMA (stats_run a ds) = Fin (wmean a ds) \<and>
     ls_EWMAVar (stats_run a ds) = Fin (wmean a (map (\<lambda>d. d\<^sup>2) ds) - (wmean a ds)\<^sup>2)"
  using assms(3,4)
proof (induction ds rule: rev_nonempty_induct)
  case (single d)
  then show ?case by (simp add: stats_run_def update_EWMA new_stats_def)
next
  case (snoc d ds)
  let ?m = "wmean a ds" and ?q = "wmean a (map (\<lambda>d. d\<^sup>2) ds)"
  from snoc have IH: "ls_EWMA (stats_run a ds) = Fin ?m" "ls_EWMAVar (stats_run a ds) = Fin (?q - ?m\<^sup>2)"
    by simp_all
  have m: "0 < ?m" using wmean_pos [OF assms(1,2) snoc.hyps] snoc.prems by simp
  have "(1 - a) * (?q - ?m\<^sup>2 + a * (d - ?m) * (d - ?m)) =
      ((1 - a) * ?q + a * d\<^sup>2) - ((1 - a) * ?m + a * d)\<^sup>2"
    by (simp add: power2_eq_square algebra_simps)
  with m IH snoc.hyps show ?case
    by (simp add: stats_run_snoc update_EWMA wmean_snoc) (simp add: algebra_simps)
qed

lemma stats_run_sums:
  "ls_Count (stats_run a ds) = of_nat (length ds) \<and> ls_Sum (stats_run a ds) = Fin (sum_list ds) \<and>
   ls_SumSq (stats_run a ds) = Fin (sum_list (map (\<lambda>d. d * d) ds))"
proof (induction ds rule: rev_induct)
  case Nil
  then show ?case by (simp add: stats_run_def new_stats_def)
next
  case (snoc d ds)
  then show ?case by (simp add: stats_run_snoc update_counts)
qed

text \<open>The sum of squared deviations from the mean, as the code computes it.\<close>

lemma sum_sq_dev:
  fixes ds :: "real list"
  shows "sum_list (map (\<lambda>d. (d - m)\<^sup>2) ds) =
     sum_list (map (\<lambda>d. d * d) ds) - 2 * m * sum_list ds + real (length ds) * m\<^sup>2"
  by (induction ds) (simp_all add: power2_eq_square algebra_simps)

lemma u64_of_length:
  assumes "n < 2 ^ 64"
  shows "f_of_u64 (of_nat n) = Fin (real n)"
proof -
  have "unat (of_nat n :: u64) = n" unfolding unat_of_nat using assms by (intro mod_less) simp
  then have "uint (of_nat n :: u64) = int n" by (simp only: uint_nat)
  then show ?thesis by (simp add: f_of_u64_def)
qed

lemma update_StdDev:
  "1 < ls_Count st + 1 \<Longrightarrow>
   ls_StdDev (update_stats alpha d now st) =
     f_sqrt (f_max (Fin 0)
       (f_div (f_sub (f_add (ls_SumSq st) (f_mul d d))
                 (f_div (f_mul (f_add (ls_Sum st) d) (f_add (ls_Sum st) d)) (f_of_u64 (ls_Count st + 1))))
              (f_of_u64 (ls_Count st))))"
  by (simp add: update_stats_def Let_def)

lemma stats_run_mean_dev:
  assumes "2 \<le> length ds" "length ds < 2 ^ 64"
  shows "ls_Mean (stats_run a ds) = Fin (sum_list ds / real (length ds)) \<and>
     ls_StdDev (stats_run a ds) =
       Fin (sqrt (sum_list (map (\<lambda>d. (d - sum_list ds / real (length ds))\<^sup>2) ds) / (real (length ds) - 1)))"
proof -
  obtain es e where ds: "ds = es @ [e]" using assms(1) by (cases ds rule: rev_exhaust) auto
  let ?n = "length es" and ?S = "sum_list ds" and ?Q = "sum_list (map (\<lambda>d. d * d) ds)"
  from assms ds have n: "1 \<le> ?n" "?n < 2 ^ 64" "Suc ?n < 2 ^ 64" by simp_all
  have c: "f_of_u64 (ls_Count (stats_run a es)) = Fin (real ?n)"
    "f_of_u64 (ls_Count (stats_run a es) + 1) = Fin (real (Suc ?n))"
    using stats_run_sums [of a es] u64_of_length [OF n(2)] u64_of_length [OF n(3)]
    by (simp_all add: add.commute)
  have "unat (ls_Count (stats_run a es) + 1) = Suc ?n"
  proof -
    have "ls_Count (stats_run a es) + 1 = of_nat (Suc ?n)" using stats_run_sums [of a es] by simp
    then show ?thesis using n(3) by (simp only: unat_of_nat) (simp add: take_bit_eq_mod)
  qed
  then have gt: "1 < ls_Count (stats_run a es) + 1"
    using n(1) by (cases es) (simp_all add: word_less_nat_alt)
  let ?m = "?S / real (Suc ?n)"
  have dev: "sum_list (map (\<lambda>d. (d - ?m)\<^sup>2) ds) = ?Q - ?S * ?S / real (Suc ?n)"
  proof -
    have "q - 2 * (x / k) * x + k * (x / k)\<^sup>2 = q - x * x / k" if "k \<noteq> 0" for q x k :: real
      using that by (simp add: power2_eq_square)
    moreover have "real (length ds) = real (Suc ?n)" by (simp add: ds)
    ultimately show ?thesis unfolding sum_sq_dev by simp
  qed
  have "0 \<le> sum_list (map (\<lambda>d. (d - ?m)\<^sup>2) ds)" by (rule sum_list_nonneg) auto
  then have nonneg: "0 \<le> (?Q - ?S * ?S / real (Suc ?n)) / real ?n"
    unfolding dev by (rule divide_nonneg_nonneg) simp
  have mean: "ls_Mean (stats_run a ds) = Fin ?m"
    using stats_run_sums [of a es] c by (simp add: ds stats_run_snoc update_counts)
  have "ls_StdDev (stats_run a ds) = f_sqrt (f_max (Fin 0) (Fin ((?Q - ?S * ?S / real (Suc ?n)) / real ?n)))"
    using stats_run_sums [of a es] c n(1) gt
    by (cases "es = []") (simp_all add: ds stats_run_snoc update_StdDev [OF gt])
  also have "\<dots> = Fin (sqrt ((?Q - ?S * ?S / real (Suc ?n)) / real ?n))"
    using nonneg by (simp add: max_def)
  finally show ?thesis using mean dev by (simp add: ds)
qed

section \<open>Sequences of alerts\<close>

text \<open>A request for an alert: the two clock readings, the operation and the severity.\<close>

type_synonym alert_request = "gtime \<times> gtime \<times> operation_key \<times> string"

definition rq_since :: "alert_request \<Rightarrow> gtime" where "rq_since c = fst c"
definition rq_set :: "alert_request \<Rightarrow> gtime" where "rq_set c = fst (snd c)"
definition rq_key :: "alert_request \<Rightarrow> string" where
  "rq_key c = alert_key (fst (snd (snd c))) (snd (snd (snd c)))"

fun alert_run :: "anomaly_detector \<Rightarrow> alert_request list \<Rightarrow> bool list \<times> anomaly_detector" where
  "alert_run ad [] = ([], ad)"
| "alert_run ad (c # cs) =
     (case shouldSendAlert (rq_since c) (rq_set c) ad (fst (snd (snd c))) (snd (snd (snd c))) of
        (b, ad') \<Rightarrow> case alert_run ad' cs of (bs, ad'') \<Rightarrow> (b # bs, ad''))"

lemma shouldSendAlert_cases:
  assumes "shouldSendAlert (rq_since c) (rq_set c) ad (fst (snd (snd c))) (snd (snd (snd c))) = (b, ad')"
  shows "ad_config ad' = ad_config ad"
    and "ad_cooldown ad' = (if b then (ad_cooldown ad)(rq_key c \<mapsto> rq_set c) else ad_cooldown ad)"
    and "b \<Longrightarrow> ad_cooldown ad (rq_key c) = Some u \<Longrightarrow>
         wrap64 (dc_CooldownSeconds (ad_config ad) * second) < time_sub (rq_since c) u"
  using assms
  by (auto simp: shouldSendAlert_def Let_def rq_key_def [symmetric] split: if_splits option.splits)

lemma time_sub_antimono: "u \<le> v \<Longrightarrow> time_sub t v \<le> time_sub t u"
  by (simp add: time_sub_def)

lemma alert_run_after:
  assumes "sorted (map rq_set cs)" "\<forall>c\<in>set cs. u \<le> rq_set c"
    and "ad_cooldown ad (rq_key (cs ! j)) = Some u" "j < length cs" "fst (alert_run ad cs) ! j"
  shows "wrap64 (dc_CooldownSeconds (ad_config ad) * second) < time_sub (rq_since (cs ! j)) u"
  using assms
proof (induction cs arbitrary: ad u j)
  case Nil
  then show ?case by simp
next
  case (Cons c cs)
  obtain b ad' where s: "shouldSendAlert (rq_since c) (rq_set c) ad (fst (snd (snd c)))
      (snd (snd (snd c))) = (b, ad')" by fastforce
  note step = shouldSendAlert_cases [OF s]
  show ?case
  proof (cases j)
    case 0
    with Cons.prems(3,5) s have b: "b" "ad_cooldown ad (rq_key c) = Some u"
      by (simp_all add: case_prod_beta)
    from step(3) [OF this] 0 show ?thesis by simp
  next
    case (Suc i)
    let ?k = "rq_key (cs ! i)"
    define u' where "u' = (if b \<and> rq_key c = ?k then rq_set c else u)"
    have "ad_cooldown ad' ?k = Some u'"
      using Cons.prems(3) Suc step(2) by (simp add: u'_def)
    moreover have "u \<le> u'" "\<forall>c\<in>set cs. u' \<le> rq_set c"
      using Cons.prems(1,2) by (auto simp: u'_def)
    moreover have "fst (alert_run ad' cs) ! i"
      using Cons.prems(5) Suc s by (simp add: case_prod_beta)
    ultimately have "wrap64 (dc_CooldownSeconds (ad_config ad') * second) < time_sub (rq_since (cs ! i)) u'"
      using Cons.IH [of u' ad' i] Cons.prems(1,4) Suc by simp
    also have "\<dots> \<le> time_sub (rq_since (cs ! i)) u"
      by (rule time_sub_antimono) fact
    finally show ?thesis using Suc step(1) by simp
  qed
qed

lemma alert_run_spacing:
  assumes "sorted (map rq_set calls)" "i < j" "j < length calls"
    and "fst (alert_run ad calls) ! i" "fst (alert_run ad calls) ! j"
    and "rq_key (calls ! i) = rq_key (calls ! j)"
  shows "wrap64 (dc_CooldownSeconds (ad_config ad) * second) <
     time_sub (rq_since (calls ! j)) (rq_set (calls ! i))"
  using assms
proof (induction calls arbitrary: ad i j)
  case Nil
  then show ?case by simp
next
  case (Cons c cs)
  obtain b ad' where s: "shouldSendAlert (rq_since c) (rq_set c) ad (fst (snd (snd c)))
      (snd (snd (snd c))) = (b, ad')" by fastforce
  note step = shouldSendAlert_cases [OF s]
  obtain j' where j: "j = Suc j'" using Cons.prems(2) by (cases j) auto
  have gj: "fst (alert_run ad' cs) ! j'" "j' < length cs"
    using Cons.prems(3,5) j s by (simp_all add: case_prod_beta)
  show ?case
  proof (cases i)
    case 0
    with Cons.prems(4,6) s j have "b" "rq_key c = rq_key (cs ! j')"
      by (simp_all add: case_prod_beta)
    then have "ad_cooldown ad' (rq_key (cs ! j')) = Some (rq_set c)"
      using step(2) by simp
    from alert_run_after [OF _ _ this gj(2,1)] Cons.prems(1) 0 j step(1) show ?thesis by simp
  next
    case (Suc i')
    with Cons.IH [of i' j' ad'] Cons.prems j gj s step(1) show ?thesis
      by (simp add: case_prod_beta)
  qed
qed

lemma RecordSpan_chan:
  "ad_alertChan (snd (RecordSpan clock ad spo)) =
     (case fst (RecordSpan clock ad spo) of
        None \<Rightarrow> ad_alertChan ad
      | Some a \<Rightarrow> ad_alertChan (enqueue_alert a ad))"
  by (auto simp: RecordSpan_def Let_def shouldSendAlert_def enqueue_alert_def
      split: option.split prod.split)

lemma record_all_chan:
  "length (ad_alertChan ad) \<le> alert_capacity \<Longrightarrow>
   ad_alertChan (snd (record_all ad xs)) =
     ad_alertChan ad @ take (alert_capacity - length (ad_alertChan ad))
       (List.map_filter (\<lambda>a. a) (fst (record_all ad xs)))"
proof (induction xs arbitrary: ad)
  case Nil
  then show ?case by simp
next
  case (Cons x xs)
  obtain clock sp where x: "x = (clock, sp)" by (cases x)
  obtain r ad' where r: "RecordSpan clock ad (Some sp) = (r, ad')" by fastforce
  have chan: "ad_alertChan ad' = (case r of None \<Rightarrow> ad_alertChan ad | Some a \<Rightarrow> ad_alertChan (enqueue_alert a ad))"
    using RecordSpan_chan [of clock ad "Some sp"] by (simp add: r)
  then have len: "length (ad_alertChan ad') \<le> alert_capacity"
    using Cons.prems alerts.bounded [of ad] by (auto split: option.splits)
  show ?case
  proof (cases r)
    case None
    with chan Cons.IH [OF len] show ?thesis by (simp add: x r case_prod_beta map_filter_simps)
  next
    case (Some a)
    let ?n = "alert_capacity - length (ad_alertChan ad)"
    let ?ys = "List.map_filter (\<lambda>a. a) (fst (record_all ad' xs))"
    have a: "ad_alertChan ad' = ad_alertChan ad @ take ?n [a]"
      using chan Some alerts.keeps_oldest [OF Cons.prems, of "[a]"] by simp
    have "take ?n [a] @ take (?n - length (take ?n [a])) ?ys = take ?n (a # ?ys)"
      by (cases ?n) simp_all
    moreover have "alert_capacity - length (ad_alertChan ad') = ?n - length (take ?n [a])"
      by (simp add: a)
    ultimately show ?thesis
      using Cons.IH [OF len] Some by (simp add: x r case_prod_beta map_filter_simps a)
  qed
qed

section \<open>Properties\<close>

text \<open>
  C33: With the default configuration the detector is silent: whatever finite durations it
  records, \<open>RecordSpan\<close> never returns an alert and never sends one. The threshold is
  computed after the average and the variance have absorbed the new value, and with
  \<open>alpha = 0.2\<close> and three deviations (any pair with $(1+k^2)\alpha \ge 1$) no value can
  exceed a threshold it has moved itself.
\<close>

theorem anomaly_default_silent:
  assumes "quiet_config (case cfg of None \<Rightarrow> default_detector_config | Some c \<Rightarrow> c)"
    and "\<forall>x\<in>set xs. f_finite (sp_DurationMs (snd x))"
  shows "fst (record_all (NewAnomalyDetector cfg) xs) = replicate (length xs) None \<and>
     ad_alertChan (snd (record_all (NewAnomalyDetector cfg) xs)) = []"
  using record_all_quiet [of "NewAnomalyDetector cfg" xs] assms
  by (simp add: NewAnomalyDetector_def detector_ok_def)

definition timed_span :: "real \<Rightarrow> span" where
  "timed_span d = (ConvertRawEventToSpan zero_event '''' '''')\<lparr>sp_DurationMs := Fin d\<rparr>"

lemma timed_span_duration [simp]: "sp_DurationMs (timed_span d) = Fin d"
  by (simp add: timed_span_def)

theorem anomaly_default_silent_witness:
  "fst (record_all (NewAnomalyDetector None)
       (replicate 200 (\<lambda>_. 0, timed_span 1) @ [(\<lambda>_. 0, timed_span (10 ^ 9))])) =
     replicate 201 None"
  using anomaly_default_silent [of None
      "replicate 200 (\<lambda>_. 0, timed_span 1) @ [(\<lambda>_. 0, timed_span (10 ^ 9))]"]
  by simp

text \<open>
  The two tests of the detector disagree: \<open>IsAnomaly\<close> flags exactly the durations
  above mean plus \<open>k\<close> deviations of the statistics recorded so far, yet recording the very
  same span raises no alert.
\<close>

theorem anomaly_flagged_not_alerted:
  assumes "quiet_config (ad_config ad)" "detector_ok ad"
    and "ad_stats ad (span_key sp) = Some st" "ls_EWMA st = Fin e" "ls_EWMAVar st = Fin v"
    and "dc_DeviationThreshold (ad_config ad) = Fin \<kappa>" "sp_DurationMs sp = Fin d" "0 < d"
  shows "(IsAnomaly ad (Some sp) \<longleftrightarrow>
            word_of_int (dc_MinSamples (ad_config ad)) \<le> ls_Count st \<and> e + \<kappa> * sqrt v < d) \<and>
     fst (RecordSpan clock ad (Some sp)) = None"
proof -
  have "ewma_ok st" using assms(2,3) unfolding detector_ok_def by blast
  then have "0 \<le> v" using assms(5) by (auto simp: ewma_ok_def)
  with RecordSpan_quiet(1) [OF assms(1,2), of "Some sp"] assms(3-8) show ?thesis
    by (auto simp: IsAnomaly_def alert_threshold_def not_less)
qed

definition steady_stats :: latency_stats where
  "steady_stats = (new_stats default_detector_config 0)\<lparr>ls_Count := 100, ls_EWMA := Fin 10\<rparr>"

definition steady_detector :: anomaly_detector where
  "steady_detector = (NewAnomalyDetector None)
     \<lparr>ad_stats := [span_key (timed_span 0) \<mapsto> steady_stats]\<rparr>"

theorem anomaly_flagged_not_alerted_witness:
  "IsAnomaly steady_detector (Some (timed_span 5000)) \<and>
   fst (RecordSpan (\<lambda>_. 0) steady_detector (Some (timed_span 5000))) = None"
proof -
  have "span_key (timed_span 5000) = span_key (timed_span 0)"
    by (simp add: span_key_def timed_span_def)
  then have st: "ad_stats steady_detector (span_key (timed_span 5000)) = Some steady_stats"
    by (simp add: steady_detector_def)
  have "quiet_config (ad_config steady_detector)" "detector_ok steady_detector"
    by (simp_all add: steady_detector_def NewAnomalyDetector_def detector_ok_def steady_stats_def
        ewma_ok_def new_stats_def)
  from anomaly_flagged_not_alerted [OF this st, of 10 0 3 5000 "\<lambda>_. 0"] show ?thesis
    by (simp add: steady_stats_def new_stats_def steady_detector_def NewAnomalyDetector_def
        default_detector_config_def)
qed

text \<open>
  C32: What the detector tracks is what its names say: after any positive durations
  \<open>EWMA\<close> is their exponentially weighted mean and \<open>EWMAVar\<close> their exponentially
  weighted variance, the weighted mean of the squares minus the square of the mean.
\<close>

theorem ewma_is_weighted_variance:
  assumes "0 \<le> a" "a \<le> 1" "ds \<noteq> []" "\<forall>d\<in>set ds. 0 < d"
  shows "ls_EWMA (stats_run a ds) = Fin (wmean a ds) \<and>
     ls_EWMAVar (stats_run a ds) = Fin (wmean a (map (\<lambda>d. d\<^sup>2) ds) - (wmean a ds)\<^sup>2)"
  by (rule stats_run_ewma [OF assms])

theorem ewma_is_weighted_variance_witness:
  "ls_EWMAVar (stats_run (1 / 2) [2, 4]) = Fin 1"
  using ewma_is_weighted_variance [of "1 / 2" "[2, 4]"] by (simp add: wmean_def)

text \<open>
  \<open>Mean\<close> and \<open>StdDev\<close> of at least two recorded durations are their average and their
  sample standard deviation, so the clipping of the variance at 0 never hides anything.
\<close>

theorem mean_and_deviation:
  assumes "2 \<le> length ds" "length ds < 2 ^ 64"
  shows "ls_Mean (stats_run a ds) = Fin (sum_list ds / real (length ds)) \<and>
     ls_StdDev (stats_run a ds) =
       Fin (sqrt (sum_list (map (\<lambda>d. (d - sum_list ds / real (length ds))\<^sup>2) ds) / (real (length ds) - 1)))"
  by (rule stats_run_mean_dev [OF assms])

theorem mean_and_deviation_witness:
  "ls_Mean (stats_run (1 / 5) [2, 4]) = Fin 3 \<and> ls_StdDev (stats_run (1 / 5) [2, 4]) = Fin (sqrt 2)"
  using mean_and_deviation [of "[2, 4]" "1 / 5"] by simp

text \<open>
  The moving average stays between the smallest and the largest duration recorded.
\<close>

theorem ewma_between_extremes:
  assumes "0 \<le> a" "a \<le> 1" "ds \<noteq> []" "\<forall>d\<in>set ds. 0 < d \<and> lo \<le> d \<and> d \<le> hi"
  shows "f_le (Fin lo) (ls_EWMA (stats_run a ds)) \<and> f_le (ls_EWMA (stats_run a ds)) (Fin hi)"
  using stats_run_ewma [OF assms(1-3)] wmean_range [OF assms(1-3), of lo hi] assms(4) by simp

theorem ewma_between_extremes_witness:
  "f_le (Fin 2) (ls_EWMA (stats_run (1 / 5) [4, 2, 3])) \<and> f_le (ls_EWMA (stats_run (1 / 5) [4, 2, 3])) (Fin 4)"
  by (rule ewma_between_extremes) simp_all

text \<open>
  Two alerts of the same operation and severity are at least a cooldown apart: in any
  sequence of requests with a clock that does not run backwards, a request is granted only
  when more than the cooldown has passed since every earlier grant of the same key.
\<close>

theorem cooldown_spacing:
  assumes "sorted (map rq_set calls)" "i < j" "j < length calls"
    and "fst (alert_run ad calls) ! i" "fst (alert_run ad calls) ! j"
    and "rq_key (calls ! i) = rq_key (calls ! j)"
  shows "wrap64 (dc_CooldownSeconds (ad_config ad) * second) <
     time_sub (rq_since (calls ! j)) (rq_set (calls ! i))"
  by (rule alert_run_spacing [OF assms])

theorem cooldown_spacing_witness:
  "fst (alert_run (NewAnomalyDetector None) [(0, 0, span_key (timed_span 1), ''warning''),
      (61 * second, 61 * second, span_key (timed_span 1), ''warning'')]) = [True, True] \<and>
   wrap64 (60 * second) < time_sub (61 * second) 0"
proof -
  let ?calls = "[(0, 0, span_key (timed_span 1), ''warning''),
      (61 * second, 61 * second, span_key (timed_span 1), ''warning'')]"
  have run: "fst (alert_run (NewAnomalyDetector None) ?calls) = [True, True]"
    by (simp add: shouldSendAlert_def NewAnomalyDetector_def default_detector_config_def second_def
        wrap64_def time_sub_def max_int64_def min_int64_def rq_since_def rq_set_def Let_def)
  from cooldown_spacing [of ?calls 0 1 "NewAnomalyDetector None"] run show ?thesis
    by (simp add: rq_set_def rq_key_def rq_since_def NewAnomalyDetector_def default_detector_config_def
        second_def)
qed

text \<open>
  Without a sender the alert channel holds exactly the first 10000 alerts that
  \<open>RecordSpan\<close> returned; later ones are returned to the caller but dropped from the channel.
\<close>

theorem alert_channel_keeps_first:
  "ad_alertChan (snd (record_all (NewAnomalyDetector cfg) xs)) =
     take 10000 (List.map_filter (\<lambda>a. a) (fst (record_all (NewAnomalyDetector cfg) xs)))"
  using record_all_chan [of "NewAnomalyDetector cfg" xs]
  by (simp add: NewAnomalyDetector_def alert_capacity_def)



end
