(* ===== verification/Span_Walk.thy ===== *)
theory Span_Walk
  imports Trace_Tree Go_Lib
begin

text \<open>
  The recursion that the flame graph and the compressor share: it walks the spans under a
  root, sorts the children of every span by their start, in place, and makes a value out of a
  span and the values of its children. The locale \<open>span_walk\<close> says what such a recursion
  computes and what it leaves in the heap; the two components interpret it.
\<close>

section \<open>Trees of spans\<close>

fun preorder :: "span_tree \<Rightarrow> addr list" where
  "preorder (SNode a ts) = a # concat (map preorder ts)"

lemma unfold_tree_Some:
  "unfold_tree h (Suc n) a = Some t \<longleftrightarrow>
   (\<exists>s ts. h a = Some s \<and> t = SNode a ts \<and> map (unfold_tree h n) (sp_Children s) = map Some ts)"
proof -
  have "those xs = Some ys \<longleftrightarrow> xs = map Some ys" for xs :: "span_tree option list" and ys
    by (induction xs arbitrary: ys) (auto split: option.splits)
  then show ?thesis by (auto split: option.split)
qed

lemma unfold_tree_root: "unfold_tree h n a = Some t \<Longrightarrow> a \<in> set (preorder t) \<and> h a \<noteq> None \<and> st_root t = a"
  by (cases n) (auto simp: unfold_tree_Some simp del: unfold_tree.simps(2) split: option.splits)

lemma unfold_tree_kids:
  assumes "\<And>b. b \<in> set (preorder t) \<Longrightarrow> map_option sp_Children (h' b) = map_option sp_Children (h b)"
  shows "unfold_tree h n a = Some t \<Longrightarrow> unfold_tree h' n a = Some t"
  using assms
proof (induction n arbitrary: a t)
  case (Suc n)
  from Suc.prems(1) obtain s ts where s: "h a = Some s" "t = SNode a ts"
    and ts: "map (unfold_tree h n) (sp_Children s) = map Some ts"
    by (auto simp: unfold_tree_Some simp del: unfold_tree.simps)
  have len: "length ts = length (sp_Children s)" using ts by (metis length_map)
  have "map (unfold_tree h' n) (sp_Children s) = map Some ts"
  proof (rule nth_equalityI)
    fix i assume "i < length (map (unfold_tree h' n) (sp_Children s))"
    then have i: "i < length ts" by (simp add: len)
    then have "unfold_tree h n (sp_Children s ! i) = Some (ts ! i)"
      using ts len by (metis nth_map)
    moreover have "map_option sp_Children (h' b) = map_option sp_Children (h b)"
      if "b \<in> set (preorder (ts ! i))" for b
      by (rule Suc.prems(2)) (use that i s(2) in auto)
    ultimately have "unfold_tree h' n (sp_Children s ! i) = Some (ts ! i)" by (rule Suc.IH)
    with i len show "map (unfold_tree h' n) (sp_Children s) ! i = map Some ts ! i" by simp
  qed (simp add: len)
  moreover obtain s' where "h' a = Some s'" "sp_Children s' = sp_Children s"
    using s Suc.prems(2) [of a] by auto
  ultimately show ?case using s(2) by (auto simp: unfold_tree_Some simp del: unfold_tree.simps)
qed simp

lemma unfold_tree_cong:
  "(\<And>b. b \<in> set (preorder t) \<Longrightarrow> h' b = h b) \<Longrightarrow> unfold_tree h n a = Some t \<Longrightarrow> unfold_tree h' n a = Some t"
  by (rule unfold_tree_kids) simp_all

lemma unfold_trees_cong:
  assumes "map (unfold_tree h n) bs = map Some ts"
    "\<And>b. b \<in> set (concat (map preorder ts)) \<Longrightarrow> h' b = h b"
  shows "map (unfold_tree h' n) bs = map Some ts"
proof -
  have len: "length ts = length bs" using assms(1) by (metis length_map)
  show ?thesis
  proof (rule nth_equalityI)
    fix i assume "i < length (map (unfold_tree h' n) bs)"
    then have i: "i < length bs" by simp
    with assms(1) len have u: "unfold_tree h n (bs ! i) = Some (ts ! i)" by (metis nth_map)
    have "h' b = h b" if "b \<in> set (preorder (ts ! i))" for b
      by (rule assms(2)) (use that i len in auto)
    then have "unfold_tree h' n (bs ! i) = Some (ts ! i)" using unfold_tree_cong u by blast
    with i len show "map (unfold_tree h' n) bs ! i = map Some ts ! i" by simp
  qed (simp add: len)
qed

lemma unfold_trees_roots: "map (unfold_tree h n) bs = map Some ts \<Longrightarrow> map st_root ts = bs"
proof (induction bs arbitrary: ts)
  case (Cons b bs)
  then show ?case using unfold_tree_root by (cases ts) auto
qed simp

lemma mset_concat_map: "mset xs = mset ys \<Longrightarrow> mset (concat (map f xs)) = mset (concat (map f ys))"
  by (simp add: mset_concat flip: mset_map sum_mset_sum_list) (metis mset_map)

text \<open>The comparison of both sorts: two children by their start.\<close>

definition starts_before :: "heap \<Rightarrow> addr \<Rightarrow> addr \<Rightarrow> bool" where
  "starts_before h a b \<longleftrightarrow> sp_StartTime (the (h a)) < sp_StartTime (the (h b))"

fun tree_sorted :: "heap \<Rightarrow> span_tree \<Rightarrow> bool" where
  "tree_sorted h (SNode a ts) \<longleftrightarrow>
     sorted (map (\<lambda>t. sp_StartTime (the (h (st_root t)))) ts) \<and> list_all (tree_sorted h) ts"

text \<open>The value of a tree, made bottom up; \<open>down\<close> changes what the recursion hands to a child.\<close>

fun fold_tree ::
  "('i \<Rightarrow> span \<Rightarrow> 'b list \<Rightarrow> 'b) \<Rightarrow> ('i \<Rightarrow> 'i) \<Rightarrow> heap \<Rightarrow> 'i \<Rightarrow> span_tree \<Rightarrow> 'b"
where
  "fold_tree node down h i (SNode a ts) = node i (the (h a)) (map (fold_tree node down h (down i)) ts)"

section \<open>Only the order of children changes\<close>

definition reordered :: "heap \<Rightarrow> heap \<Rightarrow> addr set \<Rightarrow> bool" where
  "reordered h h' A \<longleftrightarrow>
     (\<forall>b. b \<notin> A \<longrightarrow> h' b = h b) \<and>
     (\<forall>b\<in>A. \<exists>s cs. h b = Some s \<and> h' b = Some (s\<lparr>sp_Children := cs\<rparr>) \<and>
        mset cs = mset (sp_Children s))"

lemma reordered_empty [simp]: "reordered h h {}"
  by (simp add: reordered_def)

lemma reordered_outside: "reordered h h' A \<Longrightarrow> b \<notin> A \<Longrightarrow> h' b = h b"
  by (simp add: reordered_def)

lemma reordered_trans:
  assumes "reordered h h1 A" "reordered h1 h2 B" "A \<inter> B = {}"
  shows "reordered h h2 (A \<union> B)"
  unfolding reordered_def
proof (intro conjI allI impI ballI)
  fix b assume "b \<notin> A \<union> B"
  with assms show "h2 b = h b" by (simp add: reordered_def)
next
  fix b assume b: "b \<in> A \<union> B"
  show "\<exists>s cs. h b = Some s \<and> h2 b = Some (s\<lparr>sp_Children := cs\<rparr>) \<and> mset cs = mset (sp_Children s)"
  proof (cases "b \<in> A")
    case True
    with assms(3) have "h2 b = h1 b" using reordered_outside [OF assms(2)] by auto
    with True assms(1) show ?thesis by (simp add: reordered_def)
  next
    case False
    with b have "b \<in> B" "h1 b = h b" using reordered_outside [OF assms(1)] by auto
    with assms(2) show ?thesis unfolding reordered_def by metis
  qed
qed

lemma reordered_at:
  assumes "reordered h h' A"
  shows "h' b = None \<longleftrightarrow> h b = None" "\<exists>cs. the (h' b) = the (h b)\<lparr>sp_Children := cs\<rparr>"
proof -
  have "h' b = h b \<or> (\<exists>s cs. h b = Some s \<and> h' b = Some (s\<lparr>sp_Children := cs\<rparr>))"
    using assms unfolding reordered_def by blast
  then show "h' b = None \<longleftrightarrow> h b = None" by auto
  have "the (h b) = the (h b)\<lparr>sp_Children := sp_Children (the (h b))\<rparr>" by simp
  with \<open>h' b = h b \<or> _\<close> show "\<exists>cs. the (h' b) = the (h b)\<lparr>sp_Children := cs\<rparr>"
    by (metis option.sel)
qed

lemma reordered_children:
  assumes "reordered h h' A" "h b = Some s" "h' b = Some s'"
  shows "mset (sp_Children s') = mset (sp_Children s)"
proof (cases "b \<in> A")
  case True
  with assms obtain cs where "s' = s\<lparr>sp_Children := cs\<rparr>" "mset cs = mset (sp_Children s)"
    unfolding reordered_def by (metis option.sel)
  then show ?thesis by simp
next
  case False
  with assms reordered_outside [OF assms(1)] show ?thesis by simp
qed

lemma reordered_comp:
  assumes "reordered h g A" "reordered g k B"
  shows "reordered h k (A \<union> B)"
  unfolding reordered_def
proof (intro conjI allI impI ballI)
  fix b assume "b \<notin> A \<union> B"
  with assms show "k b = h b" by (simp add: reordered_def)
next
  fix b assume b: "b \<in> A \<union> B"
  have at: "h b \<noteq> None" using b assms unfolding reordered_def by (metis UnE option.simps(3))
  then obtain s where s: "h b = Some s" by blast
  with reordered_at(1) [OF assms(1), of b] obtain s1 where s1: "g b = Some s1" by auto
  with reordered_at(1) [OF assms(2), of b] obtain s2 where s2: "k b = Some s2" by auto
  obtain cs1 where "s1 = s\<lparr>sp_Children := cs1\<rparr>"
    using reordered_at(2) [OF assms(1), of b] s s1 by auto
  moreover obtain cs2 where "s2 = s1\<lparr>sp_Children := cs2\<rparr>"
    using reordered_at(2) [OF assms(2), of b] s1 s2 by auto
  moreover have "mset (sp_Children s2) = mset (sp_Children s)"
    using reordered_children [OF assms(1) s s1] reordered_children [OF assms(2) s1 s2] by simp
  ultimately show "\<exists>s cs. h b = Some s \<and> k b = Some (s\<lparr>sp_Children := cs\<rparr>) \<and> mset cs = mset (sp_Children s)"
    using s s2 by (intro exI [of _ s] exI [of _ cs2]) simp
qed

lemma reordered_start: "reordered h h' A \<Longrightarrow> sp_StartTime (the (h' b)) = sp_StartTime (the (h b))"
  using reordered_at(2) [of h h' A b] by auto

lemma reordered_sorted: "reordered h h' A \<Longrightarrow> tree_sorted h' t \<longleftrightarrow> tree_sorted h t"
  by (induction t rule: tree_sorted.induct) (simp add: reordered_start list_all_iff)

lemma reordered_fold:
  assumes "reordered h h' A" "\<And>i s cs. node i (s\<lparr>sp_Children := cs\<rparr>) = node i s"
  shows "fold_tree node down h' i t = fold_tree node down h i t"
proof (induction t arbitrary: i)
  case (SNode a ts)
  obtain cs where "the (h' a) = the (h a)\<lparr>sp_Children := cs\<rparr>"
    using reordered_at(2) [OF assms(1)] by blast
  then have "node i (the (h' a)) = node i (the (h a))" by (simp add: assms(2))
  with SNode show ?case by (simp cong: map_cong)
qed

section \<open>The recursion\<close>

locale span_walk =
  fixes srt :: "(addr \<Rightarrow> addr \<Rightarrow> bool) \<Rightarrow> addr list \<Rightarrow> addr list"
    and walk :: "'i \<Rightarrow> nat \<Rightarrow> addr \<Rightarrow> heap \<Rightarrow> ('b \<times> heap) go"
    and walks :: "'i \<Rightarrow> nat \<Rightarrow> addr list \<Rightarrow> heap \<Rightarrow> ('b list \<times> heap) go"
    and node :: "'i \<Rightarrow> span \<Rightarrow> 'b list \<Rightarrow> 'b"
    and down :: "'i \<Rightarrow> 'i"
  assumes walk_leaf: "h a = Some s \<Longrightarrow> sp_Children s = [] \<Longrightarrow> walk i (Suc n) a h = Inr (node i s [], h)"
    and walk_node: "h a = Some s \<Longrightarrow> sp_Children s \<noteq> [] \<Longrightarrow> \<forall>c\<in>set (sp_Children s). h c \<noteq> None \<Longrightarrow>
      walk i (Suc n) a h =
        (let cs = srt (starts_before h) (sp_Children s) in
         go_bind (walks (down i) n cs (h(a \<mapsto> s\<lparr>sp_Children := cs\<rparr>))) (\<lambda>(vs, h). Inr (node i s vs, h)))"
    and walks_Nil: "walks i n [] h = Inr ([], h)"
    and walks_Cons: "walks i n (c # cs) h =
        go_bind (walk i n c h) (\<lambda>(v, h). go_bind (walks i n cs h) (\<lambda>(vs, h). Inr (v # vs, h)))"
    and node_children: "node i (s\<lparr>sp_Children := cs\<rparr>) = node i s"
begin

text \<open>What a walk does to a tree, and what a list of walks does to a list of trees.\<close>

definition walked :: "'i \<Rightarrow> nat \<Rightarrow> addr \<Rightarrow> heap \<Rightarrow> span_tree \<Rightarrow> bool" where
  "walked i n a h t \<longleftrightarrow>
     (\<exists>t' h'. walk i n a h = Inr (fold_tree node down h i t', h') \<and> unfold_tree h' n a = Some t' \<and>
        mset (preorder t') = mset (preorder t) \<and> tree_sorted h t' \<and>
        reordered h h' (set (preorder t)))"

lemma walked_list:
  assumes one: "\<And>b t h. unfold_tree h n b = Some t \<Longrightarrow> distinct (preorder t) \<Longrightarrow> walked i n b h t"
  shows "map (unfold_tree h n) bs = map Some ts \<Longrightarrow> distinct (concat (map preorder ts)) \<Longrightarrow>
    \<exists>ts' h'. walks i n bs h = Inr (map (fold_tree node down h i) ts', h') \<and>
      map (unfold_tree h' n) bs = map Some ts' \<and>
      mset (concat (map preorder ts')) = mset (concat (map preorder ts)) \<and>
      list_all (tree_sorted h) ts' \<and> reordered h h' (set (concat (map preorder ts)))"
proof (induction bs arbitrary: ts h)
  case Nil
  then show ?case by (simp add: walks_Nil)
next
  case (Cons b bs)
  then obtain t us where ts: "ts = t # us" "unfold_tree h n b = Some t"
      "map (unfold_tree h n) bs = map Some us"
    by (cases ts) auto
  from Cons.prems(2) have d: "distinct (preorder t)" "distinct (concat (map preorder us))"
      "set (preorder t) \<inter> set (concat (map preorder us)) = {}"
    by (auto simp: ts(1))
  obtain t' h1 where t': "walk i n b h = Inr (fold_tree node down h i t', h1)"
      "unfold_tree h1 n b = Some t'" "mset (preorder t') = mset (preorder t)" "tree_sorted h t'"
    and r1: "reordered h h1 (set (preorder t))"
    using one [OF ts(2) d(1)] unfolding walked_def by blast
  have "map (unfold_tree h1 n) bs = map Some us"
    by (rule unfold_trees_cong [OF ts(3)]) (use reordered_outside [OF r1] d(3) in blast)
  then obtain us' h2 where us': "walks i n bs h1 = Inr (map (fold_tree node down h1 i) us', h2)"
      "map (unfold_tree h2 n) bs = map Some us'"
      "mset (concat (map preorder us')) = mset (concat (map preorder us))"
      "list_all (tree_sorted h1) us'" and r2: "reordered h1 h2 (set (concat (map preorder us)))"
    using Cons.IH [OF _ d(2)] by blast
  have same: "map (fold_tree node down h1 i) us' = map (fold_tree node down h i) us'"
    by (rule map_cong [OF refl], rule reordered_fold [OF r1 node_children])
  have "unfold_tree h2 n b = Some t'"
  proof (rule unfold_tree_cong [OF _ t'(2)])
    fix c assume "c \<in> set (preorder t')"
    then have "c \<in> set (preorder t)" using t'(3) by (metis set_mset_mset)
    then show "h2 c = h1 c" using reordered_outside [OF r2] d(3) by blast
  qed
  moreover have "walks i n (b # bs) h = Inr (map (fold_tree node down h i) (t' # us'), h2)"
    by (simp add: walks_Cons t'(1) us'(1) same)
  moreover have "list_all (tree_sorted h) (t' # us')"
    using t'(4) us'(4) by (simp add: reordered_sorted [OF r1] cong: list.pred_cong)
  moreover have "reordered h h2 (set (concat (map preorder ts)))"
    using reordered_trans [OF r1 r2 d(3)] by (simp add: ts(1))
  moreover have "mset (concat (map preorder (t' # us'))) = mset (concat (map preorder ts))"
    using t'(3) us'(3) by (simp add: ts(1))
  ultimately show ?case using us'(2) by (metis list.simps(9))
qed

text \<open>
  A walk over a finite tree returns; its value is that of the tree with sorted children, and
  the heap afterwards unfolds to that tree.
\<close>

lemma walk_total:
  assumes "slice_sort srt"
  shows "unfold_tree h n a = Some t \<Longrightarrow> distinct (preorder t) \<Longrightarrow> walked i n a h t"
proof (induction n arbitrary: a t h i)
  case (Suc n)
  from Suc.prems(1) obtain s ts where s: "h a = Some s" "t = SNode a ts"
    and ts: "map (unfold_tree h n) (sp_Children s) = map Some ts"
    by (auto simp: unfold_tree_Some simp del: unfold_tree.simps)
  have d: "a \<notin> set (concat (map preorder ts))" "distinct (concat (map preorder ts))"
    using Suc.prems(2) by (simp_all add: s(2))
  show ?case
  proof (cases "sp_Children s = []")
    case True
    with ts have t: "t = SNode a []" "unfold_tree h (Suc n) a = Some (SNode a [])"
      using s by simp_all
    have "reordered h h {a}"
      unfolding reordered_def
      by (intro conjI allI impI ballI exI [of _ s] exI [of _ "sp_Children s"]) (use s(1) in simp_all)
    then show ?thesis
      unfolding walked_def
      by (intro exI [of _ "SNode a []"] exI [of _ h]) (use s(1) t True walk_leaf [of h a s] in simp)
  next
    case False
    define cs where "cs = srt (starts_before h) (sp_Children s)"
    define hs where "hs = h(a \<mapsto> s\<lparr>sp_Children := cs\<rparr>)"
    define unf where "unf = the \<circ> unfold_tree h n"
    have perm: "mset cs = mset (sp_Children s)" unfolding cs_def by (rule slice_sort_mset [OF assms])
    then have set: "set cs = set (sp_Children s)" by (metis set_mset_mset)
    have defined: "unfold_tree h n c = Some (unf c)" if "c \<in> set (sp_Children s)" for c
    proof -
      from that obtain k where "k < length (sp_Children s)" "c = sp_Children s ! k"
        by (auto simp: in_set_conv_nth)
      with ts have "unfold_tree h n c = Some (ts ! k)" by (metis length_map nth_map)
      then show ?thesis by (simp add: unf_def)
    qed
    then have "map Some ts = map Some (map unf (sp_Children s))" unfolding ts [symmetric] by simp
    then have ts': "ts = map unf (sp_Children s)" by (metis inj_Some map_injective)
    have pre: "mset (concat (map preorder (map unf cs))) = mset (concat (map preorder ts))"
      unfolding ts' by (rule mset_concat_map) (simp add: perm)
    then have pset: "set (concat (map preorder (map unf cs))) = set (concat (map preorder ts))"
      by (metis set_mset_mset)
    have dus: "distinct (concat (map preorder (map unf cs)))"
      using d(2) pre by (metis mset_eq_imp_distinct_iff)
    have "map (unfold_tree h n) cs = map Some (map unf cs)" using defined set by simp
    then have us: "map (unfold_tree hs n) cs = map Some (map unf cs)"
      by (rule unfold_trees_cong) (use d(1) pset in \<open>auto simp: hs_def\<close>)
    obtain us' h' where us': "walks (down i) n cs hs = Inr (map (fold_tree node down hs (down i)) us', h')"
        "map (unfold_tree h' n) cs = map Some us'"
        "mset (concat (map preorder us')) = mset (concat (map preorder (map unf cs)))"
        "list_all (tree_sorted hs) us'"
      and r: "reordered hs h' (set (concat (map preorder ts)))"
      using walked_list [OF Suc.IH us dus] unfolding pset by blast
    have rs: "reordered h hs {a}" unfolding reordered_def
      by (intro conjI allI impI ballI exI [of _ s] exI [of _ cs])
         (use s(1) perm in \<open>simp_all add: hs_def\<close>)
    have rh: "reordered h h' (set (preorder t))"
      using reordered_trans [OF rs r] d(1) by (simp add: s(2))
    have "\<forall>c\<in>set (sp_Children s). h c \<noteq> None"
      using unfold_tree_root [OF defined] by blast
    then have "walk i (Suc n) a h = Inr (fold_tree node down h i (SNode a us'), h')"
      using us'(1) s(1) False walk_node [of h a s i n]
      by (simp add: Let_def reordered_fold [OF rs node_children] flip: cs_def hs_def cong: map_cong)
    moreover have "h' a = Some (s\<lparr>sp_Children := cs\<rparr>)"
      using reordered_outside [OF r d(1)] by (simp add: hs_def)
    then have "unfold_tree h' (Suc n) a = Some (SNode a us')"
      using us'(2) by (simp add: unfold_tree_Some del: unfold_tree.simps)
    moreover have "tree_sorted h (SNode a us')"
    proof -
      have "sorted_wrt (\<lambda>x y. \<not> starts_before h y x) cs"
        unfolding cs_def
        by (rule slice_sort_sorted [OF assms]) (simp add: starts_before_def [abs_def] weak_order_key)
      then have "sorted (map (\<lambda>b. sp_StartTime (the (h b))) cs)"
        by (simp add: starts_before_def not_less sorted_map)
      then have "sorted (map (\<lambda>b. sp_StartTime (the (h b))) (map st_root us'))"
        by (simp only: unfold_trees_roots [OF us'(2)])
      then have "sorted (map (\<lambda>t. sp_StartTime (the (h (st_root t)))) us')"
        by (simp add: comp_def)
      with us'(4) show ?thesis
        by (simp add: reordered_sorted [OF rs] cong: list.pred_cong)
    qed
    ultimately show ?thesis
      unfolding walked_def using us'(3) pre rh s(2)
      by (intro exI [of _ "SNode a us'"] exI [of _ h']) simp
  qed
qed simp

end

end
