(* ===== verification/Compression.thy ===== *)
theory Compression
  imports Span_Walk
begin

text \<open>
  \<open>pkg/compression/compressor.go\<close>: compressing single spans and whole traces, the signature of
  a tree of spans and the bounded cache of signatures, and the similarity of signatures. The
  zstd encoder and decoder are third-party code and arguments: \<open>enc\<close> and \<open>dec\<close>. The texts of
  \<open>encoding/json\<close>, which depend on the binary form of floats, are arguments too: \<open>marshal\<close> and
  \<open>unmarshal\<close>. The order in which a \<open>range\<close> over the cache visits the keys is the argument
  \<open>ord\<close>; it may depend on the whole state, so that no two visits need to agree.
\<close>

section \<open>Data\<close>

record subtree_sig =
  ss_Hash :: string
  ss_Structure :: string
  ss_Operations :: "string list"
  ss_Depth :: nat
  ss_Count :: int

datatype compressed_span = CompressedSpan
  (zs_Span: addr) (zs_Children: "compressed_span list") (zs_CompressedData: string)
  (zs_CompressionRatio: f64) (zs_IsCompressed: bool) (zs_SignatureHash: string)
  (zs_OriginalSize: int) (zs_CompressedSize: int)

record compression_stats =
  za_TotalSpans :: int
  za_CompressedSpans :: int
  za_TotalOriginal :: int
  za_TotalCompressed :: int
  za_CompressionRatio :: f64
  za_CacheHits :: int
  za_CacheMisses :: int

record compressor =
  zc_signatureCache :: "string \<rightharpoonup> subtree_sig"
  zc_stats :: compression_stats
  zc_maxCacheSize :: int
  zc_similarityThreshold :: f64

record compressor_config =
  zf_CompressionLevel :: int
  zf_MaxCacheSize :: int
  zf_SimilarityThreshold :: f64

text \<open>
  The constructor: \<open>new_writer\<close> and \<open>new_reader\<close> are the errors that creating the encoder (of a
  level) and the decoder may return.
\<close>

definition NewCompressor ::
  "(int \<Rightarrow> string option) \<Rightarrow> string option \<Rightarrow> compressor_config option \<Rightarrow> string + compressor"
where
  "NewCompressor new_writer new_reader cfg =
     (let config = (case cfg of Some c \<Rightarrow> c
          | None \<Rightarrow> \<lparr>zf_CompressionLevel = 3, zf_MaxCacheSize = 10000, zf_SimilarityThreshold = Fin (9 / 10)\<rparr>)
      in case new_writer (zf_CompressionLevel config) of
        Some err \<Rightarrow> Inl (''failed to create zstd encoder: '' @ err)
      | None \<Rightarrow> (case new_reader of
          Some err \<Rightarrow> Inl (''failed to create zstd decoder: '' @ err)
        | None \<Rightarrow> Inr \<lparr>zc_signatureCache = Map.empty,
            zc_stats = \<lparr>za_TotalSpans = 0, za_CompressedSpans = 0, za_TotalOriginal = 0,
              za_TotalCompressed = 0, za_CompressionRatio = Fin 0, za_CacheHits = 0, za_CacheMisses = 0\<rparr>,
            zc_maxCacheSize = zf_MaxCacheSize config,
            zc_similarityThreshold = zf_SimilarityThreshold config\<rparr>))"

section \<open>Single spans\<close>

definition bare_compressed :: "addr \<Rightarrow> compressed_span" where
  "bare_compressed a = CompressedSpan a [] '''' (Fin 0) False '''' 0 0"

text \<open>The map of the span's tags is written without a test for the nil map.\<close>

definition write_tags :: "span \<Rightarrow> (string \<times> tag_value) list \<Rightarrow> span go" where
  "write_tags s kvs =
     (case sp_Tags s of
        None \<Rightarrow> Inl NilMapWrite
      | Some m \<Rightarrow> Inr (s\<lparr>sp_Tags := Some (foldl (\<lambda>m (k, v). m(k \<mapsto> v)) m kvs)\<rparr>))"

definition CompressSpan ::
  "(heap \<Rightarrow> addr \<Rightarrow> string option) \<Rightarrow> (string \<Rightarrow> string) \<Rightarrow> addr option \<Rightarrow> heap \<Rightarrow> compressor \<Rightarrow>
   (compressed_span option \<times> heap \<times> compressor) go"
where
  "CompressSpan marshal enc sp h c =
     (case sp of
        None \<Rightarrow> Inr (None, h, c)
      | Some a \<Rightarrow>
          let c = c\<lparr>zc_stats := (zc_stats c)\<lparr>za_TotalSpans := za_TotalSpans (zc_stats c) + 1\<rparr>\<rparr> in
          (case marshal h a of
             None \<Rightarrow> Inr (Some (bare_compressed a), h, c)
           | Some data \<Rightarrow>
               let originalSize = int (length data) in
               if originalSize < 256 then Inr (Some (bare_compressed a), h, c)
               else
                 let compressedData = enc data;
                     compressedSize = int (length compressedData);
                     ratio = f_div (f_of_int originalSize) (f_of_int compressedSize)
                 in if f_lt ratio (Fin (12 / 10)) then Inr (Some (bare_compressed a), h, c)
                    else
                      (case h a of
                         None \<Rightarrow> Inl NilDeref
                       | Some s \<Rightarrow>
                           go_bind (write_tags s
                             [(''compressed'', TagBool True), (''compression_ratio'', TagStr (f_fixed 2 ratio)),
                              (''original_size'', TagInt originalSize),
                              (''compressed_size'', TagInt compressedSize)]) (\<lambda>s.
                           let st = zc_stats c;
                               orig = za_TotalOriginal st + originalSize;
                               comp = za_TotalCompressed st + compressedSize;
                               st = st\<lparr>za_CompressedSpans := za_CompressedSpans st + 1,
                                   za_TotalOriginal := orig, za_TotalCompressed := comp,
                                   za_CompressionRatio := f_div (f_of_int orig) (f_of_int comp)\<rparr>
                           in Inr (Some (CompressedSpan a [] compressedData ratio True '''' originalSize compressedSize),
                                h(a \<mapsto> s), c\<lparr>zc_stats := st\<rparr>)))))"

text \<open>
  Decoding may fail with a text, and so may parsing the decoded text; parsing allocates the
  spans it reads, so it returns the heap.
\<close>

definition DecompressSpan ::
  "(string \<Rightarrow> string + string) \<Rightarrow> (string \<Rightarrow> heap \<Rightarrow> string + addr \<times> heap) \<Rightarrow>
   compressed_span option \<Rightarrow> heap \<Rightarrow> string + addr option \<times> heap"
where
  "DecompressSpan dec unmarshal cs h =
     (case cs of
        None \<Rightarrow> Inr (None, h)
      | Some z \<Rightarrow>
          if \<not> zs_IsCompressed z \<or> zs_CompressedData z = [] then Inr (Some (zs_Span z), h)
          else (case dec (zs_CompressedData z) of
              Inl err \<Rightarrow> Inl (''failed to decompress span: '' @ err)
            | Inr data \<Rightarrow>
                (case unmarshal data h of
                   Inl err \<Rightarrow> Inl (''failed to unmarshal decompressed span: '' @ err)
                 | Inr (a, h) \<Rightarrow> Inr (Some a, h))))"

section \<open>Signatures\<close>

text \<open>
  The text of one span around the texts of its children, and the operations the recursion
  appends to its list.
\<close>

definition structure_node :: "string \<Rightarrow> span \<Rightarrow> (string \<times> string list) list \<Rightarrow> string \<times> string list" where
  "structure_node indent s rs =
     (indent @ sp_ServiceName s @ '':'' @ sp_Operation s @
        (if rs \<noteq> [] then ''['' @ [CHR 0x0A] @ concat (map fst rs) @ indent @ '']'' else '''') @ [CHR 0x0A],
      sp_Operation s # concat (map snd rs))"

fun buildSubtreeStructure ::
    "((addr \<Rightarrow> addr \<Rightarrow> bool) \<Rightarrow> addr list \<Rightarrow> addr list) \<Rightarrow> string \<Rightarrow> nat \<Rightarrow> addr \<Rightarrow> heap \<Rightarrow>
     ((string \<times> string list) \<times> heap) go"
  and structure_children ::
    "((addr \<Rightarrow> addr \<Rightarrow> bool) \<Rightarrow> addr list \<Rightarrow> addr list) \<Rightarrow> string \<Rightarrow> nat \<Rightarrow> addr list \<Rightarrow> heap \<Rightarrow>
     ((string \<times> string list) list \<times> heap) go"
where
  "buildSubtreeStructure srt indent 0 a h = Inl StackOverflow"
| "buildSubtreeStructure srt indent (Suc n) a h =
     (case h a of
        None \<Rightarrow> Inl NilDeref
      | Some s \<Rightarrow>
          if sp_Children s \<noteq> [] then
            if list_ex (\<lambda>c. h c = None) (sp_Children s) then Inl NilDeref
            else
              let cs = srt (starts_before h) (sp_Children s);
                  h = h(a \<mapsto> s\<lparr>sp_Children := cs\<rparr>)
              in go_bind (structure_children srt (indent @ ''  '') n cs h) (\<lambda>(rs, h).
                   Inr (structure_node indent s rs, h))
          else Inr (structure_node indent s [], h))"
| "structure_children srt indent n [] h = Inr ([], h)"
| "structure_children srt indent n (c # cs) h =
     go_bind (buildSubtreeStructure srt indent n c h) (\<lambda>(r, h).
     go_bind (structure_children srt indent n cs h) (\<lambda>(rs, h). Inr (r # rs, h)))"

fun countDepth :: "nat \<Rightarrow> addr \<Rightarrow> heap \<Rightarrow> nat go"
  and depth_loop :: "nat \<Rightarrow> addr list \<Rightarrow> heap \<Rightarrow> nat \<Rightarrow> nat go"
where
  "countDepth 0 a h = Inl StackOverflow"
| "countDepth (Suc n) a h =
     (case h a of
        None \<Rightarrow> Inl NilDeref
      | Some s \<Rightarrow>
          if sp_Children s = [] then Inr 1
          else go_bind (depth_loop n (sp_Children s) h 0) (\<lambda>maxChild. Inr (maxChild + 1)))"
| "depth_loop n [] h maxChild = Inr maxChild"
| "depth_loop n (c # cs) h maxChild =
     go_bind (countDepth n c h) (\<lambda>d. depth_loop n cs h (if d > maxChild then d else maxChild))"

definition evictOldCache :: "(nat \<Rightarrow> compressor \<Rightarrow> string list) \<Rightarrow> compressor \<Rightarrow> compressor" where
  "evictOldCache ord c =
     (let cache = zc_signatureCache c;
          oldestKey = foldl (\<lambda>old k. if (\<exists>v\<in>set_option (cache k). ss_Count v = 1) \<and> old = '''' then k else old)
            '''' (ord 0 c)
      in c\<lparr>zc_signatureCache :=
           (if oldestKey \<noteq> '''' then cache(oldestKey := None)
            else (case ord 1 c of [] \<Rightarrow> cache | k # _ \<Rightarrow> cache(k := None)))\<rparr>)"

text \<open>The look-up in the cache and what it counts.\<close>

definition cache_signature ::
  "(nat \<Rightarrow> compressor \<Rightarrow> string list) \<Rightarrow> subtree_sig \<Rightarrow> compressor \<Rightarrow> compressor"
where
  "cache_signature ord sig c =
     (let (isDuplicate, c) =
        (case zc_signatureCache c (ss_Hash sig) of
           Some existing \<Rightarrow>
             let existing = existing\<lparr>ss_Count := ss_Count existing + 1\<rparr> in
             (ss_Count existing > 1,
              c\<lparr>zc_signatureCache := (zc_signatureCache c)(ss_Hash sig \<mapsto> existing)\<rparr>)
         | None \<Rightarrow>
             let c = (if int (card (dom (zc_signatureCache c))) \<ge> zc_maxCacheSize c
                      then evictOldCache ord c else c)
             in (False, c\<lparr>zc_signatureCache := (zc_signatureCache c)(ss_Hash sig \<mapsto> sig)\<rparr>));
        st = zc_stats c
      in c\<lparr>zc_stats := (if isDuplicate then st\<lparr>za_CacheHits := za_CacheHits st + 1\<rparr>
             else st\<lparr>za_CacheMisses := za_CacheMisses st + 1\<rparr>)\<rparr>)"

definition ComputeSubtreeSignature ::
  "((addr \<Rightarrow> addr \<Rightarrow> bool) \<Rightarrow> addr list \<Rightarrow> addr list) \<Rightarrow> (nat \<Rightarrow> compressor \<Rightarrow> string list) \<Rightarrow> nat \<Rightarrow>
   addr option \<Rightarrow> heap \<Rightarrow> compressor \<Rightarrow> (subtree_sig option \<times> heap \<times> compressor) go"
where
  "ComputeSubtreeSignature srt ord levels rt h c =
     (case rt of
        None \<Rightarrow> Inr (None, h, c)
      | Some a \<Rightarrow>
          go_bind (buildSubtreeStructure srt '''' levels a h) (\<lambda>((str, operations), h).
          go_bind (countDepth levels a h) (\<lambda>depth.
            let sig = \<lparr>ss_Hash = hex_encode (be_bytes64 (fnv64a str)), ss_Structure = str,
                  ss_Operations = operations, ss_Depth = depth, ss_Count = 1\<rparr>
            in Inr (Some sig, h, cache_signature ord sig c))))"

section \<open>Traces\<close>

text \<open>The tags and the hash that a signature leaves on the root of its tree.\<close>

definition tag_signature :: "subtree_sig \<Rightarrow> span \<Rightarrow> span" where
  "tag_signature sig s =
     (let s = SetTag s ''subtree_hash'' (TagStr (ss_Hash sig));
          s = SetTag s ''subtree_depth'' (TagInt (int (ss_Depth sig)));
          s = SetTag s ''subtree_operations'' (TagInt (int (length (ss_Operations sig))))
      in if ss_Count sig > 1 then SetTag s ''subtree_duplicate_count'' (TagInt (ss_Count sig)) else s)"

definition set_signature :: "string \<Rightarrow> compressed_span list \<Rightarrow> compressed_span \<Rightarrow> compressed_span" where
  "set_signature hash cs z =
     CompressedSpan (zs_Span z) cs (zs_CompressedData z) (zs_CompressionRatio z) (zs_IsCompressed z) hash
       (zs_OriginalSize z) (zs_CompressedSize z)"

fun CompressTrace ::
    "(heap \<Rightarrow> addr \<Rightarrow> string option) \<Rightarrow> (string \<Rightarrow> string) \<Rightarrow>
     ((addr \<Rightarrow> addr \<Rightarrow> bool) \<Rightarrow> addr list \<Rightarrow> addr list) \<Rightarrow> (nat \<Rightarrow> compressor \<Rightarrow> string list) \<Rightarrow>
     nat \<Rightarrow> addr option \<Rightarrow> heap \<Rightarrow> compressor \<Rightarrow> (compressed_span option \<times> heap \<times> compressor) go"
  and compress_children ::
    "(heap \<Rightarrow> addr \<Rightarrow> string option) \<Rightarrow> (string \<Rightarrow> string) \<Rightarrow>
     ((addr \<Rightarrow> addr \<Rightarrow> bool) \<Rightarrow> addr list \<Rightarrow> addr list) \<Rightarrow> (nat \<Rightarrow> compressor \<Rightarrow> string list) \<Rightarrow>
     nat \<Rightarrow> addr list \<Rightarrow> heap \<Rightarrow> compressor \<Rightarrow> (compressed_span list \<times> heap \<times> compressor) go"
where
  "CompressTrace marshal enc srt ord levels None h c = Inr (None, h, c)"
| "CompressTrace marshal enc srt ord 0 (Some a) h c = Inl StackOverflow"
| "CompressTrace marshal enc srt ord (Suc n) (Some a) h c =
     go_bind (CompressSpan marshal enc (Some a) h c) (\<lambda>(z, h, c).
     go_bind (ComputeSubtreeSignature srt ord n (Some a) h c) (\<lambda>(sig, h, c).
       (case (z, sig, h a) of
          (Some z, Some sig, Some s) \<Rightarrow>
            let h = h(a \<mapsto> tag_signature sig s) in
            go_bind (compress_children marshal enc srt ord n (sp_Children s) h c) (\<lambda>(zs, h, c).
              Inr (Some (set_signature (ss_Hash sig) zs z), h, c))
        | _ \<Rightarrow> Inl NilDeref)))"
| "compress_children marshal enc srt ord n [] h c = Inr ([], h, c)"
| "compress_children marshal enc srt ord n (a # as) h c =
     go_bind (CompressTrace marshal enc srt ord n (if h a = None then None else Some a) h c) (\<lambda>(z, h, c).
     go_bind (compress_children marshal enc srt ord n as h c) (\<lambda>(zs, h, c).
       Inr (case z of None \<Rightarrow> zs | Some z \<Rightarrow> z # zs, h, c)))"

fun DecompressTrace ::
    "(string \<Rightarrow> string + string) \<Rightarrow> (string \<Rightarrow> heap \<Rightarrow> string + addr \<times> heap) \<Rightarrow>
     compressed_span \<Rightarrow> heap \<Rightarrow> (string + addr option \<times> heap) go"
  and decompress_children ::
    "(string \<Rightarrow> string + string) \<Rightarrow> (string \<Rightarrow> heap \<Rightarrow> string + addr \<times> heap) \<Rightarrow>
     compressed_span list \<Rightarrow> heap \<Rightarrow> (string + addr list \<times> heap) go"
where
  "DecompressTrace dec unmarshal (CompressedSpan sp zs data ratio isc hash osz csz) h =
     (case DecompressSpan dec unmarshal (Some (CompressedSpan sp zs data ratio isc hash osz csz)) h of
        Inl err \<Rightarrow> Inr (Inl err)
      | Inr (rt, h) \<Rightarrow>
          if zs = [] then Inr (Inr (rt, h))
          else
            (case Option.bind rt h of
               None \<Rightarrow> Inl NilDeref
             | Some s \<Rightarrow>
                 go_bind (decompress_children dec unmarshal zs (h(the rt \<mapsto> s\<lparr>sp_Children := []\<rparr>))) (\<lambda>r.
                   case r of
                     Inl err \<Rightarrow> Inr (Inl err)
                   | Inr (cs, h) \<Rightarrow>
                       (case h (the rt) of
                          None \<Rightarrow> Inl NilDeref
                        | Some s \<Rightarrow> Inr (Inr (rt, h(the rt \<mapsto> s\<lparr>sp_Children := cs\<rparr>)))))))"
| "decompress_children dec unmarshal [] h = Inr (Inr ([], h))"
| "decompress_children dec unmarshal (z # zs) h =
     go_bind (DecompressTrace dec unmarshal z h) (\<lambda>r.
       case r of
         Inl err \<Rightarrow> Inr (Inl err)
       | Inr (a, h) \<Rightarrow>
           go_bind (decompress_children dec unmarshal zs h) (\<lambda>r.
             case r of
               Inl err \<Rightarrow> Inr (Inl err)
             | Inr (as, h) \<Rightarrow> Inr (Inr (case a of None \<Rightarrow> as | Some a \<Rightarrow> a # as, h))))"

section \<open>Similarity\<close>

definition computeSimilarity :: "subtree_sig \<Rightarrow> subtree_sig \<Rightarrow> f64" where
  "computeSimilarity a b =
     (if ss_Operations a = [] \<or> ss_Operations b = [] then Fin 0
      else
        let setA = set (ss_Operations a);
            intersection = length (filter (\<lambda>op. op \<in> setA) (ss_Operations b));
            union = int (card setA) + int (length (ss_Operations b)) - int intersection
        in if union = 0 then Fin 0 else f_div (f_of_int (int intersection)) (f_of_int union))"

definition FindSimilarTraces ::
  "(nat \<Rightarrow> compressor \<Rightarrow> string list) \<Rightarrow> subtree_sig option \<Rightarrow> f64 \<Rightarrow> compressor \<Rightarrow> subtree_sig list"
where
  "FindSimilarTraces ord sig threshold c =
     (case sig of
        None \<Rightarrow> []
      | Some sg \<Rightarrow>
          filter (\<lambda>existing. ss_Hash existing \<noteq> ss_Hash sg \<and> f_le threshold (computeSimilarity sg existing))
            (List.map_filter (zc_signatureCache c) (ord 0 c)))"

definition Compressor_GetStats :: "compressor \<Rightarrow> compression_stats" where
  "Compressor_GetStats c = zc_stats c"

text \<open>The copy of the cache holds copies of the signatures, which are values here.\<close>

definition GetSignatureCache :: "compressor \<Rightarrow> (string \<rightharpoonup> subtree_sig)" where
  "GetSignatureCache c = zc_signatureCache c"

section \<open>Compressing a span\<close>

lemma foldl_upd_other: "k \<notin> fst ` set kvs \<Longrightarrow> foldl (\<lambda>m (k, v). m(k \<mapsto> v)) m kvs k = m k"
  by (induction kvs arbitrary: m) (auto split: prod.splits)

lemma write_tags_Some:
  "sp_Tags s = Some m \<Longrightarrow> \<exists>m'. write_tags s kvs = Inr (s\<lparr>sp_Tags := Some m'\<rparr>) \<and>
     (\<forall>k. k \<notin> fst ` set kvs \<longrightarrow> m' k = m k)"
  by (auto simp: write_tags_def foldl_upd_other)

text \<open>What comes out when the span has a tag map.\<close>

lemma CompressSpan_cases:
  assumes "h a = Some s" "sp_Tags s = Some mt"
  obtains (plain) c' where "CompressSpan marshal enc (Some a) h c = Inr (Some (bare_compressed a), h, c')"
      "zc_signatureCache c' = zc_signatureCache c" "zc_maxCacheSize c' = zc_maxCacheSize c"
  | (packed) c' data m ratio where "CompressSpan marshal enc (Some a) h c =
        Inr (Some (CompressedSpan a [] (enc data) ratio True '''' (int (length data)) (int (length (enc data)))),
          h(a \<mapsto> s\<lparr>sp_Tags := Some m\<rparr>), c')"
      "marshal h a = Some data" "256 \<le> length data"
      "ratio = f_div (f_of_int (int (length data))) (f_of_int (int (length (enc data))))"
      "\<not> f_lt ratio (Fin (12 / 10))"
      "zc_signatureCache c' = zc_signatureCache c" "zc_maxCacheSize c' = zc_maxCacheSize c"
      "m ''subtree_duplicate_count'' = mt ''subtree_duplicate_count''"
proof (cases "marshal h a")
  case None
  with plain show ?thesis by (simp add: CompressSpan_def Let_def)
next
  case (Some data)
  let ?r = "f_div (f_of_int (int (length data))) (f_of_int (int (length (enc data))))"
  show ?thesis
  proof (cases "length data < 256 \<or> f_lt ?r (Fin (12 / 10))")
    case True
    with Some plain show ?thesis by (auto simp: CompressSpan_def Let_def)
  next
    case False
    let ?tags = "[(''compressed'', TagBool True), (''compression_ratio'', TagStr (f_fixed 2 ?r)),
        (''original_size'', TagInt (int (length data))),
        (''compressed_size'', TagInt (int (length (enc data))))]"
    obtain m where m: "write_tags s ?tags = Inr (s\<lparr>sp_Tags := Some m\<rparr>)"
        "\<forall>k. k \<notin> fst ` set ?tags \<longrightarrow> m k = mt k"
      using write_tags_Some [OF assms(2), of ?tags] by blast
    have dup: "m ''subtree_duplicate_count'' = mt ''subtree_duplicate_count''"
      using m(2) [rule_format, of "''subtree_duplicate_count''"] by simp
    have "\<exists>c'. CompressSpan marshal enc (Some a) h c =
        Inr (Some (CompressedSpan a [] (enc data) ?r True '''' (int (length data)) (int (length (enc data)))),
          h(a \<mapsto> s\<lparr>sp_Tags := Some m\<rparr>), c') \<and>
        zc_signatureCache c' = zc_signatureCache c \<and> zc_maxCacheSize c' = zc_maxCacheSize c"
      using Some False assms(1) m(1) by (simp add: CompressSpan_def Let_def)
    then show ?thesis using packed [of data ?r m] Some False dup by auto
  qed
qed

lemma ratio_bound:
  assumes "\<not> f_lt (f_div (f_of_int (int n)) (f_of_int (int m))) (Fin (12 / 10))"
  shows "12 * m \<le> 10 * n"
proof (cases "m = 0")
  case False
  with assms have "12 / 10 * real m \<le> real n"
    by (simp add: f_of_int_def not_less pos_le_divide_eq)
  then show ?thesis by linarith
qed simp


text \<open>A span without a tag map cannot be compressed: writing to the nil map panics.\<close>

lemma compress_nil_tags_panics:
  assumes "h a = Some s" "sp_Tags s = None" "marshal h a = Some data" "256 \<le> length data"
    "\<not> f_lt (f_div (f_of_int (int (length data))) (f_of_int (int (length (enc data))))) (Fin (12 / 10))"
  shows "CompressSpan marshal enc (Some a) h c = Inl NilMapWrite"
  using assms by (simp add: CompressSpan_def write_tags_def Let_def)

text \<open>An encoder and a decoder for the witnesses: a run of one byte as the byte and its number.\<close>

definition toy_enc :: "string \<Rightarrow> string" where
  "toy_enc d = (if \<exists>c\<in>set d. d = replicate 300 c then [CHR ''r'', hd d] else CHR ''p'' # d)"

fun toy_dec :: "string \<Rightarrow> string + string" where
  "toy_dec (k # d) =
     (if k = CHR ''r'' then (case d of [c] \<Rightarrow> Inr (replicate 300 c) | _ \<Rightarrow> Inl ''bad run'') else Inr d)"
| "toy_dec [] = Inl ''empty''"

lemma toy_roundtrip: "toy_dec (toy_enc d) = Inr d" "toy_enc d \<noteq> []"
proof -
  show "toy_enc d \<noteq> []" by (simp add: toy_enc_def)
  show "toy_dec (toy_enc d) = Inr d"
  proof (cases "\<exists>c\<in>set d. d = replicate 300 c")
    case True
    then obtain c where "d = replicate 300 c" by blast
    moreover have "hd (replicate 300 c) = c" by (simp add: eval_nat_numeral)
    ultimately show ?thesis using True by (simp add: toy_enc_def)
  qed (simp add: toy_enc_def)
qed

definition tagged_heap :: heap where
  "tagged_heap = [1 \<mapsto> zero_span\<lparr>sp_Children := [3, 2], sp_Tags := Some Map.empty\<rparr>,
     2 \<mapsto> zero_span\<lparr>sp_Operation := ''GET'', sp_StartTime := 1, sp_Tags := Some Map.empty\<rparr>,
     3 \<mapsto> zero_span\<lparr>sp_Operation := ''PUT'', sp_StartTime := 2, sp_Tags := Some Map.empty\<rparr>]"

definition long_text :: "heap \<Rightarrow> addr \<Rightarrow> string option" where
  "long_text h a = Some (replicate 300 CHR ''x'')"

definition new_span :: "string \<Rightarrow> heap \<Rightarrow> string + addr \<times> heap" where
  "new_span d h = Inr (9, h(9 \<mapsto> zero_span))"

definition empty_compressor :: "int \<Rightarrow> compressor" where
  "empty_compressor n =
     \<lparr>zc_signatureCache = Map.empty, zc_stats = \<lparr>za_TotalSpans = 0, za_CompressedSpans = 0, za_TotalOriginal = 0,
        za_TotalCompressed = 0, za_CompressionRatio = Fin 0, za_CacheHits = 0, za_CacheMisses = 0\<rparr>,
      zc_maxCacheSize = n, zc_similarityThreshold = Fin (9 / 10)\<rparr>"


section \<open>The cache of signatures\<close>

text \<open>A \<open>range\<close> over a finite map visits every key once.\<close>

definition map_order :: "(nat \<Rightarrow> compressor \<Rightarrow> string list) \<Rightarrow> bool" where
  "map_order ord \<longleftrightarrow>
     (\<forall>i c. finite (dom (zc_signatureCache c)) \<longrightarrow>
        distinct (ord i c) \<and> set (ord i c) = dom (zc_signatureCache c))"

text \<open>
  The state after the signatures \<open>sigs\<close>: the cache holds signatures under their hashes, each
  with a count between 1 and the number of times its hash was computed, it does not outgrow
  its limit, and every computation is a hit or a miss.
\<close>

definition cache_inv :: "subtree_sig list \<Rightarrow> compressor \<Rightarrow> bool" where
  "cache_inv sigs c \<longleftrightarrow>
     finite (dom (zc_signatureCache c)) \<and>
     (\<forall>k v. zc_signatureCache c k = Some v \<longrightarrow>
        ss_Hash v = k \<and> k \<noteq> '''' \<and> 1 \<le> ss_Count v \<and>
        ss_Count v \<le> int (length (filter (\<lambda>s. ss_Hash s = k) sigs))) \<and>
     int (card (dom (zc_signatureCache c))) \<le> max 1 (zc_maxCacheSize c) \<and>
     za_CacheHits (zc_stats c) + za_CacheMisses (zc_stats c) = int (length sigs)"

lemma foldl_oldest:
  "foldl (\<lambda>old k. if P k \<and> old = '''' then k else old) x ks \<in> insert x (set ks)"
proof (induction ks arbitrary: x)
  case (Cons k ks)
  from Cons [of "if P k \<and> x = '''' then k else x"] show ?case by (auto split: if_splits)
qed simp

text \<open>Eviction takes one signature out of a cache that is not empty.\<close>

lemma evict_one:
  assumes "map_order ord" "finite (dom (zc_signatureCache c))" "dom (zc_signatureCache c) \<noteq> {}"
  shows "\<exists>k\<in>dom (zc_signatureCache c).
    evictOldCache ord c = c\<lparr>zc_signatureCache := (zc_signatureCache c)(k := None)\<rparr>"
proof -
  define old where "old = foldl (\<lambda>old k. if (\<exists>v\<in>set_option (zc_signatureCache c k). ss_Count v = 1) \<and> old = ''''
      then k else old) '''' (ord 0 c)"
  have run: "evictOldCache ord c = c\<lparr>zc_signatureCache :=
      (if old \<noteq> '''' then (zc_signatureCache c)(old := None)
       else (case ord 1 c of [] \<Rightarrow> zc_signatureCache c | k # _ \<Rightarrow> (zc_signatureCache c)(k := None)))\<rparr>"
    unfolding evictOldCache_def Let_def old_def ..
  have old: "old \<in> insert '''' (set (ord 0 c))" unfolding old_def by (rule foldl_oldest)
  have ord: "set (ord i c) = dom (zc_signatureCache c)" for i
    using assms(1,2) by (simp add: map_order_def)
  show ?thesis
  proof (cases "old = ''''")
    case False
    then have "old \<in> dom (zc_signatureCache c)" using old ord [of 0] by simp
    with False show ?thesis unfolding run by auto
  next
    case True
    obtain k ks where "ord 1 c = k # ks"
      using ord [of 1] assms(3) by (cases "ord 1 c") auto
    with True ord [of 1] show ?thesis
      unfolding run by (intro bexI [of _ k]) auto
  qed
qed

lemma card_dom_upd:
  "finite (dom m) \<Longrightarrow> m k = None \<Longrightarrow> card (dom (m(k \<mapsto> v))) = Suc (card (dom m))"
  by (simp add: domIff)

lemma cache_inv_step:
  assumes "map_order ord" "cache_inv sigs c" "ss_Count sig = 1" "ss_Hash sig \<noteq> ''''"
  shows "cache_inv (sigs @ [sig]) (cache_signature ord sig c) \<and>
    zc_maxCacheSize (cache_signature ord sig c) = zc_maxCacheSize c"
proof (cases "zc_signatureCache c (ss_Hash sig)")
  case (Some v)
  have v: "ss_Hash v = ss_Hash sig" "1 \<le> ss_Count v"
    "ss_Count v \<le> int (length (filter (\<lambda>s. ss_Hash s = ss_Hash sig) sigs))"
    using assms(2) Some by (auto simp: cache_inv_def)
  have dom: "dom ((zc_signatureCache c)(ss_Hash sig \<mapsto> w)) = dom (zc_signatureCache c)" for w
    using Some by auto
  have "1 < ss_Count v + 1" using v(2) by simp
  then have run: "cache_signature ord sig c =
      c\<lparr>zc_signatureCache := (zc_signatureCache c)(ss_Hash sig \<mapsto> v\<lparr>ss_Count := ss_Count v + 1\<rparr>),
        zc_stats := (zc_stats c)\<lparr>za_CacheHits := za_CacheHits (zc_stats c) + 1\<rparr>\<rparr>"
    by (simp add: cache_signature_def Some Let_def)
  have "ss_Hash w = k \<and> k \<noteq> '''' \<and> 1 \<le> ss_Count w \<and>
      ss_Count w \<le> int (length (filter (\<lambda>s. ss_Hash s = k) (sigs @ [sig])))"
    if "((zc_signatureCache c)(ss_Hash sig \<mapsto> v\<lparr>ss_Count := ss_Count v + 1\<rparr>)) k = Some w" for k w
  proof (cases "k = ss_Hash sig")
    case True
    with that v assms(4) show ?thesis by auto
  next
    case False
    with that assms(2) show ?thesis by (auto simp: cache_inv_def)
  qed
  moreover have "za_CacheHits (zc_stats c) + za_CacheMisses (zc_stats c) = int (length sigs)"
      "finite (dom (zc_signatureCache c))" "int (card (dom (zc_signatureCache c))) \<le> max 1 (zc_maxCacheSize c)"
    using assms(2) by (simp_all add: cache_inv_def)
  ultimately show ?thesis unfolding run cache_inv_def by (simp add: dom del: fun_upd_apply dom_fun_upd)
next
  case None
  define c1 where "c1 = (if int (card (dom (zc_signatureCache c))) \<ge> zc_maxCacheSize c
      then evictOldCache ord c else c)"
  have fin: "finite (dom (zc_signatureCache c))" using assms(2) by (simp add: cache_inv_def)
  have c1: "zc_stats c1 = zc_stats c" "zc_maxCacheSize c1 = zc_maxCacheSize c"
      "zc_signatureCache c1 \<subseteq>\<^sub>m zc_signatureCache c"
      "int (card (dom (zc_signatureCache c1))) + 1 \<le> max 1 (zc_maxCacheSize c)"
  proof -
    consider "c1 = c" "int (card (dom (zc_signatureCache c))) < zc_maxCacheSize c"
      | "dom (zc_signatureCache c) = {}" "c1 = evictOldCache ord c"
      | k where "k \<in> dom (zc_signatureCache c)" "c1 = c\<lparr>zc_signatureCache := (zc_signatureCache c)(k := None)\<rparr>"
      using evict_one [OF assms(1) fin] unfolding c1_def by (metis not_less)
    then have "zc_stats c1 = zc_stats c \<and> zc_maxCacheSize c1 = zc_maxCacheSize c \<and>
      zc_signatureCache c1 \<subseteq>\<^sub>m zc_signatureCache c \<and>
      int (card (dom (zc_signatureCache c1))) + 1 \<le> max 1 (zc_maxCacheSize c)"
    proof cases
      case 1
      then show ?thesis by simp
    next
      case 2
      then have "\<And>i. ord i c = []" using assms(1) fin unfolding map_order_def by (metis set_empty)
      with 2 show ?thesis by (simp add: evictOldCache_def)
    next
      case 3
      have "card (dom (zc_signatureCache c)) \<noteq> 0" using fin 3(1) by auto
      moreover have "int (card (dom (zc_signatureCache c))) \<le> max 1 (zc_maxCacheSize c)"
        using assms(2) by (simp add: cache_inv_def)
      moreover have "card (dom (zc_signatureCache c1)) = card (dom (zc_signatureCache c)) - 1"
        using 3 fin by simp
      ultimately show ?thesis using 3(2) by (auto simp: map_le_def)
    qed
    then show "zc_stats c1 = zc_stats c" "zc_maxCacheSize c1 = zc_maxCacheSize c"
      "zc_signatureCache c1 \<subseteq>\<^sub>m zc_signatureCache c"
      "int (card (dom (zc_signatureCache c1))) + 1 \<le> max 1 (zc_maxCacheSize c)" by blast+
  qed
  have sub: "dom (zc_signatureCache c1) \<subseteq> dom (zc_signatureCache c)" using c1(3) by (rule map_le_implies_dom_le)
  then have fin1: "finite (dom (zc_signatureCache c1))" using fin by (rule finite_subset)
  have none: "zc_signatureCache c1 (ss_Hash sig) = None" using sub None by (metis domIff subsetD)
  have run: "cache_signature ord sig c =
      c1\<lparr>zc_signatureCache := (zc_signatureCache c1)(ss_Hash sig \<mapsto> sig),
        zc_stats := (zc_stats c)\<lparr>za_CacheMisses := za_CacheMisses (zc_stats c) + 1\<rparr>\<rparr>"
    by (simp add: cache_signature_def None Let_def c1(1) flip: c1_def)
  have old: "ss_Hash v = k \<and> k \<noteq> '''' \<and> 1 \<le> ss_Count v \<and>
      ss_Count v \<le> int (length (filter (\<lambda>s. ss_Hash s = k) sigs))"
    if "zc_signatureCache c1 k = Some v" for k v
  proof -
    from that c1(3) have "zc_signatureCache c k = Some v" by (metis map_le_def domI)
    with assms(2) show ?thesis unfolding cache_inv_def by blast
  qed
  have "int (card (dom ((zc_signatureCache c1)(ss_Hash sig \<mapsto> sig)))) \<le> max 1 (zc_maxCacheSize c)"
    using c1(4) by (simp only: card_dom_upd [OF fin1 none])
  then show ?thesis
    using old fin1 assms(2-4) unfolding run cache_inv_def
    by (simp add: c1(2))
qed

text \<open>
  C21: Whatever order the runtime visits a map in, the cache of a new compressor keeps to its
  limit over any sequence of signatures (an unreasonable limit counts as 1), every signature
  lies under its own hash with a count of at most its occurrences, and hits and misses add up
  to the number of computations.
\<close>

theorem signature_cache_bounded:
  assumes "map_order ord" "NewCompressor new_writer new_reader (Some config) = Inr c"
    and "list_all (\<lambda>s. ss_Count s = 1 \<and> ss_Hash s \<noteq> '''') sigs"
  shows "cache_inv sigs (fold (cache_signature ord) sigs c) \<and>
     zc_maxCacheSize (fold (cache_signature ord) sigs c) = zf_MaxCacheSize config"
  using assms(3)
proof (induction sigs rule: rev_induct)
  case Nil
  from assms(2) show ?case
    by (auto simp: NewCompressor_def cache_inv_def split: option.splits)
next
  case (snoc sig sigs)
  then show ?case using cache_inv_step [OF assms(1), of sigs _ sig] by simp
qed

definition some_order :: "nat \<Rightarrow> compressor \<Rightarrow> string list" where
  "some_order i c = sorted_list_of_set (dom (zc_signatureCache c))"

lemma some_order: "map_order some_order"
  by (simp add: map_order_def some_order_def)

definition sig_of :: "string \<Rightarrow> subtree_sig" where
  "sig_of k = \<lparr>ss_Hash = k, ss_Structure = '''', ss_Operations = [], ss_Depth = 1, ss_Count = 1\<rparr>"

theorem signature_cache_bounded_witness:
  "\<exists>c. NewCompressor (\<lambda>_. None) None
       (Some \<lparr>zf_CompressionLevel = 3, zf_MaxCacheSize = 2, zf_SimilarityThreshold = Fin 1\<rparr>) = Inr c \<and>
     int (card (dom (zc_signatureCache
       (fold (cache_signature some_order) [sig_of ''a'', sig_of ''b'', sig_of ''c''] c)))) \<le> 2"
proof -
  let ?cfg = "\<lparr>zf_CompressionLevel = 3, zf_MaxCacheSize = 2, zf_SimilarityThreshold = Fin 1\<rparr>"
  have "\<exists>c. NewCompressor (\<lambda>_. None) None (Some ?cfg) = Inr c"
    by (simp add: NewCompressor_def)
  then obtain c where c: "NewCompressor (\<lambda>_. None) None (Some ?cfg) = Inr c" ..
  have "list_all (\<lambda>s. ss_Count s = 1 \<and> ss_Hash s \<noteq> '''') [sig_of ''a'', sig_of ''b'', sig_of ''c'']"
    by (simp add: sig_of_def)
  from signature_cache_bounded [OF some_order c this] c show ?thesis
    unfolding cache_inv_def by auto
qed

section \<open>The signature of a tree\<close>

interpretation subtree: span_walk srt "buildSubtreeStructure srt" "structure_children srt"
    structure_node "\<lambda>indent. indent @ ''  ''" for srt
  by unfold_locales (auto simp: Let_def list_ex_iff structure_node_def split: prod.split)

fun tree_height :: "span_tree \<Rightarrow> nat" where
  "tree_height (SNode a ts) = Suc (foldr max (map tree_height ts) 0)"

lemma depth_loop_max:
  assumes "\<And>c t. unfold_tree h n c = Some t \<Longrightarrow> countDepth n c h = Inr (tree_height t)"
  shows "map (unfold_tree h n) cs = map Some ts \<Longrightarrow>
    depth_loop n cs h m = Inr (max m (foldr max (map tree_height ts) 0))"
proof (induction cs arbitrary: ts m)
  case (Cons c cs)
  then obtain t us where ts: "ts = t # us" "unfold_tree h n c = Some t" "map (unfold_tree h n) cs = map Some us"
    by (cases ts) auto
  have "(if tree_height t > m then tree_height t else m) = max m (tree_height t)" by simp
  with Cons.IH [OF ts(3)] show ?case
    by (simp add: assms [OF ts(2)] ts(1) max.assoc)
qed simp

lemma countDepth_height: "unfold_tree h n a = Some t \<Longrightarrow> countDepth n a h = Inr (tree_height t)"
proof (induction n arbitrary: a t)
  case (Suc n)
  then obtain s ts where "h a = Some s" "t = SNode a ts" "map (unfold_tree h n) (sp_Children s) = map Some ts"
    by (auto simp: unfold_tree_Some simp del: unfold_tree.simps)
  with depth_loop_max [OF Suc.IH, where m=0] show ?case by auto
qed simp

lemma operations_of_tree:
  "snd (fold_tree structure_node (\<lambda>i. i @ ''  '') h i t) = map (\<lambda>b. sp_Operation (the (h b))) (preorder t)"
proof (induction t arbitrary: i)
  case (SNode a ts)
  then show ?case by (simp add: structure_node_def map_concat comp_def cong: map_cong)
qed

text \<open>The tree a heap holds with sorted children: starts that differ leave one order only.\<close>

definition distinct_starts :: "heap \<Rightarrow> bool" where
  "distinct_starts h \<longleftrightarrow>
     (\<forall>a s. h a = Some s \<longrightarrow> distinct (map (\<lambda>c. sp_StartTime (the (h c))) (sp_Children s)))"

lemma sorted_starts_unique:
  assumes "mset xs = mset ys" "distinct (map f xs)" "sorted (map f xs)" "sorted (map f ys)"
  shows "xs = (ys :: addr list)"
proof -
  have "distinct (map f ys)" using assms(1,2) by (metis mset_eq_imp_distinct_iff mset_map)
  moreover have "set ys = set xs" using assms(1) by (metis set_mset_mset)
  moreover from this have "inj_on f (set xs \<union> set ys)" using assms(2) by (simp add: distinct_map)
  ultimately show ?thesis
    using map_sorted_distinct_set_unique [of f xs ys, OF _ assms(3,2,4)] by blast
qed

lemma sorted_tree_unique:
  assumes "distinct_starts h" "reordered h g A" "reordered h k B"
  shows "unfold_tree g n a = Some t \<Longrightarrow> unfold_tree k n a = Some u \<Longrightarrow>
    tree_sorted h t \<Longrightarrow> tree_sorted h u \<Longrightarrow> t = u"
proof (induction n arbitrary: a t u)
  case (Suc n)
  let ?st = "\<lambda>c. sp_StartTime (the (h c))"
  from Suc.prems obtain s ts where s: "g a = Some s" "t = SNode a ts"
      "map (unfold_tree g n) (sp_Children s) = map Some ts"
    by (auto simp: unfold_tree_Some simp del: unfold_tree.simps)
  from Suc.prems obtain r us where r: "k a = Some r" "u = SNode a us"
      "map (unfold_tree k n) (sp_Children r) = map Some us"
    by (auto simp: unfold_tree_Some simp del: unfold_tree.simps)
  obtain o' where o': "h a = Some o'"
    using reordered_at(1) [OF assms(2), of a] s(1) by auto
  have m: "mset (sp_Children s) = mset (sp_Children o')" "mset (sp_Children r) = mset (sp_Children o')"
    using reordered_children [OF assms(2) o' s(1)] reordered_children [OF assms(3) o' r(1)] by simp_all
  have d: "distinct (map ?st (sp_Children o'))" using assms(1) o' by (simp add: distinct_starts_def)
  have roots: "map st_root ts = sp_Children s" "map st_root us = sp_Children r"
    using unfold_trees_roots s(3) r(3) by blast+
  have "sorted (map ?st (map st_root ts))" "sorted (map ?st (map st_root us))"
    using Suc.prems(3,4) by (simp_all add: s(2) r(2) comp_def)
  then have "sorted (map ?st (sp_Children s))" "sorted (map ?st (sp_Children r))"
    by (simp_all only: roots)
  moreover have "distinct (map ?st (sp_Children s))"
    using d m(1) by (metis mset_eq_imp_distinct_iff mset_map)
  ultimately have same: "sp_Children s = sp_Children r"
    using sorted_starts_unique [of "sp_Children s" "sp_Children r" ?st] m by simp
  have len: "length ts = length (sp_Children s)" "length us = length (sp_Children s)"
    using s(3) r(3) same by (metis length_map)+
  have "ts = us"
  proof (rule nth_equalityI)
    fix i assume i: "i < length ts"
    then have "unfold_tree g n (sp_Children s ! i) = Some (ts ! i)"
      "unfold_tree k n (sp_Children s ! i) = Some (us ! i)"
      using s(3) r(3) same len by (metis nth_map)+
    moreover have "tree_sorted h (ts ! i)" "tree_sorted h (us ! i)"
      using Suc.prems(3,4) i len by (simp_all add: s(2) r(2) list_all_length)
    ultimately show "ts ! i = us ! i" by (rule Suc.IH)
  qed (simp add: len)
  then show ?case by (simp add: s(2) r(2))
qed simp

lemma signature_total:
  assumes "slice_sort srt" "unfold_tree h levels a = Some t" "distinct (preorder t)"
  obtains t' h' sig where
    "ComputeSubtreeSignature srt ord levels (Some a) h c = Inr (Some sig, h', cache_signature ord sig c)"
    "unfold_tree h' levels a = Some t'" "mset (preorder t') = mset (preorder t)" "tree_sorted h t'"
    "reordered h h' (set (preorder t))"
    "(ss_Structure sig, ss_Operations sig) = fold_tree structure_node (\<lambda>i. i @ ''  '') h '''' t'"
    "ss_Depth sig = tree_height t'" "ss_Count sig = 1"
    "ss_Hash sig = hex_encode (be_bytes64 (fnv64a (ss_Structure sig)))"
proof -
  obtain t' h' where t': "buildSubtreeStructure srt '''' levels a h =
        Inr (fold_tree structure_node (\<lambda>i. i @ ''  '') h '''' t', h')"
      "unfold_tree h' levels a = Some t'" "mset (preorder t') = mset (preorder t)" "tree_sorted h t'"
      "reordered h h' (set (preorder t))"
    using subtree.walk_total [OF assms, of "''''"] unfolding subtree.walked_def by blast
  obtain str ops where so: "fold_tree structure_node (\<lambda>i. i @ ''  '') h '''' t' = (str, ops)" by force
  show ?thesis
    by (rule that [of "\<lparr>ss_Hash = hex_encode (be_bytes64 (fnv64a str)), ss_Structure = str,
          ss_Operations = ops, ss_Depth = tree_height t', ss_Count = 1\<rparr>" h' t'])
       (use t' so countDepth_height [OF t'(2)] in \<open>simp_all add: ComputeSubtreeSignature_def Let_def\<close>)
qed


definition tagged_heap' :: heap where
  "tagged_heap' = tagged_heap(1 \<mapsto> zero_span\<lparr>sp_Children := [2, 3], sp_Tags := Some Map.empty\<rparr>)"

lemma tagged_trees:
  "unfold_tree tagged_heap 2 1 = Some (SNode 1 [SNode 3 [], SNode 2 []])"
  "unfold_tree tagged_heap' 2 1 = Some (SNode 1 [SNode 2 [], SNode 3 []])"
  by (simp_all add: eval_nat_numeral tagged_heap_def tagged_heap'_def zero_span_def)


section \<open>Similarity\<close>

text \<open>
  For traces whose operations are all different the similarity is their Jaccard index: the
  share of common operations in all of them, between 0 and 1 and the same both ways.
\<close>

theorem similarity_is_jaccard:
  assumes "distinct (ss_Operations a)" "distinct (ss_Operations b)"
    and "ss_Operations a \<noteq> []" "ss_Operations b \<noteq> []"
  defines "A \<equiv> set (ss_Operations a)" and "B \<equiv> set (ss_Operations b)"
  shows "computeSimilarity a b = Fin (real (card (A \<inter> B)) / real (card (A \<union> B))) \<and>
     computeSimilarity b a = computeSimilarity a b \<and>
     f_le (Fin 0) (computeSimilarity a b) \<and> f_le (computeSimilarity a b) (Fin 1)"
proof -
  have sim: "computeSimilarity x y = Fin (real (card (set (ss_Operations x) \<inter> set (ss_Operations y))) /
        real (card (set (ss_Operations x) \<union> set (ss_Operations y))))"
    if "distinct (ss_Operations y)" "ss_Operations x \<noteq> []" "ss_Operations y \<noteq> []" for x y
  proof -
    let ?X = "set (ss_Operations x)" and ?Y = "set (ss_Operations y)"
    have i: "length (filter (\<lambda>op. op \<in> ?X) (ss_Operations y)) = card (?X \<inter> ?Y)"
      using that(1) by (metis distinct_card distinct_filter Int_commute set_filter Collect_conj_eq
          Collect_mem_eq)
    have l: "length (ss_Operations y) = card ?Y" using that(1) by (simp add: distinct_card)
    have u: "card ?X + card ?Y = card (?X \<union> ?Y) + card (?X \<inter> ?Y)"
      by (rule card_Un_Int) simp_all
    have pos: "card (?X \<union> ?Y) \<noteq> 0" using that(2) by simp
    have "int (card ?X) + int (card ?Y) - int (card (?X \<inter> ?Y)) = int (card (?X \<union> ?Y))"
      using u by linarith
    moreover from this pos have "int (card ?X) + int (card ?Y) - int (card (?X \<inter> ?Y)) \<noteq> 0" by linarith
    ultimately show ?thesis
      using that unfolding computeSimilarity_def Let_def i l
      by (simp only: if_False f_of_int_def) (use pos in simp)
  qed
  have "card (A \<inter> B) \<le> card (A \<union> B)" by (rule card_mono) (auto simp: A_def B_def)
  then have "real (card (A \<inter> B)) / real (card (A \<union> B)) \<le> 1"
    by (cases "card (A \<union> B) = 0") (simp_all add: divide_le_eq)
  then show ?thesis
    using sim [OF assms(2,3,4)] sim [OF assms(1,4,3)] by (simp add: A_def B_def Int_commute Un_commute)
qed

theorem similarity_is_jaccard_witness:
  "computeSimilarity ((sig_of ''a'')\<lparr>ss_Operations := [''GET'', ''PUT'']\<rparr>)
     ((sig_of ''b'')\<lparr>ss_Operations := [''PUT'']\<rparr>) = Fin (1 / 2)"
  using similarity_is_jaccard [of "(sig_of ''a'')\<lparr>ss_Operations := [''GET'', ''PUT'']\<rparr>"
      "(sig_of ''b'')\<lparr>ss_Operations := [''PUT'']\<rparr>"] by (simp add: insert_commute)

text \<open>With repeated operations it exceeds 1 and depends on the order of its arguments.\<close>

lemma similarity_exceeds_one:
  "computeSimilarity ((sig_of ''a'')\<lparr>ss_Operations := [''GET'']\<rparr>)
     ((sig_of ''b'')\<lparr>ss_Operations := [''GET'', ''GET'']\<rparr>) = Fin 2"
  "computeSimilarity ((sig_of ''b'')\<lparr>ss_Operations := [''GET'', ''GET'']\<rparr>)
     ((sig_of ''a'')\<lparr>ss_Operations := [''GET'']\<rparr>) = Fin 1"
  by (simp_all add: computeSimilarity_def f_of_int_def)

section \<open>Compressing a trace\<close>

text \<open>
  What compressing leaves of the spans in \<open>A\<close>: the order of the children and the tags may
  differ, but no span becomes a duplicate.
\<close>

definition tagged_on :: "heap \<Rightarrow> addr set \<Rightarrow> bool" where
  "tagged_on h A \<longleftrightarrow> (\<forall>b\<in>A. \<exists>s m. h b = Some s \<and> sp_Tags s = Some m)"

definition retag :: "span \<Rightarrow> span \<Rightarrow> bool" where
  "retag s s' \<longleftrightarrow> (\<exists>cs m m'. sp_Tags s = Some m \<and> s' = s\<lparr>sp_Children := cs, sp_Tags := Some m'\<rparr> \<and>
     mset cs = mset (sp_Children s) \<and> m' ''subtree_duplicate_count'' = m ''subtree_duplicate_count'')"

definition retagged :: "heap \<Rightarrow> heap \<Rightarrow> addr set \<Rightarrow> bool" where
  "retagged h h' A \<longleftrightarrow>
     (\<forall>b. b \<notin> A \<longrightarrow> h' b = h b) \<and> (\<forall>b\<in>A. \<exists>s s'. h b = Some s \<and> h' b = Some s' \<and> retag s s')"

lemma retag_refl: "sp_Tags s = Some m \<Longrightarrow> retag s s"
  unfolding retag_def by (intro exI [of _ "sp_Children s"] exI [of _ m]) simp

lemma retag_trans: "retag s t \<Longrightarrow> retag t u \<Longrightarrow> retag s u"
  unfolding retag_def by (elim exE conjE) (simp, metis)

lemma retagged_refl: "tagged_on h A \<Longrightarrow> retagged h h A"
  unfolding retagged_def tagged_on_def using retag_refl by fastforce

lemma retagged_tagged: "retagged h h' A \<Longrightarrow> tagged_on h' A"
  unfolding retagged_def tagged_on_def retag_def by fastforce

lemma retagged_outside: "retagged h h' A \<Longrightarrow> b \<notin> A \<Longrightarrow> h' b = h b"
  by (simp add: retagged_def)

lemma retagged_trans: "retagged h g A \<Longrightarrow> retagged g k A \<Longrightarrow> retagged h k A"
  unfolding retagged_def using retag_trans by (metis option.inject)

lemma retagged_mono:
  assumes "retagged h h' A" "A \<subseteq> B" "tagged_on h B"
  shows "retagged h h' B"
  unfolding retagged_def
proof (intro conjI allI impI ballI)
  show "h' b = h b" if "b \<notin> B" for b using assms(1,2) that by (auto simp: retagged_def)
  fix b assume "b \<in> B"
  with assms(3) obtain s m where s: "h b = Some s" "sp_Tags s = Some m" by (auto simp: tagged_on_def)
  show "\<exists>s s'. h b = Some s \<and> h' b = Some s' \<and> retag s s'"
  proof (cases "b \<in> A")
    case True
    with assms(1) show ?thesis by (simp add: retagged_def)
  next
    case False
    with assms(1) s show ?thesis by (simp add: retagged_def retag_refl)
  qed
qed

lemma reordered_retagged:
  assumes "reordered h h' A" "tagged_on h A"
  shows "retagged h h' A"
  unfolding retagged_def
proof (intro conjI allI impI ballI)
  show "h' b = h b" if "b \<notin> A" for b using assms(1) that by (rule reordered_outside)
  fix b assume b: "b \<in> A"
  with assms(1) obtain s cs where s: "h b = Some s" "h' b = Some (s\<lparr>sp_Children := cs\<rparr>)"
      "mset cs = mset (sp_Children s)" unfolding reordered_def by blast
  moreover obtain m where "sp_Tags s = Some m" using assms(2) b s(1) by (auto simp: tagged_on_def)
  ultimately have "retag s (s\<lparr>sp_Children := cs\<rparr>)"
    unfolding retag_def by (intro exI [of _ cs] exI [of _ m]) simp
  with s show "\<exists>s s'. h b = Some s \<and> h' b = Some s' \<and> retag s s'" by blast
qed

lemma retagged_one:
  assumes "h a = Some s" "retag s s'"
  shows "retagged h (h(a \<mapsto> s')) {a}"
  using assms by (auto simp: retagged_def)

lemma tag_signature_retag:
  assumes "sp_Tags s = Some m" "ss_Count sig = 1"
  shows "retag s (tag_signature sig s)" "sp_Children (tag_signature sig s) = sp_Children s"
proof -
  show "sp_Children (tag_signature sig s) = sp_Children s"
    by (simp add: tag_signature_def assms(2) Let_def)
  let ?m = "m(''subtree_hash'' \<mapsto> TagStr (ss_Hash sig), ''subtree_depth'' \<mapsto> TagInt (int (ss_Depth sig)),
      ''subtree_operations'' \<mapsto> TagInt (int (length (ss_Operations sig))))"
  have "tag_signature sig s = s\<lparr>sp_Children := sp_Children s, sp_Tags := Some ?m\<rparr>"
    by (simp add: tag_signature_def assms SetTag_def Let_def)
  moreover have "?m ''subtree_duplicate_count'' = m ''subtree_duplicate_count''" by simp
  ultimately show "retag s (tag_signature sig s)"
    unfolding retag_def using assms(1) by blast
qed

fun spans_of :: "compressed_span \<Rightarrow> addr list" where
  "spans_of (CompressedSpan sp zs data ratio isc hash osz csz) = sp # concat (map spans_of zs)"

lemma spans_of_eq: "spans_of z = zs_Span z # concat (map spans_of (zs_Children z))"
  by (cases z) simp

definition compressed_tree ::
  "(heap \<Rightarrow> addr \<Rightarrow> string option) \<Rightarrow> (string \<Rightarrow> string) \<Rightarrow>
   ((addr \<Rightarrow> addr \<Rightarrow> bool) \<Rightarrow> addr list \<Rightarrow> addr list) \<Rightarrow> (nat \<Rightarrow> compressor \<Rightarrow> string list) \<Rightarrow>
   nat \<Rightarrow> addr \<Rightarrow> heap \<Rightarrow> compressor \<Rightarrow> span_tree \<Rightarrow> bool"
where
  "compressed_tree marshal enc srt ord n a h c t \<longleftrightarrow>
     (\<exists>z h' c'. CompressTrace marshal enc srt ord (Suc n) (Some a) h c = Inr (Some z, h', c') \<and>
        mset (spans_of z) = mset (preorder t) \<and> retagged h h' (set (preorder t)))"

lemma compressed_list:
  assumes one: "\<And>b t h c. unfold_tree h n b = Some t \<Longrightarrow> distinct (preorder t) \<Longrightarrow>
      tagged_on h (set (preorder t)) \<Longrightarrow> compressed_tree marshal enc srt ord n b h c t"
  shows "map (unfold_tree h n) bs = map Some ts \<Longrightarrow> distinct (concat (map preorder ts)) \<Longrightarrow>
    tagged_on h (set (concat (map preorder ts))) \<Longrightarrow>
    \<exists>zs h' c'. compress_children marshal enc srt ord (Suc n) bs h c = Inr (zs, h', c') \<and>
      mset (concat (map spans_of zs)) = mset (concat (map preorder ts)) \<and>
      retagged h h' (set (concat (map preorder ts)))"
proof (induction bs arbitrary: ts h c)
  case Nil
  then show ?case by (simp add: retagged_def)
next
  case (Cons b bs)
  then obtain t us where ts: "ts = t # us" "unfold_tree h n b = Some t"
      "map (unfold_tree h n) bs = map Some us"
    by (cases ts) auto
  let ?U = "set (concat (map preorder us))" and ?A = "set (concat (map preorder ts))"
  have A: "?A = set (preorder t) \<union> ?U" by (simp add: ts(1))
  from Cons.prems(2) have d: "distinct (preorder t)" "distinct (concat (map preorder us))"
      "set (preorder t) \<inter> ?U = {}"
    by (auto simp: ts(1))
  have tg: "tagged_on h (set (preorder t))" "tagged_on h ?U"
    using Cons.prems(3) unfolding A by (simp_all add: tagged_on_def)
  obtain z h1 c1 where z: "CompressTrace marshal enc srt ord (Suc n) (Some b) h c = Inr (Some z, h1, c1)"
      "mset (spans_of z) = mset (preorder t)" and r1: "retagged h h1 (set (preorder t))"
    using one [OF ts(2) d(1) tg(1)] unfolding compressed_tree_def by blast
  have same: "h1 b = h b" if "b \<in> ?U" for b
    using retagged_outside [OF r1] d(3) that by blast
  have "map (unfold_tree h1 n) bs = map Some us"
    by (rule unfold_trees_cong [OF ts(3) same])
  moreover have "tagged_on h1 ?U" using tg(2) same by (simp add: tagged_on_def)
  ultimately obtain zs h2 c2 where zs: "compress_children marshal enc srt ord (Suc n) bs h1 c1 = Inr (zs, h2, c2)"
      "mset (concat (map spans_of zs)) = mset (concat (map preorder us))" and r2: "retagged h1 h2 ?U"
    using Cons.IH [OF _ d(2)] by blast
  have r1': "retagged h h1 ?A" by (rule retagged_mono [OF r1]) (use A Cons.prems(3) in auto)
  then have "retagged h1 h2 ?A"
    by (intro retagged_mono [OF r2] retagged_tagged) (use A in auto)
  with r1' have "retagged h h2 ?A" by (rule retagged_trans)
  moreover have "\<exists>s. h b = Some s" using unfold_tree_root [OF ts(2)] by blast
  then have "compress_children marshal enc srt ord (Suc n) (b # bs) h c = Inr (z # zs, h2, c2)"
    by (auto simp: z(1) zs(1) simp del: CompressTrace.simps)
  ultimately show ?case using z(2) zs(2) by (auto simp: ts(1))
qed

lemma compress_total:
  assumes "slice_sort srt"
  shows "unfold_tree h n a = Some t \<Longrightarrow> distinct (preorder t) \<Longrightarrow> tagged_on h (set (preorder t)) \<Longrightarrow>
    compressed_tree marshal enc srt ord n a h c t"
proof (induction n arbitrary: a t h c)
  case (Suc n)
  let ?A = "set (preorder t)"
  have a: "a \<in> ?A" "h a \<noteq> None" using unfold_tree_root [OF Suc.prems(1)] by blast+
  obtain s m where s: "h a = Some s" "sp_Tags s = Some m" using Suc.prems(3) a(1) by (auto simp: tagged_on_def)
  obtain z h1 c1 where z: "CompressSpan marshal enc (Some a) h c = Inr (Some z, h1, c1)" "zs_Span z = a"
      "retagged h h1 ?A" "\<And>b. map_option sp_Children (h1 b) = map_option sp_Children (h b)"
    using s
  proof (cases rule: CompressSpan_cases [of h a s m marshal enc c])
    case (plain c')
    then show ?thesis using that retagged_refl [OF Suc.prems(3)] by (simp add: bare_compressed_def)
  next
    case (packed c' data mm ratio)
    have "s\<lparr>sp_Tags := Some mm\<rparr> = s\<lparr>sp_Children := sp_Children s, sp_Tags := Some mm\<rparr>" by simp
    then have "retag s (s\<lparr>sp_Tags := Some mm\<rparr>)" unfolding retag_def using s(2) packed(8) by blast
    then have "retagged h (h(a \<mapsto> s\<lparr>sp_Tags := Some mm\<rparr>)) ?A"
      by (intro retagged_mono [OF retagged_one [of h a s]]) (use s(1) a(1) Suc.prems(3) in auto)
    with packed(1) show ?thesis by (rule that [OF _ compressed_span.sel(1)]) (use s(1) in auto)
  qed
  have u1: "unfold_tree h1 (Suc n) a = Some t" by (rule unfold_tree_kids [OF z(4) Suc.prems(1)])
  obtain t' h2 sig where sig:
    "ComputeSubtreeSignature srt ord (Suc n) (Some a) h1 c1 = Inr (Some sig, h2, cache_signature ord sig c1)"
    "unfold_tree h2 (Suc n) a = Some t'" "mset (preorder t') = mset (preorder t)"
    "reordered h1 h2 ?A" "ss_Count sig = 1"
    using signature_total [OF assms u1 Suc.prems(2)] by metis
  have r2: "retagged h h2 ?A"
    using retagged_trans [OF z(3)] reordered_retagged [OF sig(4) retagged_tagged [OF z(3)]] by blast
  have A': "set (preorder t') = ?A" "distinct (preorder t')"
    using sig(3) Suc.prems(2) by (metis set_mset_mset, metis mset_eq_imp_distinct_iff)
  obtain s2 ts where s2: "h2 a = Some s2" "t' = SNode a ts" "map (unfold_tree h2 n) (sp_Children s2) = map Some ts"
    using sig(2) by (auto simp: unfold_tree_Some simp del: unfold_tree.simps)
  obtain m2 where m2: "sp_Tags s2 = Some m2"
    using retagged_tagged [OF r2] a(1) s2(1) by (auto simp: tagged_on_def)
  define h3 where "h3 = h2(a \<mapsto> tag_signature sig s2)"
  have "retagged h2 h3 ?A"
    unfolding h3_def using retagged_one [of h2 a s2, OF s2(1) tag_signature_retag(1) [OF m2 sig(5)]]
    by (rule retagged_mono) (use a(1) retagged_tagged [OF r2] in auto)
  with r2 have r3: "retagged h h3 ?A" by (rule retagged_trans)
  let ?U = "set (concat (map preorder ts))"
  have U: "?U \<subseteq> ?A" "a \<notin> ?U" "distinct (concat (map preorder ts))"
    using A' by (auto simp: s2(2))
  have "map (unfold_tree h3 n) (sp_Children s2) = map Some ts"
    by (rule unfold_trees_cong [OF s2(3)]) (use U(2) in \<open>auto simp: h3_def\<close>)
  moreover have "tagged_on h3 ?U" using retagged_tagged [OF r3] U(1) by (auto simp: tagged_on_def)
  ultimately obtain zs h4 c4 where zs: "compress_children marshal enc srt ord (Suc n) (sp_Children s2) h3
        (cache_signature ord sig c1) = Inr (zs, h4, c4)"
      "mset (concat (map spans_of zs)) = mset (concat (map preorder ts))" "retagged h3 h4 ?U"
    using compressed_list [OF Suc.IH _ U(3)] by blast
  have "retagged h3 h4 ?A" by (rule retagged_mono [OF zs(3) U(1) retagged_tagged [OF r3]])
  with r3 have "retagged h h4 ?A" by (rule retagged_trans)
  moreover have "CompressTrace marshal enc srt ord (Suc (Suc n)) (Some a) h c =
      Inr (Some (set_signature (ss_Hash sig) zs z), h4, c4)"
    using z(1) sig(1) s2(1) zs(1) by (simp add: h3_def)
  moreover have "mset (spans_of (set_signature (ss_Hash sig) zs z)) = mset (preorder t)"
    using zs(2) z(2) sig(3) by (simp add: set_signature_def s2(2) flip: sig(3))
  ultimately show ?case unfolding compressed_tree_def by blast
qed simp



end
