(* ===== verification/Flamegraph.thy ===== *)
theory Flamegraph
  imports Span_Walk
begin

text \<open>
  \<open>pkg/flamegraph/flamegraph.go\<close>: the conversion of a trace to frames, the folded stacks,
  the statistics per name, the hot spots and the SVG picture. Frames are created by the
  conversion and never shared, so they are trees; the spans they come from are on the heap,
  and the conversion sorts their \<open>Children\<close> in place. The conversion recurses through
  pointers: its first argument is the number of stack levels the goroutine has.
\<close>

section \<open>Data\<close>

datatype flame_frame = Frame
  (ff_Name: string) (ff_Service: string) (ff_Value: int) (ff_StartTime: gtime)
  (ff_EndTime: gtime) (ff_Duration: f64) (ff_SpanID: string)
  (ff_Children: "flame_frame list")

record flame_graph =
  fg_Root :: flame_frame
  fg_Title :: string
  fg_Width :: int

record frame_stats =
  fs_TotalTime :: f64
  fs_SelfTime :: f64
  fs_CallCount :: int
  fs_Percentage :: f64

record color_palette =
  cp_BaseHue :: int
  cp_HueRange :: int
  cp_MinSaturation :: int
  cp_MaxSaturation :: int
  cp_MinLightness :: int
  cp_MaxLightness :: int

record svg_config =
  sv_Width :: int
  sv_HeightPerFrame :: int
  sv_FontSize :: int
  sv_Title :: string
  sv_Colors :: color_palette

definition DefaultColorPalette :: color_palette where
  "DefaultColorPalette = \<lparr>cp_BaseHue = 200, cp_HueRange = 60, cp_MinSaturation = 70,
     cp_MaxSaturation = 90, cp_MinLightness = 40, cp_MaxLightness = 70\<rparr>"

definition DefaultSVGConfig :: svg_config where
  "DefaultSVGConfig = \<lparr>sv_Width = 1200, sv_HeightPerFrame = 18, sv_FontSize = 12,
     sv_Title = ''Trace Flame Graph'', sv_Colors = DefaultColorPalette\<rparr>"

section \<open>From spans to frames\<close>

definition frame_of_span :: "span \<Rightarrow> flame_frame list \<Rightarrow> flame_frame" where
  "frame_of_span s cs =
     (let name = sp_ServiceName s @ '':'' @ sp_Operation s;
          name = (if sp_Protocol s \<noteq> '''' then name @ '' ['' @ sp_Protocol s @ '']'' else name)
      in Frame name (sp_ServiceName s) (f_to_int64 (f_mul (sp_DurationMs s) (Fin 1000)))
           (sp_StartTime s) (sp_EndTime s) (sp_DurationMs s) (sp_SpanID s) cs)"

fun convertSpanToFlameFrame ::
    "((addr \<Rightarrow> addr \<Rightarrow> bool) \<Rightarrow> addr list \<Rightarrow> addr list) \<Rightarrow> nat \<Rightarrow> addr \<Rightarrow> heap \<Rightarrow>
     (flame_frame \<times> heap) go"
  and convert_children ::
    "((addr \<Rightarrow> addr \<Rightarrow> bool) \<Rightarrow> addr list \<Rightarrow> addr list) \<Rightarrow> nat \<Rightarrow> addr list \<Rightarrow> heap \<Rightarrow>
     (flame_frame list \<times> heap) go"
where
  "convertSpanToFlameFrame srt 0 a h = Inl StackOverflow"
| "convertSpanToFlameFrame srt (Suc n) a h =
     (case h a of
        None \<Rightarrow> Inl NilDeref
      | Some s \<Rightarrow>
          if sp_Children s \<noteq> [] then
            if list_ex (\<lambda>c. h c = None) (sp_Children s) then Inl NilDeref
            else
              let cs = srt (starts_before h) (sp_Children s);
                  h = h(a \<mapsto> s\<lparr>sp_Children := cs\<rparr>)
              in go_bind (convert_children srt n cs h) (\<lambda>(fs, h). Inr (frame_of_span s fs, h))
          else Inr (frame_of_span s [], h))"
| "convert_children srt n [] h = Inr ([], h)"
| "convert_children srt n (c # cs) h =
     go_bind (convertSpanToFlameFrame srt n c h) (\<lambda>(f, h).
     go_bind (convert_children srt n cs h) (\<lambda>(fs, h). Inr (f # fs, h)))"

definition NewFlameGraph ::
  "((addr \<Rightarrow> addr \<Rightarrow> bool) \<Rightarrow> addr list \<Rightarrow> addr list) \<Rightarrow> nat \<Rightarrow> addr option \<Rightarrow> string \<Rightarrow> heap \<Rightarrow>
   (flame_graph option \<times> heap) go"
where
  "NewFlameGraph srt levels rt title h =
     (case rt of
        None \<Rightarrow> Inr (None, h)
      | Some a \<Rightarrow>
          go_bind (convertSpanToFlameFrame srt levels a h) (\<lambda>(f, h).
            Inr (Some \<lparr>fg_Root = f, fg_Title = title, fg_Width = 1200\<rparr>, h)))"

section \<open>Folded stacks\<close>

fun collectFolded :: "string list \<Rightarrow> flame_frame \<Rightarrow> string list" where
  "collectFolded stack (Frame name svc val st en dur sid cs) =
     (let currentStack = stack @ [name] in
      (str_join '';'' currentStack @ '' '' @ int_dec val) # concat (map (collectFolded currentStack) cs))"

definition ToFolded :: "flame_graph \<Rightarrow> string" where
  "ToFolded fg = str_join [CHR 0x0A] (collectFolded [] (fg_Root fg))"

section \<open>Depth, statistics and hot spots\<close>

fun calculateMaxDepth :: "flame_frame \<Rightarrow> nat \<Rightarrow> nat"
  and max_depth_loop :: "flame_frame list \<Rightarrow> nat \<Rightarrow> nat \<Rightarrow> nat"
where
  "calculateMaxDepth (Frame name svc val st en dur sid cs) currentDepth =
     (if cs = [] then currentDepth else max_depth_loop cs currentDepth currentDepth)"
| "max_depth_loop [] currentDepth maxDepth = maxDepth"
| "max_depth_loop (c # cs) currentDepth maxDepth =
     (let d = calculateMaxDepth c (currentDepth + 1)
      in max_depth_loop cs currentDepth (if d > maxDepth then d else maxDepth))"

fun collectFrameStats ::
    "f64 \<Rightarrow> flame_frame \<Rightarrow> (string \<rightharpoonup> frame_stats) \<Rightarrow> (string \<rightharpoonup> frame_stats)"
  and stats_children ::
    "f64 \<Rightarrow> flame_frame list \<Rightarrow> f64 \<Rightarrow> (string \<rightharpoonup> frame_stats) \<Rightarrow> f64 \<times> (string \<rightharpoonup> frame_stats)"
where
  "collectFrameStats rootDur (Frame name svc val st en dur sid cs) stats =
     (let stats = (case stats name of
            Some s \<Rightarrow> stats(name \<mapsto> s\<lparr>fs_TotalTime := f_add (fs_TotalTime s) dur,
                                     fs_CallCount := fs_CallCount s + 1\<rparr>)
          | None \<Rightarrow> stats(name \<mapsto> \<lparr>fs_TotalTime = dur, fs_SelfTime = Fin 0, fs_CallCount = 1,
                                   fs_Percentage = f_mul (f_div dur rootDur) (Fin 100)\<rparr>));
          (childTime, stats) = stats_children rootDur cs (Fin 0) stats
      in stats(name := map_option (\<lambda>s. s\<lparr>fs_SelfTime := f_sub dur childTime,
             fs_Percentage := f_mul (f_div (fs_TotalTime s) rootDur) (Fin 100)\<rparr>) (stats name)))"
| "stats_children rootDur [] childTime stats = (childTime, stats)"
| "stats_children rootDur (c # cs) childTime stats =
     stats_children rootDur cs (f_add childTime (ff_Duration c)) (collectFrameStats rootDur c stats)"

definition GetFrameStats :: "flame_graph \<Rightarrow> (string \<rightharpoonup> frame_stats)" where
  "GetFrameStats fg = collectFrameStats (ff_Duration (fg_Root fg)) (fg_Root fg) Map.empty"

fun collectAllFrames :: "flame_frame \<Rightarrow> flame_frame list" where
  "collectAllFrames (Frame name svc val st en dur sid cs) =
     Frame name svc val st en dur sid cs # concat (map collectAllFrames cs)"

definition self_time :: "flame_frame \<Rightarrow> f64" where
  "self_time f = foldl (\<lambda>t c. f_sub t (ff_Duration c)) (ff_Duration f) (ff_Children f)"

definition GetHotSpots ::
  "((flame_frame \<Rightarrow> flame_frame \<Rightarrow> bool) \<Rightarrow> flame_frame list \<Rightarrow> flame_frame list) \<Rightarrow>
   flame_graph \<Rightarrow> int \<Rightarrow> flame_frame list"
where
  "GetHotSpots srt fg n =
     (let frames = srt (\<lambda>f g. f_lt (self_time g) (self_time f)) (collectAllFrames (fg_Root fg))
      in if 0 < n \<and> n < int (length frames) then take (nat n) frames else frames)"

section \<open>The picture\<close>

definition getColor :: "flame_frame \<Rightarrow> int \<Rightarrow> svg_config \<Rightarrow> string go" where
  "getColor f depth config =
     (let h = fnv32a (ff_Name f); p = sv_Colors config in
      go_bind (go_rem (uint h) (cp_HueRange p)) (\<lambda>r1.
      go_bind (go_rem (uint (drop_bit 8 h)) (wrap64 (cp_MaxSaturation p - cp_MinSaturation p))) (\<lambda>r2.
        let hue = wrap64 (cp_BaseHue p + r1);
            saturation = wrap64 (cp_MinSaturation p + r2);
            lightness = wrap64 (cp_MaxLightness p - wrap64 (depth * 3));
            lightness = (if lightness < cp_MinLightness p then cp_MinLightness p else lightness);
            (hue, saturation) =
              (if f_lt (Fin 500) (ff_Duration f) then (0, 90)
               else if f_lt (Fin 200) (ff_Duration f) then (30, 80) else (hue, saturation))
        in Inr (''hsl('' @ int_dec hue @ '', '' @ int_dec saturation @ ''%, '' @ int_dec lightness @ ''%)''))))"

text \<open>The label of a wide frame: cut to the characters that fit.\<close>

definition frame_label :: "svg_config \<Rightarrow> f64 \<Rightarrow> string \<Rightarrow> string go" where
  "frame_label config width text =
     (let maxChars = f_to_int64 (f_mul (f_div width (f_of_int (sv_FontSize config))) (Fin (18 / 10)))
      in if int (length text) > maxChars
         then go_bind (str_sub text 0 (wrap64 (maxChars - 3))) (\<lambda>t. Inr (t @ ''...''))
         else Inr text)"

definition nl :: string where "nl = [CHR 0x0A]"

text \<open>The group of one frame.\<close>

definition frame_group ::
  "svg_config \<Rightarrow> flame_frame \<Rightarrow> f64 \<Rightarrow> f64 \<Rightarrow> f64 \<Rightarrow> f64 \<Rightarrow> int \<Rightarrow> string go"
where
  "frame_group config f x y width height depth =
     go_bind (getColor f depth config) (\<lambda>color.
       let tooltip = ff_Name f @ nl @ ''Duration: '' @ f_fixed 2 (ff_Duration f) @ ''ms'' @ nl @
             ''Service: '' @ ff_Service f @ nl @ ''SpanID: '' @ ff_SpanID f;
           head = ''<g class=\"frame\">'' @ ''<title>'' @ html_escape tooltip @ ''</title>'' @
             ''<rect x=\"'' @ f_fixed 2 x @ ''\" y=\"'' @ f_fixed 2 y @ ''\" width=\"'' @ f_fixed 2 width @
             ''\" height=\"'' @ f_fixed 2 (f_sub height (Fin 1)) @ ''\" fill=\"'' @ color @
             ''\" stroke=\"#fff\" stroke-width=\"1\" rx=\"2\" ry=\"2\"/>''
       in if f_lt (Fin 80) width then
            go_bind (frame_label config width (ff_Name f)) (\<lambda>text.
              Inr (head @ ''<text x=\"'' @ f_fixed 2 (f_add x (Fin 5)) @ ''\" y=\"'' @
                f_fixed 2 (f_sub (f_add y height) (Fin 5)) @ ''\" font-size=\"'' @
                int_dec (wrap64 (sv_FontSize config - 2)) @ ''\" fill=\"#fff\" pointer-events=\"none\">'' @
                html_escape text @ ''</text>'' @ ''</g>''))
          else Inr (head @ ''</g>''))"

definition child_width :: "svg_config \<Rightarrow> f64 \<Rightarrow> flame_frame \<Rightarrow> f64" where
  "child_width config totalValue c =
     f_mul (f_div (f_of_int (ff_Value c)) totalValue) (f_of_int (sv_Width config))"

text \<open>A frame narrower than half a pixel is not drawn, and nothing under it is.\<close>

fun drawFrame ::
    "svg_config \<Rightarrow> f64 \<Rightarrow> flame_frame \<Rightarrow> f64 \<Rightarrow> f64 \<Rightarrow> f64 \<Rightarrow> f64 \<Rightarrow> int \<Rightarrow> string go"
  and draw_children ::
    "svg_config \<Rightarrow> f64 \<Rightarrow> flame_frame list \<Rightarrow> f64 \<Rightarrow> f64 \<Rightarrow> f64 \<Rightarrow> int \<Rightarrow> string go"
where
  "drawFrame config totalValue (Frame name svc val st en dur sid cs) x y width height depth =
     (if f_lt width (Fin (1 / 2)) then Inr ''''
      else
        go_bind (frame_group config (Frame name svc val st en dur sid cs) x y width height depth) (\<lambda>g.
        go_bind (draw_children config totalValue cs x (f_add y height) height (depth + 1)) (\<lambda>rest.
          Inr (g @ rest))))"
| "draw_children config totalValue [] childX childY height depth = Inr ''''"
| "draw_children config totalValue (c # cs) childX childY height depth =
     (let childWidth = child_width config totalValue c in
      go_bind (drawFrame config totalValue c childX childY childWidth height depth) (\<lambda>g.
      go_bind (draw_children config totalValue cs (f_add childX childWidth) childY height depth) (\<lambda>rest.
        Inr (g @ rest))))"

definition svg_gradient :: string where
  "svg_gradient = ''<defs>'' @ nl @
     ''    <linearGradient id=\"titleGradient\" x1=\"0%\" y1=\"0%\" x2=\"0%\" y2=\"100%\">'' @ nl @
     ''      <stop offset=\"0%\" style=\"stop-color:#f5f5f5;stop-opacity:1\" />'' @ nl @
     ''      <stop offset=\"100%\" style=\"stop-color:#e0e0e0;stop-opacity:1\" />'' @ nl @
     ''    </linearGradient>'' @ nl @ ''  </defs>''"

text \<open>What is written before and after the frames. \<open>config.Width/2\<close> truncates towards zero.\<close>

definition svg_head :: "svg_config \<Rightarrow> int \<Rightarrow> string" where
  "svg_head config height =
     (let w = int_dec (sv_Width config); title = html_escape (sv_Title config) in
      ''<svg xmlns=\"http://www.w3.org/2000/svg\" width=\"'' @ w @ ''\" height=\"'' @
      int_dec height @ ''\" font-family=\"Verdana, sans-serif\" font-size=\"'' @
      int_dec (sv_FontSize config) @ ''\">'' @
      ''<title>'' @ title @ ''</title>'' @ svg_gradient @
      ''<rect width=\"'' @ w @ ''\" height=\"25\" fill=\"url(#titleGradient)\"/>'' @
      ''<text x=\"'' @ int_dec (sgn (sv_Width config) * (\<bar>sv_Width config\<bar> div 2)) @
      ''\" y=\"17\" text-anchor=\"middle\" font-weight=\"bold\" fill=\"#333\">'' @ title @ ''</text>'')"

definition svg_foot :: "svg_config \<Rightarrow> int \<Rightarrow> f64 \<Rightarrow> nat \<Rightarrow> string" where
  "svg_foot config height dur maxDepth =
     (let y = int_dec (wrap64 (height - 10)); size = int_dec (wrap64 (sv_FontSize config - 1)) in
      ''<text x=\"5\" y=\"'' @ y @ ''\" font-size=\"'' @ size @ ''\" fill=\"#666\">Total: '' @
      f_fixed 2 dur @ ''ms</text>'' @
      ''<text x=\"'' @ int_dec (wrap64 (sv_Width config - 5)) @ ''\" y=\"'' @ y @
      ''\" text-anchor=\"end\" font-size=\"'' @ size @ ''\" fill=\"#666\">Depth: '' @
      nat_dec maxDepth @ ''</text>'' @ ''</svg>'')"

text \<open>
  The configuration is passed by pointer: a zero base hue is replaced in the caller's
  configuration, which is part of the result.
\<close>

definition ToSVG :: "flame_graph \<Rightarrow> svg_config option \<Rightarrow> (string \<times> svg_config) go" where
  "ToSVG fg cfg =
     (let config = (case cfg of None \<Rightarrow> DefaultSVGConfig | Some c \<Rightarrow> c);
          config = (if cp_BaseHue (sv_Colors config) = 0
                    then config\<lparr>sv_Colors := DefaultColorPalette\<rparr> else config);
          maxDepth = calculateMaxDepth (fg_Root fg) 1;
          height = wrap64 (20 + wrap64 (int maxDepth * sv_HeightPerFrame config) + 40);
          totalValue = (if ff_Value (fg_Root fg) = 0 then Fin 1 else f_of_int (ff_Value (fg_Root fg)))
      in go_bind (drawFrame config totalValue (fg_Root fg) (Fin 0) (Fin 25) (f_of_int (sv_Width config))
           (f_of_int (sv_HeightPerFrame config)) 0) (\<lambda>frames.
         Inr (svg_head config height @ frames @
           svg_foot config height (ff_Duration (fg_Root fg)) maxDepth, config)))"

section \<open>The conversion\<close>

text \<open>A frame without its children.\<close>

definition bare :: "flame_frame \<Rightarrow> flame_frame" where
  "bare f = Frame (ff_Name f) (ff_Service f) (ff_Value f) (ff_StartTime f) (ff_EndTime f)
     (ff_Duration f) (ff_SpanID f) []"

fun by_start :: "flame_frame \<Rightarrow> bool" where
  "by_start (Frame name svc val st en dur sid cs) \<longleftrightarrow>
     sorted (map ff_StartTime cs) \<and> list_all by_start cs"

interpretation flame: span_walk srt "\<lambda>i. convertSpanToFlameFrame srt" "\<lambda>i. convert_children srt"
    "\<lambda>i. frame_of_span" "\<lambda>i. i" for srt
  by unfold_locales (auto simp: Let_def list_ex_iff frame_of_span_def split: prod.split)

definition frame_tree :: "heap \<Rightarrow> span_tree \<Rightarrow> flame_frame" where
  "frame_tree h t = fold_tree (\<lambda>i. frame_of_span) (\<lambda>i. i) h () t"

lemma frame_tree_node [simp]: "frame_tree h (SNode a ts) = frame_of_span (the (h a)) (map (frame_tree h) ts)"
  by (simp add: frame_tree_def [abs_def])

lemma frame_of_span_sel [simp]:
  "ff_Children (frame_of_span s fs) = fs" "ff_StartTime (frame_of_span s fs) = sp_StartTime s"
  "ff_SpanID (frame_of_span s fs) = sp_SpanID s" "ff_Duration (frame_of_span s fs) = sp_DurationMs s"
  "bare (frame_of_span s fs) = frame_of_span s []"
  by (simp_all add: frame_of_span_def bare_def Let_def)

lemma collectAllFrames_eq: "collectAllFrames f = f # concat (map collectAllFrames (ff_Children f))"
  by (cases f) simp

lemma by_start_eq:
  "by_start f \<longleftrightarrow> sorted (map ff_StartTime (ff_Children f)) \<and> list_all by_start (ff_Children f)"
  by (cases f) simp

lemma frames_of_tree:
  "map bare (collectAllFrames (frame_tree h t)) = map (\<lambda>b. frame_of_span (the (h b)) []) (preorder t)"
proof (induction t)
  case (SNode a ts)
  then show ?case
    by (simp add: collectAllFrames_eq [of "frame_of_span s fs" for s fs] map_concat comp_def cong: map_cong)
qed

lemma frame_tree_start: "ff_StartTime (frame_tree h t) = sp_StartTime (the (h (st_root t)))"
  by (cases t) simp

lemma by_start_tree: "tree_sorted h t \<Longrightarrow> by_start (frame_tree h t)"
proof (induction t)
  case (SNode a ts)
  then show ?case
    by (simp add: by_start_eq [of "frame_of_span s fs" for s fs] list_all_iff comp_def frame_tree_start)
qed

lemma bare_value [simp]: "ff_Value (bare f) = ff_Value f"
  by (simp add: bare_def)

lemma NewFlameGraph_total:
  assumes "slice_sort srt" "unfold_tree h levels a = Some t" "distinct (preorder t)"
  obtains f h' where "NewFlameGraph srt levels (Some a) title h =
      Inr (Some \<lparr>fg_Root = f, fg_Title = title, fg_Width = 1200\<rparr>, h')"
    "ff_Value f = ff_Value (frame_of_span (the (h a)) [])"
    "mset (map bare (collectAllFrames f)) = mset (map (\<lambda>b. frame_of_span (the (h b)) []) (preorder t))"
    "by_start f" "reordered h h' (set (preorder t))"
proof -
  obtain t' h' where t': "convertSpanToFlameFrame srt levels a h = Inr (frame_tree h t', h')"
      "mset (preorder t') = mset (preorder t)" "tree_sorted h t'" "reordered h h' (set (preorder t))"
      "unfold_tree h' levels a = Some t'"
    using flame.walk_total [OF assms, of "()"] unfolding flame.walked_def frame_tree_def by blast
  have "mset (map bare (collectAllFrames (frame_tree h t'))) =
      mset (map (\<lambda>b. frame_of_span (the (h b)) []) (preorder t))"
    unfolding frames_of_tree using t'(2) by (simp only: mset_map)
  moreover have "ff_Value (frame_tree h t') = ff_Value (frame_of_span (the (h a)) [])"
    using unfold_tree_root [OF t'(5)] by (cases t') (simp add: frame_of_span_def Let_def)
  ultimately show ?thesis
    using that t' by_start_tree by (simp add: NewFlameGraph_def)
qed

section \<open>Depth\<close>

fun frame_height :: "flame_frame \<Rightarrow> nat" where
  "frame_height (Frame name svc val st en dur sid cs) = Suc (foldr max (map frame_height cs) 0)"

lemma max_depth_height:
  "Suc (calculateMaxDepth f d) = d + frame_height f"
  "max_depth_loop cs d m = max m (if cs = [] then m else d + foldr max (map frame_height cs) 0)"
proof (induction f d and cs d m rule: calculateMaxDepth_max_depth_loop.induct)
  case (1 name svc val st en dur sid cs d)
  then show ?case by auto
next
  case (3 c cs d m)
  let ?d = "calculateMaxDepth c (d + 1)"
  have c: "?d = d + frame_height c" using 3(1) by simp
  have m: "(if ?d > m then ?d else m) = max m ?d" by simp
  have "max_depth_loop (c # cs) d m = max_depth_loop cs d (max m ?d)"
    by (simp only: max_depth_loop.simps Let_def m)
  also have "\<dots> = max (max m ?d) (if cs = [] then max m ?d else d + foldr max (map frame_height cs) 0)"
    using 3(2) [OF refl] by (simp only: m)
  finally show ?case using c by auto
qed simp

section \<open>Statistics\<close>

fun post_order :: "flame_frame \<Rightarrow> flame_frame list" where
  "post_order (Frame name svc val st en dur sid cs) =
     concat (map post_order cs) @ [Frame name svc val st en dur sid cs]"

definition frame_self :: "flame_frame \<Rightarrow> f64" where
  "frame_self f = f_sub (ff_Duration f) (foldl f_add (Fin 0) (map ff_Duration (ff_Children f)))"

definition calls_of :: "(string \<rightharpoonup> frame_stats) \<Rightarrow> string \<Rightarrow> int" where
  "calls_of st k = (case st k of None \<Rightarrow> 0 | Some s \<Rightarrow> fs_CallCount s)"

definition time_of :: "(string \<rightharpoonup> frame_stats) \<Rightarrow> string \<Rightarrow> real" where
  "time_of st k = (case st k of None \<Rightarrow> 0 | Some s \<Rightarrow> f_val (fs_TotalTime s))"

definition self_of :: "(string \<rightharpoonup> frame_stats) \<Rightarrow> string \<Rightarrow> f64 option" where
  "self_of st k = map_option fs_SelfTime (st k)"

definition finite_times :: "(string \<rightharpoonup> frame_stats) \<Rightarrow> bool" where
  "finite_times st \<longleftrightarrow> (\<forall>k s. st k = Some s \<longrightarrow> f_finite (fs_TotalTime s))"

definition named :: "string \<Rightarrow> flame_frame list \<Rightarrow> flame_frame list" where
  "named k fs = filter (\<lambda>f. ff_Name f = k) fs"

lemma named_append [simp]: "named k (xs @ ys) = named k xs @ named k ys"
  by (simp add: named_def)

lemma named_Cons [simp]: "named k (f # fs) = (if ff_Name f = k then f # named k fs else named k fs)"
  by (simp add: named_def)

lemma named_Nil [simp]: "named k [] = []"
  by (simp add: named_def)

text \<open>The number of calls of a name.\<close>

lemma calls_collect:
  "calls_of (collectFrameStats r f st) k = calls_of st k + int (length (named k (collectAllFrames f)))"
  "calls_of (snd (stats_children r cs t st)) k =
     calls_of st k + int (length (named k (concat (map collectAllFrames cs))))"
proof (induction r f st and r cs t st rule: collectFrameStats_stats_children.induct)
  case (1 r name svc val st en dur sid cs stats)
  define st1 where "st1 = (case stats name of
      Some s \<Rightarrow> stats(name \<mapsto> s\<lparr>fs_TotalTime := f_add (fs_TotalTime s) dur, fs_CallCount := fs_CallCount s + 1\<rparr>)
    | None \<Rightarrow> stats(name \<mapsto> \<lparr>fs_TotalTime = dur, fs_SelfTime = Fin 0, fs_CallCount = 1,
        fs_Percentage = f_mul (f_div dur r) (Fin 100)\<rparr>))"
  obtain ct st2 where c: "stats_children r cs (Fin 0) st1 = (ct, st2)" by force
  have "calls_of st2 k = calls_of st1 k + int (length (named k (concat (map collectAllFrames cs))))"
    using 1 [OF st1_def] c by simp
  moreover have "calls_of st1 k = calls_of stats k + (if name = k then 1 else 0)"
    by (auto simp: st1_def calls_of_def split: option.split)
  moreover have "calls_of (collectFrameStats r (Frame name svc val st en dur sid cs) stats) k = calls_of st2 k"
    by (simp add: c calls_of_def flip: st1_def split: option.split)
  ultimately show ?case by simp
qed simp_all

text \<open>The time of a name, when all durations are finite.\<close>

lemma time_collect:
  "list_all (\<lambda>g. f_finite (ff_Duration g)) (collectAllFrames f) \<Longrightarrow> finite_times st \<Longrightarrow>
   finite_times (collectFrameStats r f st) \<and>
   time_of (collectFrameStats r f st) k =
     time_of st k + sum_list (map (\<lambda>g. f_val (ff_Duration g)) (named k (collectAllFrames f)))"
  "list_all (\<lambda>g. f_finite (ff_Duration g)) (concat (map collectAllFrames cs)) \<Longrightarrow> finite_times st \<Longrightarrow>
   finite_times (snd (stats_children r cs t st)) \<and>
   time_of (snd (stats_children r cs t st)) k =
     time_of st k + sum_list (map (\<lambda>g. f_val (ff_Duration g)) (named k (concat (map collectAllFrames cs))))"
proof (induction r f st and r cs t st rule: collectFrameStats_stats_children.induct)
  case (1 r name svc val st en dur sid cs stats)
  define st1 where "st1 = (case stats name of
      Some s \<Rightarrow> stats(name \<mapsto> s\<lparr>fs_TotalTime := f_add (fs_TotalTime s) dur, fs_CallCount := fs_CallCount s + 1\<rparr>)
    | None \<Rightarrow> stats(name \<mapsto> \<lparr>fs_TotalTime = dur, fs_SelfTime = Fin 0, fs_CallCount = 1,
        fs_Percentage = f_mul (f_div dur r) (Fin 100)\<rparr>))"
  obtain d where d: "dur = Fin d" using 1(2) by (cases dur) auto
  have old: "\<exists>x. fs_TotalTime s = Fin x" if "stats k = Some s" for k s
  proof -
    have "f_finite (fs_TotalTime s)" using 1(3) that unfolding finite_times_def by blast
    then show ?thesis by (cases "fs_TotalTime s") auto
  qed
  have f1: "finite_times st1"
    using 1(3) old [of name] d by (auto simp: st1_def finite_times_def split: option.splits if_splits)
  have t1: "time_of st1 k = time_of stats k + (if name = k then d else 0)"
    using old [of name] d by (auto simp: st1_def time_of_def split: option.splits)
  obtain ct st2 where c: "stats_children r cs (Fin 0) st1 = (ct, st2)" by force
  have "finite_times st2 \<and> time_of st2 k = time_of st1 k +
      sum_list (map (\<lambda>g. f_val (ff_Duration g)) (named k (concat (map collectAllFrames cs))))"
    using 1(1) [OF st1_def _ f1] 1(2) c by simp
  moreover have "time_of (collectFrameStats r (Frame name svc val st en dur sid cs) stats) k = time_of st2 k"
    by (simp add: c time_of_def flip: st1_def split: option.split)
  moreover have "finite_times (collectFrameStats r (Frame name svc val st en dur sid cs) stats) \<longleftrightarrow> finite_times st2"
    by (auto simp: c finite_times_def simp flip: st1_def split: if_splits)
  ultimately show ?case using t1 d by simp
qed simp_all

text \<open>The self time of a name is that of its frame which is left last.\<close>

lemma childTime_sum: "fst (stats_children r cs t st) = foldl f_add t (map ff_Duration cs)"
  by (induction cs arbitrary: t st) simp_all

lemma self_collect:
  "self_of (collectFrameStats r f st) k =
     (case named k (post_order f) of [] \<Rightarrow> self_of st k | g # gs \<Rightarrow> Some (frame_self (last (g # gs))))"
  "self_of (snd (stats_children r cs t st)) k =
     (case named k (concat (map post_order cs)) of
        [] \<Rightarrow> self_of st k | g # gs \<Rightarrow> Some (frame_self (last (g # gs))))"
proof (induction r f st and r cs t st rule: collectFrameStats_stats_children.induct)
  case (1 r name svc val st en dur sid cs stats)
  define st1 where "st1 = (case stats name of
      Some s \<Rightarrow> stats(name \<mapsto> s\<lparr>fs_TotalTime := f_add (fs_TotalTime s) dur, fs_CallCount := fs_CallCount s + 1\<rparr>)
    | None \<Rightarrow> stats(name \<mapsto> \<lparr>fs_TotalTime = dur, fs_SelfTime = Fin 0, fs_CallCount = 1,
        fs_Percentage = f_mul (f_div dur r) (Fin 100)\<rparr>))"
  let ?f = "Frame name svc val st en dur sid cs"
  obtain ct st2 where c: "stats_children r cs (Fin 0) st1 = (ct, st2)" by force
  have ct: "ct = foldl f_add (Fin 0) (map ff_Duration cs)"
    using childTime_sum [of r cs "Fin 0" st1] c by simp
  have IH: "self_of st2 k = (case named k (concat (map post_order cs)) of
      [] \<Rightarrow> self_of st1 k | g # gs \<Rightarrow> Some (frame_self (last (g # gs))))"
    using 1 [OF st1_def] c by simp
  have run: "collectFrameStats r ?f stats = st2(name := map_option (\<lambda>s. s\<lparr>fs_SelfTime := f_sub dur ct,
      fs_Percentage := f_mul (f_div (fs_TotalTime s) r) (Fin 100)\<rparr>) (st2 name))"
    by (simp add: c flip: st1_def)
  show ?case
  proof (cases "k = name")
    case True
    have "st1 name \<noteq> None" by (auto simp: st1_def split: option.split)
    then have "self_of st1 name \<noteq> None" by (simp add: self_of_def)
    with IH True have "self_of st2 name \<noteq> None" by (auto split: list.splits)
    then obtain s where "st2 name = Some s" by (auto simp: self_of_def)
    with True have "self_of (collectFrameStats r ?f stats) k = Some (frame_self ?f)"
      unfolding run by (simp add: self_of_def frame_self_def ct)
    moreover have "named k (post_order ?f) = named k (concat (map post_order cs)) @ [?f]"
      using True by simp
    moreover have "(case xs @ [y] of [] \<Rightarrow> d | g # gs \<Rightarrow> Some (frame_self (last (g # gs)))) =
        Some (frame_self y)" for xs y d
      by (cases xs) simp_all
    ultimately show ?thesis by simp
  next
    case False
    then have "self_of (collectFrameStats r ?f stats) k = self_of st2 k"
      unfolding run by (simp add: self_of_def)
    moreover have "self_of st1 k = self_of stats k"
      using False by (auto simp: self_of_def st1_def split: option.split)
    moreover have "named k (post_order ?f) = named k (concat (map post_order cs))"
      using False by simp
    ultimately show ?thesis using IH by (simp del: collectFrameStats.simps cong: list.case_cong)
  qed
next
  case (3 r c cs t st)
  have last_append: "(case xs @ (g # gs) of [] \<Rightarrow> d | h # hs \<Rightarrow> Some (frame_self (last (h # hs)))) =
      Some (frame_self (last (g # gs)))" for xs g gs d
    by (cases xs) simp_all
  from 3 show ?case
    by (cases "named k (concat (map post_order cs))") (simp_all add: last_append del: last.simps)
qed simp

section \<open>The layout of the picture\<close>

text \<open>The frames that are drawn, with their boxes, in the order of drawing.\<close>

type_synonym box = "flame_frame \<times> f64 \<times> f64 \<times> f64 \<times> int"

fun layout :: "svg_config \<Rightarrow> f64 \<Rightarrow> flame_frame \<Rightarrow> f64 \<Rightarrow> f64 \<Rightarrow> f64 \<Rightarrow> f64 \<Rightarrow> int \<Rightarrow> box list"
  and layout_children :: "svg_config \<Rightarrow> f64 \<Rightarrow> flame_frame list \<Rightarrow> f64 \<Rightarrow> f64 \<Rightarrow> f64 \<Rightarrow> int \<Rightarrow> box list"
where
  "layout config tot (Frame name svc val st en dur sid cs) x y width height depth =
     (if f_lt width (Fin (1 / 2)) then []
      else (Frame name svc val st en dur sid cs, x, y, width, depth) #
        layout_children config tot cs x (f_add y height) height (depth + 1))"
| "layout_children config tot [] x y height depth = []"
| "layout_children config tot (c # cs) x y height depth =
     layout config tot c x y (child_width config tot c) height depth @
     layout_children config tot cs (f_add x (child_width config tot c)) y height depth"

fun draw_boxes :: "svg_config \<Rightarrow> f64 \<Rightarrow> box list \<Rightarrow> string go" where
  "draw_boxes config height [] = Inr ''''"
| "draw_boxes config height ((f, x, y, w, d) # bs) =
     go_bind (frame_group config f x y w height d) (\<lambda>g.
     go_bind (draw_boxes config height bs) (\<lambda>rest. Inr (g @ rest)))"

lemma draw_boxes_append:
  "draw_boxes config height (xs @ ys) =
     go_bind (draw_boxes config height xs) (\<lambda>a.
     go_bind (draw_boxes config height ys) (\<lambda>b. Inr (a @ b)))"
proof (induction xs)
  case Nil
  show ?case by (cases "draw_boxes config height ys") simp_all
next
  case (Cons b xs)
  obtain f x y w d where b: "b = (f, x, y, w, d)" by (metis prod_cases5)
  show ?case
    by (cases "frame_group config f x y w height d"; cases "draw_boxes config height xs";
        cases "draw_boxes config height ys") (simp_all add: b Cons)
qed

lemma draw_layout:
  "drawFrame config tot f x y w height d = draw_boxes config height (layout config tot f x y w height d)"
  "draw_children config tot cs x y height d =
     draw_boxes config height (layout_children config tot cs x y height d)"
  by (induction config tot f x y w height d and config tot cs x y height d
      rule: drawFrame_draw_children.induct)
     (simp_all add: draw_boxes_append Let_def)

lemma draw_boxes_total:
  "list_all (\<lambda>(f, x, y, w, d). \<exists>g. frame_group config f x y w height d = Inr g) bs \<Longrightarrow>
   \<exists>s. draw_boxes config height bs = Inr s"
proof (induction bs)
  case (Cons b bs)
  obtain f x y w d where b: "b = (f, x, y, w, d)" by (metis prod_cases5)
  with Cons obtain g s where "frame_group config f x y w height d = Inr g" "draw_boxes config height bs = Inr s"
    by auto
  then show ?case by (simp add: b)
qed simp

text \<open>A box shows a frame of the tree; its width is the one computed for the frame.\<close>

lemma layout_box:
  "b \<in> set (layout config tot f x y w height d) \<Longrightarrow>
     (case b of (g, gx, gy, gw, gd) \<Rightarrow>
        g \<in> set (collectAllFrames f) \<and> (g = f \<and> gw = w \<or> gw = child_width config tot g))"
  "b \<in> set (layout_children config tot cs x y height d) \<Longrightarrow>
     (case b of (g, gx, gy, gw, gd) \<Rightarrow>
        g \<in> set (concat (map collectAllFrames cs)) \<and> gw = child_width config tot g)"
  by (induction config tot f x y w height d and config tot cs x y height d
      rule: layout_layout_children.induct) (auto split: if_splits)

text \<open>No frame of the server's configuration makes the drawing panic.\<close>

lemma color_total:
  "sv_Colors config = DefaultColorPalette \<Longrightarrow> \<exists>c. getColor f d config = Inr c"
  by (simp add: getColor_def DefaultColorPalette_def go_rem_def wrap64_def Let_def split: prod.split)

lemma label_total:
  assumes "sv_FontSize config = 12" "f_lt (Fin 80) w" "f_le w (Fin (2 ^ 63))"
  shows "\<exists>t. frame_label config w text = Inr t"
proof -
  obtain r where w: "w = Fin r" "80 < r" "r \<le> 2 ^ 63" using assms(2,3) by (cases w) auto
  let ?m = "f_trunc (r / 12 * (18 / 10))"
  have m: "?m = \<lfloor>r / 12 * (18 / 10)\<rfloor>" using w(2) by (simp add: f_trunc_def)
  have "12 \<le> ?m" unfolding m using w(2) by (simp add: le_floor_iff)
  moreover have "?m \<le> 2 ^ 62"
    unfolding m using w(2,3) by (simp add: floor_le_iff)
  ultimately have "f_to_int64 (f_mul (f_div w (f_of_int 12)) (Fin (18 / 10))) = ?m" "wrap64 (?m - 3) = ?m - 3"
    by (simp_all add: f_to_int64_def w(1) f_of_int_def min_int64_def max_int64_def wrap64_id)
  with \<open>12 \<le> ?m\<close> show ?thesis
    by (auto simp: frame_label_def assms(1) Let_def str_sub_def)
qed

lemma group_total:
  assumes "sv_Colors config = DefaultColorPalette" "sv_FontSize config = 12" "f_le w (Fin (2 ^ 63))"
  shows "\<exists>g. frame_group config f x y w height d = Inr g"
proof -
  obtain c where "getColor f d config = Inr c" using color_total [OF assms(1)] by blast
  then show ?thesis
    using label_total [OF assms(2) _ assms(3), of "ff_Name f"] by (auto simp: frame_group_def Let_def)
qed

lemma draw_total:
  assumes "sv_Colors config = DefaultColorPalette" "sv_FontSize config = 12" "f_le w (Fin (2 ^ 63))"
    and "\<forall>g\<in>set (collectAllFrames f). f_le (child_width config tot g) (Fin (2 ^ 63))"
  shows "\<exists>s. drawFrame config tot f x y w height d = Inr s"
  unfolding draw_layout
proof (rule draw_boxes_total, unfold list_all_iff, intro ballI)
  fix b assume "b \<in> set (layout config tot f x y w height d)"
  moreover obtain g gx gy gw gd where b: "b = (g, gx, gy, gw, gd)" by (metis prod_cases5)
  ultimately have "f_le gw (Fin (2 ^ 63))" using layout_box(1) assms(3,4) by fastforce
  then show "case b of (f, x, y, w, d) \<Rightarrow> \<exists>g. frame_group config f x y w height d = Inr g"
    using group_total [OF assms(1,2)] by (simp add: b)
qed

text \<open>Where the values of the children do not exceed their parent's, boxes are nested.\<close>

fun values_nested :: "flame_frame \<Rightarrow> bool" where
  "values_nested (Frame name svc val st en dur sid cs) \<longleftrightarrow>
     sum_list (map ff_Value cs) \<le> val \<and> list_all (\<lambda>c. 0 \<le> ff_Value c \<and> values_nested c) cs"

definition pixels :: "svg_config \<Rightarrow> real \<Rightarrow> int \<Rightarrow> real" where
  "pixels config T v = real_of_int v / T * real_of_int (sv_Width config)"

lemma child_width_pixels:
  "T \<noteq> 0 \<Longrightarrow> child_width config (Fin T) c = Fin (pixels config T (ff_Value c))"
  by (simp add: child_width_def pixels_def f_of_int_def)

lemma pixels_mono:
  "0 < T \<Longrightarrow> 0 < sv_Width config \<Longrightarrow> v \<le> v' \<Longrightarrow> pixels config T v \<le> pixels config T v'"
  by (simp add: pixels_def divide_right_mono mult_right_mono)

lemma pixels_add: "pixels config T (v + v') = pixels config T v + pixels config T v'"
  by (simp add: pixels_def add_divide_distrib distrib_right)

definition inside :: "real \<Rightarrow> real \<Rightarrow> box \<Rightarrow> bool" where
  "inside l r b \<longleftrightarrow> (case b of (g, gx, gy, gw, gd) \<Rightarrow>
     \<exists>u v. gx = Fin u \<and> gw = Fin v \<and> l \<le> u \<and> u + v \<le> r)"

lemma inside_mono: "inside l r b \<Longrightarrow> l' \<le> l \<Longrightarrow> r \<le> r' \<Longrightarrow> inside l' r' b"
  by (auto simp: inside_def split: prod.splits)

lemma layout_nested:
  "0 < T \<Longrightarrow> 0 < sv_Width config \<Longrightarrow> values_nested f \<Longrightarrow> x = Fin l \<Longrightarrow>
     w = Fin (pixels config T (ff_Value f)) \<Longrightarrow> tot = Fin T \<Longrightarrow>
     list_all (inside l (l + pixels config T (ff_Value f))) (layout config tot f x y w height d)"
  "0 < T \<Longrightarrow> 0 < sv_Width config \<Longrightarrow> list_all (\<lambda>c. 0 \<le> ff_Value c \<and> values_nested c) cs \<Longrightarrow> x = Fin l \<Longrightarrow>
     tot = Fin T \<Longrightarrow>
     list_all (inside l (l + pixels config T (sum_list (map ff_Value cs))))
       (layout_children config tot cs x y height d)"
proof (induction config tot f x y w height d and config tot cs x y height d
      arbitrary: l and l rule: layout_layout_children.induct)
  case (1 config tot name svc val st en dur sid cs x y width height depth)
  let ?f = "Frame name svc val st en dur sid cs"
  show ?case
  proof (cases "f_lt width (Fin (1 / 2))")
    case False
    have le: "pixels config T (sum_list (map ff_Value cs)) \<le> pixels config T val"
      using 1(4) by (intro pixels_mono [OF 1(2,3)]) simp
    have "list_all (inside l (l + pixels config T (sum_list (map ff_Value cs))))
        (layout_children config tot cs x (f_add y height) height (depth + 1))"
      using 1(1) [OF False 1(2,3) _ 1(5,7)] 1(4) by simp
    then have "list_all (inside l (l + pixels config T val))
        (layout_children config tot cs x (f_add y height) height (depth + 1))"
      unfolding list_all_iff using inside_mono [OF _ order_refl, of l _ _ "l + pixels config T val"] le by auto
    moreover have "inside l (l + pixels config T val) (?f, x, y, width, depth)"
      using 1(5,6) by (simp add: inside_def)
    ultimately show ?thesis using False by simp
  qed simp
next
  case (3 config tot c cs x y height depth)
  let ?w = "pixels config T (ff_Value c)"
  have cw: "child_width config tot c = Fin ?w"
    using 3(3,7) by (simp add: child_width_pixels)
  have nonneg: "0 \<le> sum_list (map ff_Value cs)" "0 \<le> ff_Value c"
    using 3(5) by (auto intro!: sum_list_nonneg simp: list_all_iff)
  have p: "0 \<le> pixels config T (sum_list (map ff_Value cs))" "0 \<le> ?w"
    using nonneg 3(3,4) by (simp_all add: pixels_def)
  have sum: "pixels config T (sum_list (map ff_Value (c # cs))) = ?w + pixels config T (sum_list (map ff_Value cs))"
    by (simp add: pixels_add)
  have "list_all (inside l (l + ?w)) (layout config tot c x y (child_width config tot c) height depth)"
    using 3(1) [OF 3(3,4) _ 3(6) cw 3(7)] 3(5) by simp
  moreover have "list_all (inside (l + ?w) (l + ?w + pixels config T (sum_list (map ff_Value cs))))
      (layout_children config tot cs (f_add x (child_width config tot c)) y height depth)"
    using 3(2) [OF 3(3,4) _ _ 3(7), of "l + ?w"] 3(5,6) by (simp add: cw)
  ultimately show ?case
    unfolding sum using p by (auto simp: list_all_iff intro: inside_mono)
qed simp

section \<open>Properties\<close>

text \<open>
  C20: A flame graph is made for every finite tree of spans, whatever \<open>sort.Slice\<close> does within
  its contract: its frames are those of the spans, each span once, with its name, its duration
  in microseconds and its id; the children of every frame come in the order of their starts;
  and the spans keep all their fields but the order of their children.
\<close>

theorem flame_graph_of_trace:
  assumes "slice_sort srt" "unfold_tree h levels a = Some t" "distinct (preorder t)"
  shows "\<exists>f h'. NewFlameGraph srt levels (Some a) title h =
       Inr (Some \<lparr>fg_Root = f, fg_Title = title, fg_Width = 1200\<rparr>, h') \<and>
     mset (map bare (collectAllFrames f)) =
       mset (map (\<lambda>b. frame_of_span (the (h b)) []) (preorder t)) \<and>
     by_start f \<and> reordered h h' (set (preorder t))"
proof -
  obtain f h' where "NewFlameGraph srt levels (Some a) title h =
      Inr (Some \<lparr>fg_Root = f, fg_Title = title, fg_Width = 1200\<rparr>, h')"
    "mset (map bare (collectAllFrames f)) = mset (map (\<lambda>b. frame_of_span (the (h b)) []) (preorder t))"
    "by_start f" "reordered h h' (set (preorder t))"
    by (rule NewFlameGraph_total [OF assms])
  then show ?thesis by blast
qed

definition flame_span :: "string \<Rightarrow> int \<Rightarrow> real \<Rightarrow> addr list \<Rightarrow> span" where
  "flame_span op start ms cs =
     zero_span\<lparr>sp_ServiceName := ''shop'', sp_Operation := op, sp_StartTime := start,
       sp_DurationMs := Fin ms, sp_Children := cs\<rparr>"

definition flame_heap :: heap where
  "flame_heap = [1 \<mapsto> flame_span ''GET'' 0 9 [2, 3], 2 \<mapsto> flame_span ''late'' 5 4 [],
     3 \<mapsto> flame_span ''early'' 1 3 []]"

theorem flame_graph_of_trace_witness:
  "\<exists>f h'. NewFlameGraph insertion_sort 2 (Some 1) ''t'' flame_heap =
       Inr (Some \<lparr>fg_Root = f, fg_Title = ''t'', fg_Width = 1200\<rparr>, h') \<and>
     length (collectAllFrames f) = 3 \<and> by_start f"
proof -
  have t: "unfold_tree flame_heap 2 1 = Some (SNode 1 [SNode 2 [], SNode 3 []])"
    by (simp add: eval_nat_numeral flame_heap_def flame_span_def)
  have d: "distinct (preorder (SNode 1 [SNode 2 [], SNode 3 []]))" by simp
  from flame_graph_of_trace [OF insertion_sort_contract t d, of "''t''"]
  obtain f h' where f: "NewFlameGraph insertion_sort 2 (Some 1) ''t'' flame_heap =
       Inr (Some \<lparr>fg_Root = f, fg_Title = ''t'', fg_Width = 1200\<rparr>, h')" "by_start f"
    and m: "mset (map bare (collectAllFrames f)) =
       mset (map (\<lambda>b. frame_of_span (the (flame_heap b)) []) (preorder (SNode 1 [SNode 2 [], SNode 3 []])))"
    by blast
  from arg_cong [OF m, of size] have "length (collectAllFrames f) = 3" by simp
  with f show ?thesis by blast
qed

lemma self_of_empty [simp]: "self_of (\<lambda>x. None) k = None"
  by (simp add: self_of_def)

text \<open>
  The statistics of a name count its frames and add up their durations; but the self time
  is that of a single frame, the one the recursion leaves last, and not the sum over the frames
  of the name.
\<close>

theorem frame_stats_by_name:
  assumes "list_all (\<lambda>g. f_finite (ff_Duration g)) (collectAllFrames (fg_Root fg))"
  shows "calls_of (GetFrameStats fg) k = int (length (named k (collectAllFrames (fg_Root fg)))) \<and>
     time_of (GetFrameStats fg) k =
       sum_list (map (\<lambda>g. f_val (ff_Duration g)) (named k (collectAllFrames (fg_Root fg)))) \<and>
     self_of (GetFrameStats fg) k =
       (case named k (post_order (fg_Root fg)) of
          [] \<Rightarrow> None | g # gs \<Rightarrow> Some (frame_self (last (g # gs))))"
  using calls_collect(1) [of _ _ Map.empty k] time_collect(1) [OF assms, of Map.empty _ k]
    self_collect(1) [of _ _ Map.empty k]
  by (simp add: GetFrameStats_def calls_of_def [of Map.empty] time_of_def [of Map.empty]
      self_of_empty finite_times_def cong: list.case_cong)

definition two_calls :: flame_graph where
  "two_calls = \<lparr>fg_Root = Frame ''a'' ''s'' 9000 0 9 (Fin 9) ''1''
       [Frame ''b'' ''s'' 4000 0 4 (Fin 4) ''2'' [], Frame ''b'' ''s'' 1000 5 6 (Fin 1) ''3'' []],
     fg_Title = [], fg_Width = 1200\<rparr>"

theorem frame_stats_by_name_witness:
  "calls_of (GetFrameStats two_calls) ''b'' = 2 \<and> time_of (GetFrameStats two_calls) ''b'' = 5 \<and>
     self_of (GetFrameStats two_calls) ''b'' = Some (Fin 1)"
  using frame_stats_by_name [of two_calls "''b''"] by (simp add: two_calls_def frame_self_def)

lemma foldl_f_sub_finite:
  "f_finite t \<Longrightarrow> list_all (\<lambda>g. f_finite (ff_Duration g)) cs \<Longrightarrow>
     f_finite (foldl (\<lambda>t c. f_sub t (ff_Duration c)) t cs)"
proof (induction cs arbitrary: t)
  case (Cons c cs)
  then show ?case by (cases t; cases "ff_Duration c") auto
qed simp

lemma collect_subframes:
  "g \<in> set (collectAllFrames f) \<Longrightarrow> set (ff_Children g) \<subseteq> set (collectAllFrames f)"
proof (induction f rule: collectAllFrames.induct)
  case (1 name svc val st en dur sid cs)
  have "c \<in> set (collectAllFrames c)" for c by (cases c) simp
  with 1 show ?case by fastforce
qed

lemma self_time_finite:
  assumes "list_all (\<lambda>g. f_finite (ff_Duration g)) (collectAllFrames f)" "g \<in> set (collectAllFrames f)"
  shows "f_finite (self_time g)"
  using assms collect_subframes [OF assms(2)] unfolding self_time_def list_all_iff
  by (intro foldl_f_sub_finite) (auto simp: list_all_iff)

lemma weak_order_f_gt:
  assumes "\<forall>x\<in>A. f_finite (key x)"
  shows "weak_order (\<lambda>f g. f_lt (key g) (key f)) A"
proof -
  have "f_lt (key g) (key f) \<longleftrightarrow> f_val (key g) < f_val (key f)" if "f \<in> A" "g \<in> A" for f g
  proof -
    have "f_finite (key f)" "f_finite (key g)" using that assms by auto
    then show ?thesis by (cases "key f"; cases "key g") simp_all
  qed
  note lt = this
  show ?thesis unfolding weak_order_def
    by (intro conjI ballI impI) (simp_all add: lt)
qed

text \<open>
  The hot spots of a trace with finite durations are frames of it, as many as asked for
  (all for a count that is not positive), with decreasing self times, and no frame that is left
  out has more self time than one that is listed.
\<close>

theorem hot_spots_are_hottest:
  assumes "slice_sort srt"
    and "list_all (\<lambda>g. f_finite (ff_Duration g)) (collectAllFrames (fg_Root fg))"
  defines "all \<equiv> collectAllFrames (fg_Root fg)"
  shows "\<exists>rest. mset (GetHotSpots srt fg n) + mset rest = mset all \<and>
     length (GetHotSpots srt fg n) = (if 0 < n then min (nat n) (length all) else length all) \<and>
     sorted_wrt (\<lambda>f g. \<not> f_lt (self_time f) (self_time g)) (GetHotSpots srt fg n) \<and>
     (\<forall>f\<in>set (GetHotSpots srt fg n). \<forall>g\<in>set rest. \<not> f_lt (self_time f) (self_time g))"
proof -
  define fs where "fs = srt (\<lambda>f g. f_lt (self_time g) (self_time f)) all"
  have m: "mset fs = mset all" unfolding fs_def by (rule slice_sort_mset [OF assms(1)])
  then have len: "length fs = length all" by (metis size_mset)
  have sorted: "sorted_wrt (\<lambda>f g. \<not> f_lt (self_time f) (self_time g)) fs"
    unfolding fs_def
    by (rule slice_sort_sorted [OF assms(1)], rule weak_order_f_gt)
       (use self_time_finite [OF assms(2)] in \<open>simp add: all_def\<close>)
  define k where "k = (if 0 < n then min (nat n) (length all) else length all)"
  have hot: "GetHotSpots srt fg n = take k fs"
    by (auto simp: GetHotSpots_def k_def Let_def len simp flip: fs_def all_def)
  have split: "mset (take k fs) + mset (drop k fs) = mset all"
    by (simp add: m flip: mset_append)
  have k: "length (take k fs) = k" by (simp add: k_def len)
  have "sorted_wrt (\<lambda>f g. \<not> f_lt (self_time f) (self_time g)) (take k fs @ drop k fs)"
    using sorted by simp
  then show ?thesis
    unfolding hot sorted_wrt_append using split k k_def by blast
qed

theorem hot_spots_are_hottest_witness:
  "length (GetHotSpots insertion_sort two_calls 2) = 2 \<and>
   sorted_wrt (\<lambda>f g. \<not> f_lt (self_time f) (self_time g)) (GetHotSpots insertion_sort two_calls 2)"
proof -
  have "list_all (\<lambda>g. f_finite (ff_Duration g)) (collectAllFrames (fg_Root two_calls))"
    by (simp add: two_calls_def)
  from hot_spots_are_hottest [OF insertion_sort_contract this, of 2]
  show ?thesis by (auto simp: two_calls_def)
qed

text \<open>The configuration the server builds, and what is drawn with it.\<close>

definition server_svg :: "int \<Rightarrow> string \<Rightarrow> svg_config" where
  "server_svg width title = \<lparr>sv_Width = width, sv_HeightPerFrame = 18, sv_FontSize = 12,
     sv_Title = title, sv_Colors = \<lparr>cp_BaseHue = 0, cp_HueRange = 0, cp_MinSaturation = 0,
       cp_MaxSaturation = 0, cp_MinLightness = 0, cp_MaxLightness = 0\<rparr>\<rparr>"

definition served_svg :: "int \<Rightarrow> string \<Rightarrow> svg_config" where
  "served_svg width title = (server_svg width title)\<lparr>sv_Colors := DefaultColorPalette\<rparr>"

definition server_boxes :: "flame_graph \<Rightarrow> int \<Rightarrow> string \<Rightarrow> box list" where
  "server_boxes fg width title = layout (served_svg width title) (f_of_int (ff_Value (fg_Root fg)))
     (fg_Root fg) (Fin 0) (Fin 25) (f_of_int width) (Fin 18) 0"

text \<open>Boxes inside a picture of a machine width are drawn without a panic.\<close>

lemma narrow_boxes_drawn:
  assumes "list_all (inside 0 (real_of_int width)) boxes" "width < 2 ^ 63"
    and "sv_Colors config = DefaultColorPalette" "sv_FontSize config = 12"
  shows "\<exists>frames. draw_boxes config (Fin 18) boxes = Inr frames"
proof -
  have "list_all (\<lambda>(f, x, y, w, d). \<exists>g. frame_group config f x y w (Fin 18) d = Inr g) boxes"
    unfolding list_all_iff
  proof (intro ballI)
    fix b assume "b \<in> set boxes"
    with assms(1) have i: "inside 0 (real_of_int width) b" by (simp add: list_all_iff)
    obtain g gx gy gw gd where b: "b = (g, gx, gy, gw, gd)" by (metis prod_cases5)
    from i have le: "f_le gw (f_of_int width)" by (auto simp: inside_def b f_of_int_def)
    have "real_of_int width \<le> real_of_int (2 ^ 63)"
      unfolding of_int_le_iff using assms(2) by linarith
    then have "real_of_int width \<le> 2 ^ 63" by simp
    with le have "f_le gw (Fin (2 ^ 63))" by (cases gw) (auto simp: f_of_int_def)
    then show "case b of (f, x, y, w, d) \<Rightarrow> \<exists>g. frame_group config f x y w (Fin 18) d = Inr g"
      using group_total [OF assms(3,4)] by (simp add: b)
  qed
  then show ?thesis using draw_boxes_total by blast
qed



text \<open>Without nesting: a picture is drawn when no frame is wider than the root.\<close>

lemma svg_total:
  assumes "\<forall>g\<in>set (collectAllFrames (fg_Root fg)). ff_Value g \<le> ff_Value (fg_Root fg)"
    and "0 < ff_Value (fg_Root fg)" "0 < width" "width < 2 ^ 63"
  shows "\<exists>s c. ToSVG fg (Some (server_svg width title)) = Inr (s, c)"
proof -
  let ?V = "ff_Value (fg_Root fg)" and ?c = "served_svg width title"
  have c: "sv_Width ?c = width" "sv_Colors ?c = DefaultColorPalette" "sv_FontSize ?c = 12"
      "sv_HeightPerFrame ?c = 18"
    by (simp_all add: served_svg_def server_svg_def)
  have real63: "real_of_int width \<le> 2 ^ 63"
  proof -
    have "real_of_int width \<le> real_of_int (2 ^ 63)" unfolding of_int_le_iff using assms(4) by linarith
    then show ?thesis by simp
  qed
  have le: "f_le (child_width ?c (f_of_int ?V) g) (Fin (2 ^ 63))" if "g \<in> set (collectAllFrames (fg_Root fg))" for g
  proof -
    have "pixels ?c (real_of_int ?V) (ff_Value g) \<le> pixels ?c (real_of_int ?V) ?V"
      by (rule pixels_mono) (use that assms c in auto)
    also have "\<dots> = real_of_int width" using assms(2) by (simp add: pixels_def c)
    finally show ?thesis
      using assms(2) real63 by (simp add: child_width_pixels f_of_int_def)
  qed
  have "f_le (f_of_int width) (Fin (2 ^ 63))" using real63 by (simp add: f_of_int_def)
  then obtain frames where drawn: "drawFrame ?c (f_of_int ?V) (fg_Root fg) (Fin 0) (Fin 25) (f_of_int width)
      (f_of_int 18) 0 = Inr frames"
    using draw_total [OF c(2,3)] le by blast
  have pal: "cp_BaseHue (sv_Colors (server_svg width title)) = 0" by (simp add: server_svg_def)
  have used: "(server_svg width title)\<lparr>sv_Colors := DefaultColorPalette\<rparr> = ?c"
    by (simp add: served_svg_def)
  show ?thesis
    unfolding ToSVG_def Let_def option.case pal if_P [OF refl] used c
    using drawn assms(2) by simp
qed

text \<open>The configurations on which the drawing panics: no range of hues, and a font too big.\<close>

lemma zero_hue_range_panics:
  assumes "cp_HueRange (sv_Colors config) = 0"
  shows "getColor f d config = Inl DivideByZero"
  by (simp add: getColor_def go_rem_def assms Let_def)

lemma big_font_panics:
  assumes "sv_FontSize config = 100" "length text = 4"
  shows "frame_label config (Fin 81) text = Inl SliceBounds"
  by (simp add: frame_label_def assms f_of_int_def f_to_int64_def f_trunc_def floor_eq_iff
      min_int64_def max_int64_def wrap64_def str_sub_def)

end
