(* ===== verification/Sampler.thy ===== *)
theory Sampler
  imports Trace_Model Config
begin

text \<open>
  \<open>pkg/sampling/sampler.go\<close>. A sampler is a state and a step from a span to a decision. The
  draw of \<open>rand.Float64\<close> and the instants of \<open>time.Now\<close> are arguments of the step.
  The interface \<open>Sampler\<close> of the code is the locale \<open>sampler\<close>; it is interpreted on the
  dynamic sampler, and again on the trace-level sampler over any sampler.
\<close>

section \<open>The dynamic sampler\<close>

record dynamic_sampler =
  ds_highLatencyThresholdMs :: int
  ds_highLatencySampleRate :: f64
  ds_lowLatencySampleRate :: f64
  ds_totalCount :: u64
  ds_sampledCount :: u64
  ds_highLatencyCount :: u64
  ds_lowLatencyCount :: u64

definition NewDynamicSampler :: "sampling_config \<Rightarrow> dynamic_sampler" where
  "NewDynamicSampler cfg =
     \<lparr>ds_highLatencyThresholdMs = sc_HighLatencyThresholdMs cfg,
      ds_highLatencySampleRate = sc_HighLatencySampleRate cfg,
      ds_lowLatencySampleRate = sc_LowLatencySampleRate cfg,
      ds_totalCount = 0, ds_sampledCount = 0, ds_highLatencyCount = 0, ds_lowLatencyCount = 0\<rparr>"

text \<open>\<open>span.ErrorCode != 0 && span.ErrorCode >= 400\<close>\<close>

definition error_span :: "span \<Rightarrow> bool" where
  "error_span sp \<longleftrightarrow> sp_ErrorCode sp \<noteq> 0 \<and> 400 \<le> sint (sp_ErrorCode sp)"

text \<open>\<open>span.DurationMs >= float64(s.highLatencyThresholdMs)\<close>\<close>

definition slow_span :: "dynamic_sampler \<Rightarrow> span \<Rightarrow> bool" where
  "slow_span s sp \<longleftrightarrow> f_le (f_of_int (ds_highLatencyThresholdMs s)) (sp_DurationMs sp)"

definition Dynamic_SamplingRate :: "dynamic_sampler \<Rightarrow> span option \<Rightarrow> f64 go" where
  "Dynamic_SamplingRate s spo =
     (case spo of
        None \<Rightarrow> Inl NilDeref
      | Some sp \<Rightarrow>
          if slow_span s sp then Inr (ds_highLatencySampleRate s)
          else if error_span sp then Inr (ds_highLatencySampleRate s)
          else Inr (ds_lowLatencySampleRate s))"

definition Dynamic_ShouldSample ::
  "f64 \<Rightarrow> dynamic_sampler \<Rightarrow> span \<Rightarrow> (bool \<times> dynamic_sampler) go"
where
  "Dynamic_ShouldSample rnd s sp =
     (let s = s\<lparr>ds_totalCount := ds_totalCount s + 1\<rparr> in
      go_bind (Dynamic_SamplingRate s (Some sp)) (\<lambda>rate.
        if f_le (Fin 1) rate then
          Inr (True, s\<lparr>ds_sampledCount := ds_sampledCount s + 1,
                       ds_highLatencyCount := ds_highLatencyCount s + 1\<rparr>)
        else if f_le rate (Fin 0) then Inr (False, s)
        else if f_lt rnd rate then
          Inr (True, s\<lparr>ds_sampledCount := ds_sampledCount s + 1,
                       ds_lowLatencyCount := ds_lowLatencyCount s + 1\<rparr>)
        else Inr (False, s)))"

definition UpdateConfig :: "sampling_config \<Rightarrow> dynamic_sampler \<Rightarrow> dynamic_sampler" where
  "UpdateConfig cfg s =
     s\<lparr>ds_highLatencyThresholdMs := sc_HighLatencyThresholdMs cfg,
       ds_highLatencySampleRate := sc_HighLatencySampleRate cfg,
       ds_lowLatencySampleRate := sc_LowLatencySampleRate cfg\<rparr>"

record sampling_stats =
  ss_TotalCount :: u64
  ss_SampledCount :: u64
  ss_HighLatencyCount :: u64
  ss_LowLatencyCount :: u64
  ss_OverallSampleRate :: f64
  ss_HighLatencyRate :: f64
  ss_LowLatencyRate :: f64
  ss_ThresholdMs :: int

definition Dynamic_Stats :: "dynamic_sampler \<Rightarrow> sampling_stats" where
  "Dynamic_Stats s =
     \<lparr>ss_TotalCount = ds_totalCount s, ss_SampledCount = ds_sampledCount s,
      ss_HighLatencyCount = ds_highLatencyCount s, ss_LowLatencyCount = ds_lowLatencyCount s,
      ss_OverallSampleRate =
        (if 0 < ds_totalCount s then f_div (f_of_u64 (ds_sampledCount s)) (f_of_u64 (ds_totalCount s))
         else Fin 0),
      ss_HighLatencyRate = ds_highLatencySampleRate s,
      ss_LowLatencyRate = ds_lowLatencySampleRate s,
      ss_ThresholdMs = ds_highLatencyThresholdMs s\<rparr>"

definition ResetStats :: "dynamic_sampler \<Rightarrow> dynamic_sampler" where
  "ResetStats s =
     s\<lparr>ds_totalCount := 0, ds_sampledCount := 0, ds_highLatencyCount := 0, ds_lowLatencyCount := 0\<rparr>"

section \<open>The adaptive sampler\<close>

record adaptive_sampler =
  as_dynamic :: dynamic_sampler
  as_targetEventsPerSecond :: int
  as_eventsWindow :: "gtime list"
  as_windowDuration :: gduration

definition NewAdaptiveSampler :: "sampling_config \<Rightarrow> int \<Rightarrow> adaptive_sampler" where
  "NewAdaptiveSampler cfg targetEPS =
     \<lparr>as_dynamic = NewDynamicSampler cfg, as_targetEventsPerSecond = targetEPS,
      as_eventsWindow = [], as_windowDuration = 10 * second\<rparr>"

definition pruneOldEvents :: "gtime \<Rightarrow> adaptive_sampler \<Rightarrow> adaptive_sampler" where
  "pruneOldEvents now s =
     s\<lparr>as_eventsWindow :=
         dropWhile (\<lambda>t. \<not> now - as_windowDuration s < t) (as_eventsWindow s)\<rparr>"

definition addEvent :: "gtime \<Rightarrow> adaptive_sampler \<Rightarrow> adaptive_sampler" where
  "addEvent t s = pruneOldEvents t (s\<lparr>as_eventsWindow := as_eventsWindow s @ [t]\<rparr>)"

definition currentEPS :: "gtime \<Rightarrow> adaptive_sampler \<Rightarrow> f64 \<times> adaptive_sampler" where
  "currentEPS now s =
     (let s = pruneOldEvents now s in
      (f_div (f_of_int (int (length (as_eventsWindow s))))
             (f_div (f_of_int (as_windowDuration s)) (f_of_int second)), s))"

definition calculateAdaptiveRate :: "f64 \<Rightarrow> adaptive_sampler \<Rightarrow> f64 go" where
  "calculateAdaptiveRate eps s =
     (if f_le eps (f_of_int (as_targetEventsPerSecond s)) then Inr (Fin 1)
      else
        let ratio = f_div (f_of_int (as_targetEventsPerSecond s)) eps in
        go_bind (Dynamic_SamplingRate (as_dynamic s) None) (\<lambda>baseRate.
          Inr (f_mul baseRate ratio)))"

text \<open>\<open>t1\<close> and \<open>t2\<close> are the two readings of the clock, in \<open>ShouldSample\<close> and \<open>currentEPS\<close>.\<close>

definition Adaptive_ShouldSample ::
  "gtime \<Rightarrow> gtime \<Rightarrow> f64 \<Rightarrow> adaptive_sampler \<Rightarrow> span \<Rightarrow> (bool \<times> adaptive_sampler) go"
where
  "Adaptive_ShouldSample t1 t2 rnd s sp =
     (let s = addEvent t1 s; d = as_dynamic s in
      if slow_span d sp then
        Inr (True, s\<lparr>as_dynamic := d\<lparr>ds_sampledCount := ds_sampledCount d + 1,
                                     ds_highLatencyCount := ds_highLatencyCount d + 1\<rparr>\<rparr>)
      else if error_span sp then
        Inr (True, s\<lparr>as_dynamic := d\<lparr>ds_sampledCount := ds_sampledCount d + 1\<rparr>\<rparr>)
      else
        case currentEPS t2 s of (eps, s) \<Rightarrow>
          go_bind (calculateAdaptiveRate eps s) (\<lambda>rate.
            let d = d\<lparr>ds_totalCount := ds_totalCount d + 1\<rparr> in
            if f_lt rnd rate then
              Inr (True, s\<lparr>as_dynamic := d\<lparr>ds_sampledCount := ds_sampledCount d + 1,
                                           ds_lowLatencyCount := ds_lowLatencyCount d + 1\<rparr>\<rparr>)
            else Inr (False, s\<lparr>as_dynamic := d\<rparr>)))"

section \<open>The trace-level sampler\<close>

text \<open>\<open>sampledTraces\<close> maps a trace id to the decision and its instant.\<close>

record 'st trace_sampler =
  ts_sampledTraces :: "string \<rightharpoonup> bool \<times> gtime"
  ts_innerSampler :: 'st

definition NewTraceLevelSampler :: "'st \<Rightarrow> 'st trace_sampler" where
  "NewTraceLevelSampler inner = \<lparr>ts_sampledTraces = Map.empty, ts_innerSampler = inner\<rparr>"

definition Trace_ShouldSample ::
  "('st \<Rightarrow> span \<Rightarrow> (bool \<times> 'st) go) \<Rightarrow> gtime \<Rightarrow> 'st trace_sampler \<Rightarrow> span \<Rightarrow>
   (bool \<times> 'st trace_sampler) go"
where
  "Trace_ShouldSample inner now s sp =
     (if sp_TraceID sp = '''' then
        go_bind (inner (ts_innerSampler s) sp) (\<lambda>(b, i). Inr (b, s\<lparr>ts_innerSampler := i\<rparr>))
      else
        case ts_sampledTraces s (sp_TraceID sp) of
          Some (sampled, _) \<Rightarrow> Inr (sampled, s)
        | None \<Rightarrow>
            go_bind (inner (ts_innerSampler s) sp) (\<lambda>(b, i).
              Inr (b, s\<lparr>ts_innerSampler := i,
                        ts_sampledTraces := (ts_sampledTraces s)(sp_TraceID sp \<mapsto> (b, now))\<rparr>)))"

definition Trace_SamplingRate ::
  "('st \<Rightarrow> span option \<Rightarrow> f64 go) \<Rightarrow> 'st trace_sampler \<Rightarrow> span option \<Rightarrow> f64 go"
where
  "Trace_SamplingRate rate s sp = rate (ts_innerSampler s) sp"

text \<open>One round of \<open>cleanupOldTraces\<close>, which no code starts.\<close>

definition cleanupOldTraces :: "gtime \<Rightarrow> 'st trace_sampler \<Rightarrow> 'st trace_sampler" where
  "cleanupOldTraces now s =
     s\<lparr>ts_sampledTraces := (\<lambda>k. case ts_sampledTraces s k of
         Some (b, t) \<Rightarrow> if t < now - 600 * second then None else Some (b, t)
       | None \<Rightarrow> None)\<rparr>"

definition MarkTraceSampled :: "gtime \<Rightarrow> string \<Rightarrow> 'st trace_sampler \<Rightarrow> 'st trace_sampler" where
  "MarkTraceSampled now traceID s =
     s\<lparr>ts_sampledTraces := (ts_sampledTraces s)(traceID \<mapsto> (True, now))\<rparr>"

definition IsTraceSampled :: "string \<Rightarrow> 'st trace_sampler \<Rightarrow> bool" where
  "IsTraceSampled traceID s =
     (case ts_sampledTraces s traceID of Some (sampled, _) \<Rightarrow> sampled | None \<Rightarrow> False)"

section \<open>The composite sampler\<close>

text \<open>A sampler of the list is its step and its state; the loop stops at the first refusal.\<close>

fun Composite_ShouldSample ::
  "(('st \<Rightarrow> span \<Rightarrow> (bool \<times> 'st) go) \<times> 'st) list \<Rightarrow> span \<Rightarrow>
   (bool \<times> (('st \<Rightarrow> span \<Rightarrow> (bool \<times> 'st) go) \<times> 'st) list) go"
where
  "Composite_ShouldSample [] sp = Inr (True, [])"
| "Composite_ShouldSample ((f, s) # ss) sp =
     go_bind (f s sp) (\<lambda>(b, s').
       if \<not> b then Inr (False, (f, s') # ss)
       else go_bind (Composite_ShouldSample ss sp) (\<lambda>(b, ss'). Inr (b, (f, s') # ss')))"

fun Composite_minRate :: "(span option \<Rightarrow> f64 go) list \<Rightarrow> span option \<Rightarrow> f64 \<Rightarrow> f64 go" where
  "Composite_minRate [] sp minRate = Inr minRate"
| "Composite_minRate (r # rs) sp minRate =
     go_bind (r sp) (\<lambda>rate.
       Composite_minRate rs sp (if f_lt rate minRate then rate else minRate))"

definition Composite_SamplingRate :: "(span option \<Rightarrow> f64 go) list \<Rightarrow> span option \<Rightarrow> f64 go" where
  "Composite_SamplingRate rs sp = Composite_minRate rs sp (Fin 1)"

section \<open>The interface\<close>

text \<open>
  \<open>sampler\<close> is what a client of the interface relies on: a sampler whose state is in order
  answers every span without a panic and stays in order. \<open>rate_sampler\<close> adds the meaning
  of the sampling rate: from 1 on every span is taken, at 0 and below none is.
\<close>

locale sampler =
  fixes should :: "'env \<Rightarrow> 'st \<Rightarrow> span \<Rightarrow> (bool \<times> 'st) go"
    and ok :: "'st \<Rightarrow> bool"
  assumes answers: "ok st \<Longrightarrow> \<exists>b st'. should e st sp = Inr (b, st') \<and> ok st'"

locale rate_sampler = sampler should ok
  for should :: "'env \<Rightarrow> 'st \<Rightarrow> span \<Rightarrow> (bool \<times> 'st) go" and ok :: "'st \<Rightarrow> bool" +
  fixes rate :: "'st \<Rightarrow> span \<Rightarrow> f64 go"
  assumes certain: "ok st \<Longrightarrow> rate st sp = Inr r \<Longrightarrow> f_le (Fin 1) r \<Longrightarrow> should e st sp = Inr (b, st') \<Longrightarrow> b"
    and never: "ok st \<Longrightarrow> rate st sp = Inr r \<Longrightarrow> f_le r (Fin 0) \<Longrightarrow> should e st sp = Inr (b, st') \<Longrightarrow> \<not> b"

text \<open>The decisions of a sampler on a sequence of spans, each with its environment.\<close>

fun sampler_run ::
  "('env \<Rightarrow> 'st \<Rightarrow> span \<Rightarrow> (bool \<times> 'st) go) \<Rightarrow> 'st \<Rightarrow> ('env \<times> span) list \<Rightarrow> (bool list \<times> 'st) go"
where
  "sampler_run f s [] = Inr ([], s)"
| "sampler_run f s ((e, sp) # xs) =
     go_bind (f e s sp) (\<lambda>(b, s').
     go_bind (sampler_run f s' xs) (\<lambda>(bs, s''). Inr (b # bs, s'')))"

lemma sampler_run_Cons:
  "sampler_run f s (x # xs) = Inr (bs, s'') \<longleftrightarrow>
     (\<exists>b bs' s'. bs = b # bs' \<and> f (fst x) s (snd x) = Inr (b, s') \<and> sampler_run f s' xs = Inr (bs', s''))"
  by (cases x) (auto simp: go_bind_eq_Inr)

lemma sampler_run_length: "sampler_run f s xs = Inr (bs, s') \<Longrightarrow> length bs = length xs"
  by (induction xs arbitrary: s bs) (auto simp: sampler_run_Cons simp del: sampler_run.simps(2))

definition trace_step ::
  "('env \<Rightarrow> 'st \<Rightarrow> span \<Rightarrow> (bool \<times> 'st) go) \<Rightarrow> 'env \<times> gtime \<Rightarrow> 'st trace_sampler \<Rightarrow> span \<Rightarrow>
   (bool \<times> 'st trace_sampler) go"
where
  "trace_step inner en = Trace_ShouldSample (inner (fst en)) (snd en)"

context sampler
begin

lemma run_total: "ok s \<Longrightarrow> \<exists>bs s'. sampler_run should s xs = Inr (bs, s') \<and> ok s'"
proof (induction xs arbitrary: s)
  case Nil
  then show ?case by simp
next
  case (Cons x xs)
  obtain e sp where x: "x = (e, sp)" by (cases x)
  from answers [OF Cons.prems] obtain b s1 where "should e s sp = Inr (b, s1)" "ok s1" by blast
  with Cons.IH [of s1] show ?case by (auto simp: x)
qed

text \<open>A trace-level sampler over a sampler is a sampler.\<close>

lemma trace_answers:
  "ok (ts_innerSampler st) \<Longrightarrow>
   \<exists>b st'. Trace_ShouldSample (should e) now st sp = Inr (b, st') \<and> ok (ts_innerSampler st')"
  using answers [of "ts_innerSampler st" e sp]
  by (auto simp: Trace_ShouldSample_def split: option.split)

end

sublocale rate_sampler \<subseteq> tl: sampler
  "trace_step should" "\<lambda>st. ok (ts_innerSampler st)"
  by unfold_locales (auto simp: trace_step_def intro: trace_answers)

interpretation dyn: rate_sampler Dynamic_ShouldSample "\<lambda>_. True" "\<lambda>s sp. Dynamic_SamplingRate s (Some sp)"
proof unfold_locales
  show "\<exists>b st'. Dynamic_ShouldSample e st sp = Inr (b, st') \<and> True" for e st sp
    by (auto simp: Dynamic_ShouldSample_def Dynamic_SamplingRate_def Let_def)
  show "b" if "Dynamic_SamplingRate st (Some sp) = Inr r" "f_le (Fin 1) r"
    "Dynamic_ShouldSample e st sp = Inr (b, st')" for st sp r e b st'
    using that by (auto simp: Dynamic_ShouldSample_def Dynamic_SamplingRate_def slow_span_def Let_def
        split: if_splits)
  show "\<not> b" if "Dynamic_SamplingRate st (Some sp) = Inr r" "f_le r (Fin 0)"
    "Dynamic_ShouldSample e st sp = Inr (b, st')" for st sp r e b st'
  proof -
    have "\<not> f_le (Fin 1) r" using that(2) by (cases r) auto
    with that show ?thesis
      by (auto simp: Dynamic_ShouldSample_def Dynamic_SamplingRate_def slow_span_def Let_def
          split: if_splits)
  qed
qed

section \<open>Lemmas\<close>

lemma exI2: "P a b \<Longrightarrow> \<exists>x y. P x y"
  by blast

lemma dynamic_rate_total: "sampled"
  if "Dynamic_ShouldSample rnd s sp = Inr (sampled, s')" "slow_span s sp \<or> error_span sp"
    "f_le (Fin 1) (ds_highLatencySampleRate s)"
  using that by (auto simp: Dynamic_ShouldSample_def Dynamic_SamplingRate_def slow_span_def Let_def
      split: if_splits)

text \<open>A dynamic step counts its span once, and once more if it takes it.\<close>

lemma dynamic_counts:
  assumes "Dynamic_ShouldSample rnd s sp = Inr (b, s')"
  shows "ds_totalCount s' = ds_totalCount s + 1"
    and "ds_sampledCount s' = ds_sampledCount s + (if b then 1 else 0)"
    and "(ds_highLatencyCount s' = ds_highLatencyCount s + (if b then 1 else 0) \<and>
          ds_lowLatencyCount s' = ds_lowLatencyCount s) \<or>
         (ds_highLatencyCount s' = ds_highLatencyCount s \<and>
          ds_lowLatencyCount s' = ds_lowLatencyCount s + (if b then 1 else 0))"
  using assms
  by (auto simp: Dynamic_ShouldSample_def Dynamic_SamplingRate_def Let_def go_bind_eq_Inr
      split: if_splits)

lemma dynamic_run_counts:
  assumes "sampler_run Dynamic_ShouldSample s xs = Inr (bs, s')"
  shows "\<exists>h l. length (filter (\<lambda>b. b) bs) = h + l \<and>
     ds_totalCount s' = ds_totalCount s + of_nat (length xs) \<and>
     ds_sampledCount s' = ds_sampledCount s + of_nat (h + l) \<and>
     ds_highLatencyCount s' = ds_highLatencyCount s + of_nat h \<and>
     ds_lowLatencyCount s' = ds_lowLatencyCount s + of_nat l"
  using assms
proof (induction xs arbitrary: s bs)
  case Nil
  then show ?case by simp
next
  case (Cons x xs)
  then obtain b bs' s1 where b: "bs = b # bs'" "Dynamic_ShouldSample (fst x) s (snd x) = Inr (b, s1)"
    and run: "sampler_run Dynamic_ShouldSample s1 xs = Inr (bs', s')"
    by (auto simp: sampler_run_Cons simp del: sampler_run.simps(2))
  from Cons.IH [OF run] obtain h l where IH: "length (filter (\<lambda>b. b) bs') = h + l"
    "ds_totalCount s' = ds_totalCount s1 + of_nat (length xs)"
    "ds_sampledCount s' = ds_sampledCount s1 + of_nat (h + l)"
    "ds_highLatencyCount s' = ds_highLatencyCount s1 + of_nat h"
    "ds_lowLatencyCount s' = ds_lowLatencyCount s1 + of_nat l" by blast
  note c = dynamic_counts [OF b(2)]
  from c(3) show ?case
  proof
    assume "ds_highLatencyCount s1 = ds_highLatencyCount s + (if b then 1 else 0) \<and>
      ds_lowLatencyCount s1 = ds_lowLatencyCount s"
    with IH c(1,2) b(1) show ?thesis
      by (intro exI2 [of _ "if b then Suc h else h" l]) simp
  next
    assume "ds_highLatencyCount s1 = ds_highLatencyCount s \<and>
      ds_lowLatencyCount s1 = ds_lowLatencyCount s + (if b then 1 else 0)"
    with IH c(1,2) b(1) show ?thesis
      by (intro exI2 [of _ h "if b then Suc l else l"]) simp
  qed
qed

text \<open>
  \<open>decision_table\<close> is what the clients of the trace-level sampler rely on: it has a decision
  about a trace from the first span it is asked about on, answers by it, and never revises it.
\<close>

locale decision_table =
  fixes ask :: "'env \<Rightarrow> 'st \<Rightarrow> span \<Rightarrow> (bool \<times> 'st) go"
    and decision :: "'st \<Rightarrow> string \<Rightarrow> bool option"
  assumes records: "ask e s sp = Inr (b, s') \<Longrightarrow> sp_TraceID sp \<noteq> '''' \<Longrightarrow> decision s' (sp_TraceID sp) = Some b"
    and keeps: "ask e s sp = Inr (b, s') \<Longrightarrow> decision s k = Some d \<Longrightarrow> decision s' k = Some d"
begin

lemma run_known:
  assumes "sampler_run ask s xs = Inr (bs, s')"
    and "decision s k = Some d" "k \<noteq> ''''" "i < length xs" "sp_TraceID (snd (xs ! i)) = k"
  shows "bs ! i = d"
  using assms
proof (induction xs arbitrary: s bs i)
  case (Cons x xs)
  then obtain b bs' s1 where b: "bs = b # bs'"
    and step: "ask (fst x) s (snd x) = Inr (b, s1)" and run: "sampler_run ask s1 xs = Inr (bs', s')"
    by (auto simp: sampler_run_Cons simp del: sampler_run.simps(2))
  have "b = d" if "sp_TraceID (snd x) = k"
    using records [OF step] keeps [OF step Cons.prems(2)] that Cons.prems(3) by simp
  then show ?case
    using Cons.IH [OF run keeps [OF step Cons.prems(2)] Cons.prems(3)] Cons.prems(4,5) b by (cases i) auto
qed simp

lemma run_consistent:
  assumes "sampler_run ask s xs = Inr (bs, s')"
    and "i \<le> j" "j < length xs" "sp_TraceID (snd (xs ! i)) = sp_TraceID (snd (xs ! j))"
    and "sp_TraceID (snd (xs ! i)) \<noteq> ''''"
  shows "bs ! i = bs ! j"
  using assms
proof (induction xs arbitrary: s bs i j)
  case (Cons x xs)
  then obtain b bs' s1 where b: "bs = b # bs'"
    and step: "ask (fst x) s (snd x) = Inr (b, s1)" and run: "sampler_run ask s1 xs = Inr (bs', s')"
    by (auto simp: sampler_run_Cons simp del: sampler_run.simps(2))
  show ?case
  proof (cases i)
    case (Suc i')
    then obtain j' where j: "j = Suc j'" using Cons.prems(2) by (cases j) auto
    have "bs' ! i' = bs' ! j'"
      by (rule Cons.IH [OF run]) (use Suc j Cons.prems(2-5) in simp_all)
    with Suc j b show ?thesis by simp
  next
    case 0
    show ?thesis
    proof (cases j)
      case (Suc j')
      have "bs' ! j' = b"
        by (rule run_known [OF run records [OF step]]) (use 0 Suc Cons.prems(3-5) in simp_all)
      with 0 Suc b show ?thesis by simp
    qed (simp add: 0)
  qed
qed simp

text \<open>What has been chosen among spans whose traces are decided does not change any more.\<close>

lemma stable:
  assumes "ask e s sp = Inr (b, s')" "list_all (\<lambda>x. decision s (sp_TraceID (f x)) \<noteq> None) xs"
  shows "list_all (\<lambda>x. decision s' (sp_TraceID (f x)) \<noteq> None) xs"
    "filter (\<lambda>x. decision s' (sp_TraceID (f x)) = Some True) xs =
     filter (\<lambda>x. decision s (sp_TraceID (f x)) = Some True) xs"
proof -
  have same: "decision s' (sp_TraceID (f x)) = decision s (sp_TraceID (f x))" if "x \<in> set xs" for x
    using keeps [OF assms(1)] that assms(2) by (auto simp: list_all_iff)
  then show "list_all (\<lambda>x. decision s' (sp_TraceID (f x)) \<noteq> None) xs"
    using assms(2) by (simp add: list_all_iff)
  show "filter (\<lambda>x. decision s' (sp_TraceID (f x)) = Some True) xs =
     filter (\<lambda>x. decision s (sp_TraceID (f x)) = Some True) xs"
    by (rule filter_cong [OF refl]) (simp add: same)
qed

end

definition trace_decision :: "'st trace_sampler \<Rightarrow> string \<Rightarrow> bool option" where
  "trace_decision s k = map_option fst (ts_sampledTraces s k)"

interpretation decisions: decision_table "trace_step inner" trace_decision
  for inner :: "'env \<Rightarrow> 'st \<Rightarrow> span \<Rightarrow> (bool \<times> 'st) go"
  by unfold_locales
     (auto simp: trace_decision_def trace_step_def Trace_ShouldSample_def go_bind_eq_Inr
       split: option.splits if_splits)

lemma sampler_run_append:
  "sampler_run f s (xs @ ys) =
     go_bind (sampler_run f s xs) (\<lambda>(bs, s').
     go_bind (sampler_run f s' ys) (\<lambda>(bs', s''). Inr (bs @ bs', s'')))"
proof (induction xs arbitrary: s)
  case Nil
  then show ?case by (cases "sampler_run f s ys") auto
next
  case (Cons x xs)
  obtain e sp where x: "x = (e, sp)" by (cases x)
  show ?case
  proof (cases "f e s sp")
    case (Inr r)
    obtain b s1 where r: "r = (b, s1)" by (cases r)
    show ?thesis
    proof (cases "sampler_run f s1 xs")
      case i: (Inr r')
      obtain bs s2 where r': "r' = (bs, s2)" by (cases r')
      show ?thesis
        by (cases "sampler_run f s2 ys") (auto simp: x Inr r i r' Cons.IH)
    qed (simp add: x Inr r Cons.IH)
  qed (simp add: x)
qed

definition same_config :: "dynamic_sampler \<Rightarrow> dynamic_sampler \<Rightarrow> bool" where
  "same_config s t \<longleftrightarrow>
     ds_highLatencyThresholdMs s = ds_highLatencyThresholdMs t \<and>
     ds_highLatencySampleRate s = ds_highLatencySampleRate t \<and>
     ds_lowLatencySampleRate s = ds_lowLatencySampleRate t"

lemma same_config_slow: "same_config s t \<Longrightarrow> slow_span s sp = slow_span t sp"
  by (simp add: same_config_def slow_span_def)

lemma dynamic_step_config: "Dynamic_ShouldSample rnd s sp = Inr (b, s') \<Longrightarrow> same_config s' s"
  by (auto simp: Dynamic_ShouldSample_def Dynamic_SamplingRate_def Let_def go_bind_eq_Inr
      same_config_def split: if_splits)

lemma trace_run_unknown:
  assumes "sampler_run (trace_step Dynamic_ShouldSample) s xs = Inr (bs, s')"
    and "ts_sampledTraces s k = None" "\<And>x. x \<in> set xs \<Longrightarrow> sp_TraceID (snd x) \<noteq> k"
  shows "ts_sampledTraces s' k = None \<and> same_config (ts_innerSampler s') (ts_innerSampler s)"
  using assms
proof (induction xs arbitrary: s bs)
  case Nil
  then show ?case by (simp add: same_config_def)
next
  case (Cons x xs)
  then obtain b bs' s1 where step: "trace_step Dynamic_ShouldSample (fst x) s (snd x) = Inr (b, s1)"
    and run: "sampler_run (trace_step Dynamic_ShouldSample) s1 xs = Inr (bs', s')"
    by (auto simp: sampler_run_Cons simp del: sampler_run.simps(2))
  have "sp_TraceID (snd x) \<noteq> k" using Cons.prems(3) by simp
  with step Cons.prems(2) have "ts_sampledTraces s1 k = None \<and>
      same_config (ts_innerSampler s1) (ts_innerSampler s)"
    by (auto simp: trace_step_def Trace_ShouldSample_def go_bind_eq_Inr same_config_def
        split: if_split_asm option.split_asm dest!: dynamic_step_config)
  with Cons.IH [OF run] Cons.prems(3) show ?case by (auto simp: same_config_def)
qed

text \<open>The answer to a span whose trace is new.\<close>

lemma trace_step_new:
  assumes "trace_step Dynamic_ShouldSample en s sp = Inr (b, s')"
    and "ts_sampledTraces s (sp_TraceID sp) = None"
  shows "(slow_span (ts_innerSampler s) sp \<or> error_span sp) \<and>
         f_le (Fin 1) (ds_highLatencySampleRate (ts_innerSampler s)) \<longrightarrow> b"
    and "\<not> slow_span (ts_innerSampler s) sp \<and> \<not> error_span sp \<and>
         f_le (ds_lowLatencySampleRate (ts_innerSampler s)) (Fin 0) \<longrightarrow> \<not> b"
proof -
  from assms obtain i where step: "Dynamic_ShouldSample (fst en) (ts_innerSampler s) sp = Inr (b, i)"
    by (auto simp: trace_step_def Trace_ShouldSample_def go_bind_eq_Inr split: if_split_asm)
  show "(slow_span (ts_innerSampler s) sp \<or> error_span sp) \<and>
         f_le (Fin 1) (ds_highLatencySampleRate (ts_innerSampler s)) \<longrightarrow> b"
    using dyn.certain [OF TrueI _ _ step] by (auto simp: Dynamic_SamplingRate_def)
  show "\<not> slow_span (ts_innerSampler s) sp \<and> \<not> error_span sp \<and>
         f_le (ds_lowLatencySampleRate (ts_innerSampler s)) (Fin 0) \<longrightarrow> \<not> b"
    using dyn.never [OF TrueI _ _ step] by (auto simp: Dynamic_SamplingRate_def)
qed

text \<open>The window of the adaptive sampler on a chronological list of events.\<close>

lemma adaptive_forced:
  assumes "slow_span (as_dynamic s) sp \<or> error_span sp"
  shows "\<exists>s1. Adaptive_ShouldSample t1 t2 rnd s sp = Inr (True, s1) \<and>
     ds_totalCount (as_dynamic s1) = ds_totalCount (as_dynamic s) \<and>
     ds_sampledCount (as_dynamic s1) = ds_sampledCount (as_dynamic s) + 1 \<and>
     ds_highLatencyThresholdMs (as_dynamic s1) = ds_highLatencyThresholdMs (as_dynamic s)"
  using assms
  by (cases "slow_span (as_dynamic s) sp")
     (simp_all add: Adaptive_ShouldSample_def Let_def addEvent_def pruneOldEvents_def)

lemma dropWhile_sorted:
  "sorted ts \<Longrightarrow> dropWhile (\<lambda>t. \<not> c < t) ts = filter (\<lambda>t. c < t) ts" for c :: gtime
proof (induction ts)
  case (Cons t ts)
  show ?case
  proof (cases "c < t")
    case True
    with Cons.prems have "\<forall>x\<in>set ts. c < x" by auto
    with True show ?thesis by (simp add: filter_id_conv)
  next
    case False
    with Cons show ?thesis by simp
  qed
qed simp

lemma addEvent_window:
  "as_eventsWindow (addEvent t s) =
     dropWhile (\<lambda>x. \<not> t - as_windowDuration s < x) (as_eventsWindow s @ [t])"
  "as_windowDuration (addEvent t s) = as_windowDuration s"
  "as_targetEventsPerSecond (addEvent t s) = as_targetEventsPerSecond s"
  "as_dynamic (addEvent t s) = as_dynamic s"
  by (simp_all add: addEvent_def pruneOldEvents_def)

lemma fold_addEvent_frame:
  "as_windowDuration (fold addEvent ts s) = as_windowDuration s"
  by (induction ts arbitrary: s) (simp_all add: addEvent_window)

lemma addEvents_window:
  assumes "sorted (ts @ [t])" "as_eventsWindow s = []" "0 < as_windowDuration s"
  shows "as_eventsWindow (fold addEvent (ts @ [t]) s) =
     filter (\<lambda>x. t - as_windowDuration s < x) (ts @ [t])"
  using assms(1)
proof (induction ts arbitrary: t rule: rev_induct)
  case Nil
  then show ?case using assms(2,3) by (simp add: addEvent_window)
next
  case (snoc u us)
  let ?w = "as_eventsWindow (fold addEvent (us @ [u]) s)"
  from snoc.prems have su: "sorted (us @ [u])" and ut: "u \<le> t"
    by (simp_all add: sorted_append)
  with snoc.IH have w: "?w = filter (\<lambda>x. u - as_windowDuration s < x) (us @ [u])" by blast
  have "sorted (?w @ [t])"
    using snoc.prems unfolding w by (auto simp: sorted_append intro: sorted_wrt_filter)
  then have "as_eventsWindow (fold addEvent ((us @ [u]) @ [t]) s) =
      filter (\<lambda>x. t - as_windowDuration s < x) (?w @ [t])"
    by (simp add: addEvent_window fold_addEvent_frame dropWhile_sorted)
  also have "\<dots> = filter (\<lambda>x. t - as_windowDuration s < x) ((us @ [u]) @ [t])"
    unfolding w using ut by (auto simp: filter_filter intro!: filter_cong)
  finally show ?case .
qed

section \<open>Properties\<close>

text \<open>
  C29: The statistics of the dynamic sampler account for every span: after any run from a new
  sampler the total is the number of spans, the sampled count is the number of spans taken,
  and it is the sum of the high- and the low-latency counts.
\<close>

theorem dynamic_sampler_counts:
  assumes "sampler_run Dynamic_ShouldSample (NewDynamicSampler cfg) xs = Inr (bs, s)"
    and "length xs < 2 ^ 64"
  shows "unat (ds_totalCount s) = length xs \<and>
     unat (ds_sampledCount s) = length (filter (\<lambda>b. b) bs) \<and>
     unat (ds_highLatencyCount s) + unat (ds_lowLatencyCount s) = unat (ds_sampledCount s) \<and>
     ds_sampledCount s \<le> ds_totalCount s"
proof -
  from dynamic_run_counts [OF assms(1)] obtain h l where c:
    "length (filter (\<lambda>b. b) bs) = h + l" "ds_totalCount s = of_nat (length xs)"
    "ds_sampledCount s = of_nat (h + l)" "ds_highLatencyCount s = of_nat h"
    "ds_lowLatencyCount s = of_nat l"
    by (auto simp: NewDynamicSampler_def)
  have "h + l \<le> length xs"
    using length_filter_le [of "\<lambda>b. b" bs] sampler_run_length [OF assms(1)] c(1) by simp
  moreover have u: "unat (of_nat n :: u64) = n" if "n \<le> length xs" for n
    using that assms(2) unfolding unat_of_nat by (intro mod_less) simp
  ultimately have "unat (ds_totalCount s) = length xs" "unat (ds_sampledCount s) = h + l"
    "unat (ds_highLatencyCount s) = h" "unat (ds_lowLatencyCount s) = l"
    unfolding c by (simp_all del: of_nat_add)
  with c(1) \<open>h + l \<le> length xs\<close> show ?thesis by (simp add: word_le_nat_alt)
qed

definition demo_sampling :: sampling_config where
  "demo_sampling = \<lparr>sc_HighLatencyThresholdMs = 500, sc_HighLatencySampleRate = Fin 1,
     sc_LowLatencySampleRate = Fin 0\<rparr>"

definition fast_span :: "string \<Rightarrow> span" where
  "fast_span i = (ConvertRawEventToSpan zero_event '''' '''')\<lparr>sp_TraceID := i\<rparr>"

lemma fast_span_simps [simp]:
  "sp_TraceID (fast_span i) = i" "sp_DurationMs (fast_span i) = Fin 0" "sp_ErrorCode (fast_span i) = 0"
  by (simp_all add: fast_span_def zero_event_def)

theorem dynamic_sampler_counts_witness:
  "\<exists>bs s. sampler_run Dynamic_ShouldSample (NewDynamicSampler demo_sampling)
       [(Fin 0, fast_span ''a''), (Fin 0, (fast_span ''b'')\<lparr>sp_ErrorCode := 500\<rparr>)] = Inr (bs, s) \<and>
     unat (ds_totalCount s) = 2 \<and> ds_sampledCount s \<le> ds_totalCount s"
proof -
  let ?xs = "[(Fin 0, fast_span ''a''), (Fin 0, (fast_span ''b'')\<lparr>sp_ErrorCode := 500\<rparr>)]"
  obtain bs s where "sampler_run Dynamic_ShouldSample (NewDynamicSampler demo_sampling) ?xs = Inr (bs, s)"
    using dyn.run_total by blast
  from dynamic_sampler_counts [OF this] this show ?thesis by auto
qed

text \<open>
  C30: The sampler that the program installs, trace-level over dynamic, answers every
  sequence of spans, and the first span of a trace decides for all of it: a trace is taken
  if its first span is slow or failed (when the high rate is 1), and it is refused if its
  first span is fast and fine (when the low rate is 0), whatever errors and latencies its
  later spans show.
\<close>

theorem trace_decided_by_first_span:
  assumes "f \<le> i" "i < length xs"
    and "sp_TraceID (snd (xs ! f)) = sp_TraceID (snd (xs ! i))" "sp_TraceID (snd (xs ! f)) \<noteq> ''''"
    and first: "\<And>k. k < f \<Longrightarrow> sp_TraceID (snd (xs ! k)) \<noteq> sp_TraceID (snd (xs ! f))"
  shows "\<exists>bs s. sampler_run (trace_step Dynamic_ShouldSample)
           (NewTraceLevelSampler (NewDynamicSampler cfg)) xs = Inr (bs, s) \<and> bs ! i = bs ! f \<and>
     ((slow_span (NewDynamicSampler cfg) (snd (xs ! f)) \<or> error_span (snd (xs ! f))) \<and>
        f_le (Fin 1) (sc_HighLatencySampleRate cfg) \<longrightarrow> bs ! i) \<and>
     (\<not> slow_span (NewDynamicSampler cfg) (snd (xs ! f)) \<and> \<not> error_span (snd (xs ! f)) \<and>
        f_le (sc_LowLatencySampleRate cfg) (Fin 0) \<longrightarrow> \<not> bs ! i)"
proof -
  let ?d = "NewDynamicSampler cfg" and ?id = "sp_TraceID (snd (xs ! f))"
  let ?s = "NewTraceLevelSampler ?d" and ?step = "trace_step Dynamic_ShouldSample"
  obtain bs s where run: "sampler_run ?step ?s xs = Inr (bs, s)"
    using dyn.tl.run_total by blast
  have f: "f < length xs" using assms(1,2) by simp
  then have "xs = take f xs @ xs ! f # drop (Suc f) xs" by (rule id_take_nth_drop)
  then have "sampler_run ?step ?s (take f xs @ xs ! f # drop (Suc f) xs) = Inr (bs, s)"
    using run by simp
  then obtain bs1 s1 bs2 where r1: "sampler_run ?step ?s (take f xs) = Inr (bs1, s1)"
    and r2: "sampler_run ?step s1 (xs ! f # drop (Suc f) xs) = Inr (bs2, s)" and bs: "bs = bs1 @ bs2"
    by (auto simp: sampler_run_append go_bind_eq_Inr simp del: sampler_run.simps(2))
  from r2 obtain b bs3 s2 where step: "?step (fst (xs ! f)) s1 (snd (xs ! f)) = Inr (b, s2)"
    and b: "bs2 = b # bs3"
    by (auto simp: sampler_run_Cons simp del: sampler_run.simps(2))
  have "length bs1 = f" using sampler_run_length [OF r1] f by simp
  then have bf: "bs ! f = b" by (simp add: bs b nth_append)
  have "sp_TraceID (snd x) \<noteq> ?id" if "x \<in> set (take f xs)" for x
    using that first f by (auto simp: in_set_conv_nth)
  then have new: "ts_sampledTraces s1 ?id = None" and cfg: "same_config (ts_innerSampler s1) ?d"
    using trace_run_unknown [OF r1, of ?id] by (auto simp: NewTraceLevelSampler_def)
  have bi: "bs ! i = bs ! f"
    using decisions.run_consistent [OF run assms(1-3)] assms(4) by simp
  have rates: "ds_highLatencySampleRate (ts_innerSampler s1) = sc_HighLatencySampleRate cfg"
    "ds_lowLatencySampleRate (ts_innerSampler s1) = sc_LowLatencySampleRate cfg"
    using cfg by (simp_all add: same_config_def NewDynamicSampler_def)
  from trace_step_new [OF step new] run bi bf show ?thesis
    by (auto simp: rates same_config_slow [OF cfg])
qed

theorem trace_decided_by_first_span_witness:
  "\<exists>bs s. sampler_run (trace_step Dynamic_ShouldSample)
       (NewTraceLevelSampler (NewDynamicSampler demo_sampling))
       [((Fin 0, 0), fast_span ''t''), ((Fin 0, 1), (fast_span ''t'')\<lparr>sp_ErrorCode := 500\<rparr>)] = Inr (bs, s) \<and>
     \<not> bs ! 1"
  using trace_decided_by_first_span [of 0 1
      "[((Fin 0, 0), fast_span ''t''), ((Fin 0, 1), (fast_span ''t'')\<lparr>sp_ErrorCode := 500\<rparr>)]" demo_sampling]
  by (auto simp: slow_span_def error_span_def NewDynamicSampler_def demo_sampling_def f_of_int_def)

text \<open>
  The adaptive sampler crashes exactly when it has to adapt: a fast span without error
  arriving while more than the target number of events per second is in the ten-second
  window dereferences the nil span it passes to \<open>SamplingRate\<close>.
\<close>

theorem adaptive_sampler_panics:
  assumes "as_windowDuration s = 10 * second"
  shows "Adaptive_ShouldSample t1 t2 rnd s sp = Inl p \<longleftrightarrow>
     p = NilDeref \<and> \<not> slow_span (as_dynamic s) sp \<and> \<not> error_span sp \<and>
     10 * as_targetEventsPerSecond s <
       int (length (as_eventsWindow (pruneOldEvents t2 (addEvent t1 s))))"
proof -
  let ?n = "length (as_eventsWindow (pruneOldEvents t2 (addEvent t1 s)))"
  have eps: "currentEPS t2 (addEvent t1 s) = (Fin (real ?n / 10), pruneOldEvents t2 (addEvent t1 s))"
    by (simp add: currentEPS_def Let_def pruneOldEvents_def addEvent_window assms second_def f_of_int_def)
  have target: "as_targetEventsPerSecond (pruneOldEvents t2 (addEvent t1 s)) = as_targetEventsPerSecond s"
    by (simp add: pruneOldEvents_def addEvent_window)
  have "f_le (Fin (real ?n / 10)) (f_of_int (as_targetEventsPerSecond s)) \<longleftrightarrow>
      int ?n \<le> 10 * as_targetEventsPerSecond s"
    by (simp add: f_of_int_def divide_le_eq) linarith
  then show ?thesis
    by (auto simp: Adaptive_ShouldSample_def Let_def eps calculateAdaptiveRate_def target
        Dynamic_SamplingRate_def addEvent_window)
qed

theorem adaptive_sampler_panics_witness:
  "Adaptive_ShouldSample 5 6 (Fin 0)
     ((NewAdaptiveSampler demo_sampling 1)\<lparr>as_eventsWindow := replicate 10 1\<rparr>) (fast_span ''t'') =
   Inl NilDeref"
proof -
  let ?s = "(NewAdaptiveSampler demo_sampling 1)\<lparr>as_eventsWindow := replicate 10 1\<rparr>"
  have "as_windowDuration ?s = 10 * second" by (simp add: NewAdaptiveSampler_def)
  then show ?thesis
    by (subst adaptive_sampler_panics)
       (simp_all add: NewAdaptiveSampler_def NewDynamicSampler_def demo_sampling_def slow_span_def
         error_span_def f_of_int_def addEvent_def pruneOldEvents_def second_def numeral_eq_Suc)
qed

text \<open>
  C31: On a chronological sequence of events the window of the adaptive sampler holds exactly
  the events of the last ten seconds, and the rate it computes is their number divided by 10.
\<close>

theorem adaptive_window_exact:
  assumes "sorted (ts @ [t])"
  shows "as_eventsWindow (fold addEvent (ts @ [t]) (NewAdaptiveSampler cfg n)) =
           filter (\<lambda>x. t - 10 * second < x) (ts @ [t]) \<and>
     fst (currentEPS t (fold addEvent (ts @ [t]) (NewAdaptiveSampler cfg n))) =
       Fin (real (length (filter (\<lambda>x. t - 10 * second < x) (ts @ [t]))) / 10)"
proof -
  let ?s = "NewAdaptiveSampler cfg n"
  have d: "as_windowDuration ?s = 10 * second" "as_eventsWindow ?s = []" "0 < as_windowDuration ?s"
    by (simp_all add: NewAdaptiveSampler_def second_def)
  have w: "as_eventsWindow (fold addEvent (ts @ [t]) ?s) =
      filter (\<lambda>x. t - 10 * second < x) (ts @ [t])"
    using addEvents_window [OF assms d(2,3)] by (simp only: d(1))
  have "as_windowDuration (fold addEvent (ts @ [t]) ?s) = 10 * second"
    by (simp only: fold_addEvent_frame d(1))
  moreover from this have "as_eventsWindow (pruneOldEvents t (fold addEvent (ts @ [t]) ?s)) =
      filter (\<lambda>x. t - 10 * second < x) (ts @ [t])"
    using assms
    by (simp only: pruneOldEvents_def w) (simp add: dropWhile_sorted sorted_append sorted_wrt_filter)
  ultimately have "fst (currentEPS t (fold addEvent (ts @ [t]) ?s)) =
      f_div (f_of_int (int (length (filter (\<lambda>x. t - 10 * second < x) (ts @ [t])))))
            (f_div (f_of_int (10 * second)) (f_of_int second))"
    by (simp only: currentEPS_def Let_def fst_conv) (simp add: pruneOldEvents_def)
  with w show ?thesis by (simp only:) (simp add: f_of_int_def second_def)
qed

theorem adaptive_window_exact_witness:
  "as_eventsWindow (fold addEvent [0, 5, 10 ^ 10 + 2] (NewAdaptiveSampler demo_sampling 1)) =
     [5, 10 ^ 10 + 2]"
  using adaptive_window_exact [of "[0, 5]" "10 ^ 10 + 2" demo_sampling 1]
  by (simp add: second_def)

text \<open>
  The adaptive sampler leaves its forced spans out of the total: after any number of slow
  or failed spans the sampled count has grown by that number and the total not at all, so
  the overall rate it reports can exceed 1 (and is 0 while only forced spans came).
\<close>

theorem adaptive_forced_uncounted:
  assumes "\<forall>x\<in>set xs. slow_span (as_dynamic s) (snd x) \<or> error_span (snd x)"
  shows "\<exists>s'. sampler_run (\<lambda>(t1, t2, rnd). Adaptive_ShouldSample t1 t2 rnd) s xs =
       Inr (replicate (length xs) True, s') \<and>
     ds_totalCount (as_dynamic s') = ds_totalCount (as_dynamic s) \<and>
     ds_sampledCount (as_dynamic s') = ds_sampledCount (as_dynamic s) + of_nat (length xs)"
  using assms
proof (induction xs arbitrary: s)
  case Nil
  then show ?case by simp
next
  case (Cons x xs)
  obtain t1 t2 rnd sp where x: "x = ((t1, t2, rnd), sp)" by (metis prod.collapse)
  with Cons.prems have "slow_span (as_dynamic s) sp \<or> error_span sp" by simp
  from adaptive_forced [OF this, of t1 t2 rnd] obtain s1
    where step: "Adaptive_ShouldSample t1 t2 rnd s sp = Inr (True, s1)"
    and c: "ds_totalCount (as_dynamic s1) = ds_totalCount (as_dynamic s)"
      "ds_sampledCount (as_dynamic s1) = ds_sampledCount (as_dynamic s) + 1"
      "ds_highLatencyThresholdMs (as_dynamic s1) = ds_highLatencyThresholdMs (as_dynamic s)"
    by blast
  have "slow_span (as_dynamic s1) sp' = slow_span (as_dynamic s) sp'" for sp'
    by (simp add: slow_span_def c(3))
  with Cons.prems have "\<forall>x\<in>set xs. slow_span (as_dynamic s1) (snd x) \<or> error_span (snd x)"
    by simp
  from Cons.IH [OF this] obtain s' where
    "sampler_run (\<lambda>(t1, t2, rnd). Adaptive_ShouldSample t1 t2 rnd) s1 xs =
       Inr (replicate (length xs) True, s')"
    "ds_totalCount (as_dynamic s') = ds_totalCount (as_dynamic s1)"
    "ds_sampledCount (as_dynamic s') = ds_sampledCount (as_dynamic s1) + of_nat (length xs)" by blast
  with step c(1,2) show ?case by (simp add: x)
qed

theorem adaptive_forced_uncounted_witness:
  "\<exists>s'. sampler_run (\<lambda>(t1, t2, rnd). Adaptive_ShouldSample t1 t2 rnd)
       (NewAdaptiveSampler demo_sampling 1)
       [((0, 0, Fin 0), (fast_span ''t'')\<lparr>sp_ErrorCode := 500\<rparr>)] = Inr ([True], s') \<and>
     ds_totalCount (as_dynamic s') = 0 \<and> ds_sampledCount (as_dynamic s') = 1"
  using adaptive_forced_uncounted [of "[((0, 0, Fin 0), (fast_span ''t'')\<lparr>sp_ErrorCode := 500\<rparr>)]"
      "NewAdaptiveSampler demo_sampling 1"]
  by (simp add: error_span_def NewAdaptiveSampler_def NewDynamicSampler_def)

text \<open>
  The composite sampler takes a span exactly when every sampler of its list takes it, and
  it asks no sampler behind the first that refuses.
\<close>

theorem composite_samples_all:
  assumes "\<And>f s. (f, s) \<in> set ss \<Longrightarrow> \<exists>b s'. f s sp = Inr (b, s')"
  shows "\<exists>ss'. Composite_ShouldSample ss sp =
       Inr (list_all (\<lambda>(f, s). \<exists>s'. f s sp = Inr (True, s')) ss, ss') \<and>
     (\<forall>pre f s post. ss = pre @ (f, s) # post \<and> (\<exists>s'. f s sp = Inr (False, s')) \<longrightarrow>
        drop (Suc (length pre)) ss' = post)"
  using assms
proof (induction ss)
  case Nil
  then show ?case by simp
next
  case (Cons fs ss)
  obtain f s where fs: "fs = (f, s)" by (cases fs)
  then have "(f, s) \<in> set (fs # ss)" by simp
  from Cons.prems [OF this] obtain b s1 where step: "f s sp = Inr (b, s1)" by blast
  from Cons obtain ss' where IH: "Composite_ShouldSample ss sp =
      Inr (list_all (\<lambda>(f, s). \<exists>s'. f s sp = Inr (True, s')) ss, ss')"
    "\<And>pre g t post. ss = pre @ (g, t) # post \<Longrightarrow> \<exists>s'. g t sp = Inr (False, s') \<Longrightarrow>
       drop (Suc (length pre)) ss' = post" by fastforce
  show ?case
  proof (cases b)
    case True
    with step IH(1) have "Composite_ShouldSample (fs # ss) sp =
        Inr (list_all (\<lambda>(f, s). \<exists>s'. f s sp = Inr (True, s')) (fs # ss), (f, s1) # ss')"
      by (simp add: fs)
    moreover have "drop (Suc (length pre)) ((f, s1) # ss') = post"
      if "fs # ss = pre @ (g, t) # post" "\<exists>s'. g t sp = Inr (False, s')" for pre g t post
      using that True step IH(2) by (cases pre) (auto simp: fs)
    ultimately show ?thesis by blast
  next
    case False
    with step have "Composite_ShouldSample (fs # ss) sp = Inr (False, (f, s1) # ss)"
      by (simp add: fs)
    moreover have "drop (Suc (length pre)) ((f, s1) # ss) = post"
      if "fs # ss = pre @ (g, t) # post" for pre g t post
      using that by (cases pre) auto
    ultimately show ?thesis using step False by (auto simp: fs)
  qed
qed

theorem composite_samples_all_witness:
  "\<exists>ss'. Composite_ShouldSample
       [(Dynamic_ShouldSample (Fin 0), NewDynamicSampler demo_sampling)] (fast_span ''t'') = Inr (False, ss')"
proof -
  have "\<not> (\<exists>s'. Dynamic_ShouldSample (Fin 0) (NewDynamicSampler demo_sampling) (fast_span ''t'') = Inr (True, s'))"
    by (simp add: Dynamic_ShouldSample_def Dynamic_SamplingRate_def NewDynamicSampler_def
        demo_sampling_def slow_span_def error_span_def f_of_int_def Let_def)
  with composite_samples_all [of "[(Dynamic_ShouldSample (Fin 0), NewDynamicSampler demo_sampling)]"
      "fast_span ''t''"] dyn.answers [where st = "NewDynamicSampler demo_sampling" and e = "Fin 0" and sp = "fast_span ''t''"]
  show ?thesis
    by auto
qed

end
