(* ===== verification/Api.thy ===== *)
theory Api
  imports Store_Queries Tracer Correlator Anomaly Compression Flamegraph Sampler
begin

text \<open>
  \<open>pkg/api/server.go\<close>: the handlers of the REST server as functions from the parameters of the
  request, the state they read and the answers of the database to the reply. The gin engine
  (routing, binding of query parameters, writing the reply) is third-party code: a handler
  gets the bound parameters and returns what it hands to the engine. \<open>now\<close> is the clock,
  \<open>now i\<close> its i-th reading within the handler.
\<close>

section \<open>Replies\<close>

datatype api_value =
    VNull
  | VInt int
  | VFloat f64
  | VStr string
  | VTime gtime
  | VList "api_value list"
  | VObj "(string \<times> api_value) list"
  | VTrace trace
  | VTraces "trace list"
  | VServiceStats service_stats
  | VEdges "service_edge list"
  | VSampling sampling_stats
  | VBpf bpf_stats
  | VCorrelator correlator_stats
  | VStore store_report
  | VFrameStats "string \<rightharpoonup> frame_stats"
  | VFrames "flame_frame list"

record api_response =
  ar_Code :: int
  ar_Message :: string
  ar_Data :: api_value

text \<open>A JSON reply with its HTTP status, or a text with its content type and disposition.\<close>

datatype reply = JSON int api_response | Content int string string string

definition failure :: "int \<Rightarrow> string \<Rightarrow> reply" where
  "failure code msg = JSON code \<lparr>ar_Code = code, ar_Message = msg, ar_Data = VNull\<rparr>"

definition success :: "string \<Rightarrow> api_value \<Rightarrow> reply" where
  "success msg v = JSON 200 \<lparr>ar_Code = 200, ar_Message = msg, ar_Data = v\<rparr>"

text \<open>
  \<open>encoding/json\<close> refuses the floats that are not numbers, wherever they are in the data: such
  a reply cannot be sent. \<open>h\<close> holds the spans of the traces (those with a cycle of children,
  which it refuses as well, aside).
\<close>

definition trace_encodable :: "heap \<Rightarrow> trace \<Rightarrow> bool" where
  "trace_encodable h t \<longleftrightarrow> f_finite (tr_Duration t) \<and>
     list_all (\<lambda>a. \<forall>s. h a = Some s \<longrightarrow> f_finite (sp_DurationMs s)) (tr_Spans t)"

fun encodable :: "heap \<Rightarrow> api_value \<Rightarrow> bool" where
  "encodable h (VFloat x) = f_finite x"
| "encodable h (VList vs) = list_all (encodable h) vs"
| "encodable h (VObj kvs) = list_all (\<lambda>(k, v). encodable h v) kvs"
| "encodable h (VTrace t) = trace_encodable h t"
| "encodable h (VTraces ts) = list_all (trace_encodable h) ts"
| "encodable h (VServiceStats s) = list_all (\<lambda>op. f_finite (os_avg_duration_ms op) \<and>
     f_finite (os_p50_duration_ms op) \<and> f_finite (os_p95_duration_ms op) \<and> f_finite (os_p99_duration_ms op))
     (sv_operations s)"
| "encodable h (VEdges es) = list_all (\<lambda>e. f_finite (se_avg_duration_ms e)) es"
| "encodable h (VSampling s) \<longleftrightarrow> f_finite (ss_OverallSampleRate s) \<and> f_finite (ss_HighLatencyRate s) \<and>
     f_finite (ss_LowLatencyRate s)"
| "encodable h (VFrameStats m) \<longleftrightarrow> (\<forall>k s. m k = Some s \<longrightarrow>
     f_finite (fs_TotalTime s) \<and> f_finite (fs_SelfTime s) \<and> f_finite (fs_Percentage s))"
| "encodable h (VFrames fs) = list_all (\<lambda>f. f_finite (ff_Duration f)) (concat (map collectAllFrames fs))"
| "encodable h v = True"

record api_server =
  sr_store :: "clickhouse_store option"
  sr_sampler :: "dynamic_sampler option"
  sr_tracer :: "tracer option"
  sr_correlator :: "correlator option"
  sr_anomalyDetector :: "anomaly_detector option"
  sr_compressor :: "compressor option"
  sr_cfg :: server_config
  sr_server :: "string option"

definition NewServer ::
  "server_config \<Rightarrow> clickhouse_store option \<Rightarrow> dynamic_sampler option \<Rightarrow> tracer option \<Rightarrow>
   correlator option \<Rightarrow> anomaly_detector option \<Rightarrow> compressor option \<Rightarrow> api_server"
where
  "NewServer cfg store smp tr corr anom cpr =
     \<lparr>sr_store = store, sr_sampler = smp, sr_tracer = tr, sr_correlator = corr,
      sr_anomalyDetector = anom, sr_compressor = cpr, sr_cfg = cfg, sr_server = None\<rparr>"

text \<open>
  The routes: the handler that a path of a GET request reaches; \<open>segs\<close> are its parts.
\<close>

datatype endpoint = EGetTrace string | EFlameGraph string | ESearchTraces | EServices
  | EServiceStats string | EServiceMap | ESamplingStats | EAnomalyStats | ECompressionStats
  | EHealth | ESystemStats | EMetrics | ENotFound

definition route :: "string list \<Rightarrow> endpoint" where
  "route segs =
     (case segs of
        [''metrics''] \<Rightarrow> EMetrics
      | a # v # rest \<Rightarrow>
          if a = ''api'' \<and> v = ''v1'' then
            (case rest of
               [x] \<Rightarrow> if x = ''traces'' then ESearchTraces else if x = ''services'' then EServices
                   else if x = ''service-map'' then EServiceMap else if x = ''health'' then EHealth
                   else ENotFound
             | [x, y] \<Rightarrow> if x = ''trace'' then EGetTrace y
                   else if x = ''sampling'' \<and> y = ''stats'' then ESamplingStats
                   else if x = ''anomaly'' \<and> y = ''stats'' then EAnomalyStats
                   else if x = ''compression'' \<and> y = ''stats'' then ECompressionStats
                   else if x = ''system'' \<and> y = ''stats'' then ESystemStats
                   else ENotFound
             | [x, y, z] \<Rightarrow> if x = ''trace'' \<and> z = ''flamegraph'' then EFlameGraph y
                   else if x = ''services'' \<and> z = ''stats'' then EServiceStats y
                   else ENotFound
             | _ \<Rightarrow> ENotFound)
          else ENotFound
      | _ \<Rightarrow> ENotFound)"

definition not_found_reply :: reply where
  "not_found_reply = failure 404 ''Not Found''"

section \<open>Traces\<close>

text \<open>\<open>rows\<close> is what the database answers to the query of \<open>GetTraceByID\<close>.\<close>

definition getTrace :: "span_row query_result \<Rightarrow> addr \<Rightarrow> heap \<Rightarrow> string \<Rightarrow> reply go" where
  "getTrace rows base h traceID =
     (if traceID = '''' then Inr (failure 400 ''traceId is required'')
      else
        go_bind (GetTraceByID rows base h traceID) (\<lambda>r.
          case r of
            Inl err \<Rightarrow> Inr (failure 404 (''Trace not found: '' @ err))
          | Inr (h, None) \<Rightarrow> Inr (success ''success'' VNull)
          | Inr (h, Some t) \<Rightarrow> Inr (success ''success'' (VTrace t))))"

record search_request =
  sq_ServiceName :: string
  sq_StartTime :: int
  sq_EndTime :: int
  sq_MinLatencyMs :: f64
  sq_MaxLatencyMs :: f64
  sq_Protocol :: string
  sq_TraceID :: string
  sq_Limit :: int
  sq_Offset :: int

definition unix_milli :: "int \<Rightarrow> gtime" where "unix_milli ms = ms * 10 ^ 6"

definition search_query :: "(nat \<Rightarrow> gtime) \<Rightarrow> search_request \<Rightarrow> trace_query" where
  "search_query now req =
     (let q = \<lparr>tq_TraceID = sq_TraceID req, tq_ServiceName = sq_ServiceName req, tq_StartTime = None,
            tq_EndTime = None, tq_MinLatencyMs = None, tq_MaxLatencyMs = None,
            tq_Protocol = sq_Protocol req, tq_Limit = sq_Limit req, tq_Offset = sq_Offset req\<rparr>;
          q = (if sq_StartTime req > 0 then q\<lparr>tq_StartTime := Some (unix_milli (sq_StartTime req))\<rparr> else q);
          q = (if sq_EndTime req > 0 then q\<lparr>tq_EndTime := Some (unix_milli (sq_EndTime req))\<rparr> else q);
          q = (if f_lt (Fin 0) (sq_MinLatencyMs req) then q\<lparr>tq_MinLatencyMs := Some (sq_MinLatencyMs req)\<rparr> else q);
          q = (if f_lt (Fin 0) (sq_MaxLatencyMs req) then q\<lparr>tq_MaxLatencyMs := Some (sq_MaxLatencyMs req)\<rparr> else q);
          q = (if tq_StartTime q = None then q\<lparr>tq_StartTime := Some (now 0 - 24 * 3600 * second)\<rparr> else q)
      in if tq_EndTime q = None then q\<lparr>tq_EndTime := Some (now 1)\<rparr> else q)"

text \<open>\<open>bound\<close> is the outcome of binding the query parameters.\<close>

definition searchTraces ::
  "(nat \<Rightarrow> gtime) \<Rightarrow> (string \<times> sql_arg list \<Rightarrow> string query_result) \<Rightarrow> (string \<Rightarrow> span_row query_result) \<Rightarrow>
   addr \<Rightarrow> heap \<Rightarrow> string + search_request \<Rightarrow> reply go"
where
  "searchTraces now run fetch base h bound =
     (case bound of
        Inl err \<Rightarrow> Inr (failure 400 (''Invalid request: '' @ err))
      | Inr req \<Rightarrow>
          go_bind (QueryTraces run fetch (search_query now req) base h) (\<lambda>r.
            case r of
              Inl err \<Rightarrow> Inr (failure 500 (''Query failed: '' @ err))
            | Inr (h, traces) \<Rightarrow> Inr (success ''success'' (VObj
                [(''traces'', VTraces traces), (''total'', VInt (int (length traces))),
                 (''limit'', VInt (sq_Limit req)), (''offset'', VInt (sq_Offset req))]))))"

section \<open>Services\<close>

text \<open>A store method that returns a value and an error.\<close>

definition reply_with :: "int \<Rightarrow> string \<Rightarrow> 'a option \<times> string option \<Rightarrow> ('a option \<Rightarrow> reply) \<Rightarrow> reply" where
  "reply_with code what r ok =
     (case r of (v, Some err) \<Rightarrow> failure code (what @ '': '' @ err) | (v, None) \<Rightarrow> ok v)"

definition value_or_null :: "('a \<Rightarrow> api_value) \<Rightarrow> 'a option \<Rightarrow> api_value" where
  "value_or_null f v = (case v of None \<Rightarrow> VNull | Some x \<Rightarrow> f x)"

definition getServices :: "string query_result \<Rightarrow> reply" where
  "getServices res =
     reply_with 500 ''Failed to get services'' (GetServices res) (\<lambda>services.
       success ''success'' (value_or_null (\<lambda>xs. VList (map VStr xs)) services))"

definition healthCheck :: "gtime \<Rightarrow> string query_result \<Rightarrow> reply" where
  "healthCheck now res =
     reply_with 503 ''ClickHouse not healthy'' (GetServices res) (\<lambda>services.
       success ''healthy'' (VObj
         [(''services_count'', VInt (case services of None \<Rightarrow> 0 | Some xs \<Rightarrow> int (length xs))),
          (''timestamp'', VInt (now div second))]))"

text \<open>
  \<open>strconv.ParseInt\<close> without its error: 0 for bad syntax, the nearest end of the range for a
  number out of range. \<open>Atoi\<close> returns the same value.
\<close>

definition parse_int_value :: "string \<Rightarrow> int" where
  "parse_int_value s =
     (let neg = (case s of c # _ \<Rightarrow> c = CHR ''-'' | [] \<Rightarrow> False);
          ds = (case s of c # t \<Rightarrow> if c = CHR ''-'' \<or> c = CHR ''+'' then t else s | [] \<Rightarrow> s);
          v = int (digits_val 0 ds);
          n = (if neg then - v else v)
      in if ds = [] \<or> \<not> list_all is_digit ds then 0 else max min_int64 (min max_int64 n))"

text \<open>The two bounds of the time window: an hour back from now when a parameter is missing.\<close>

definition window_start :: "gtime \<Rightarrow> string option \<Rightarrow> gtime" where
  "window_start now p =
     unix_milli (parse_int_value (case p of Some s \<Rightarrow> s
       | None \<Rightarrow> int_dec ((now - 3600 * second) div millisecond)))"

definition window_end :: "gtime \<Rightarrow> string option \<Rightarrow> gtime" where
  "window_end now p =
     unix_milli (parse_int_value (case p of Some s \<Rightarrow> s | None \<Rightarrow> int_dec (now div millisecond)))"

definition getServiceStats ::
  "(nat \<Rightarrow> gtime) \<Rightarrow> (string \<Rightarrow> gtime \<Rightarrow> gtime \<Rightarrow> operation_stats query_result) \<Rightarrow>
   string \<Rightarrow> string option \<Rightarrow> string option \<Rightarrow> reply"
where
  "getServiceStats now run serviceName startTime endTime =
     (if serviceName = '''' then failure 400 ''service name is required''
      else
        let st = window_start (now 0) startTime; en = window_end (now 1) endTime in
        reply_with 500 ''Failed to get service stats''
          (GetServiceStats (run serviceName st en) serviceName st en) (\<lambda>stats.
          success ''success'' (value_or_null VServiceStats stats)))"

definition getServiceMap ::
  "(nat \<Rightarrow> gtime) \<Rightarrow> (gtime \<Rightarrow> gtime \<Rightarrow> service_edge query_result) \<Rightarrow> string option \<Rightarrow> string option \<Rightarrow> reply"
where
  "getServiceMap now run startTime endTime =
     reply_with 500 ''Failed to get service map''
       (GetServiceMap (run (window_start (now 0) startTime) (window_end (now 1) endTime))) (\<lambda>edges.
       success ''success'' (value_or_null VEdges edges))"

section \<open>Statistics\<close>

definition u64_dec :: "u64 \<Rightarrow> string" where "u64_dec w = nat_dec (unat w)"

definition percent :: "u64 \<Rightarrow> u64 \<Rightarrow> f64" where
  "percent part whole = f_mul (f_div (f_of_u64 part) (f_of_u64 whole)) (Fin 100)"

definition drop_rate :: "u64 \<Rightarrow> u64 \<Rightarrow> f64" where
  "drop_rate dropped tot = (if tot > 0 then percent dropped tot else Fin 0)"

definition ebpf_alerts :: "bpf_stats option \<Rightarrow> string list \<times> string list" where
  "ebpf_alerts stats =
     (case stats of
        None \<Rightarrow> ([], [])
      | Some s \<Rightarrow>
          (if bs_EventsDropped s > 100
           then [''High eBPF event drop: '' @ u64_dec (bs_EventsDropped s) @ '' events''] else [],
           if bs_Connections s > 500000
           then [''High connection count: '' @ u64_dec (bs_Connections s)] else []))"

definition queue_alert :: "store_report \<Rightarrow> string" where
  "queue_alert s = ''Write queue almost full: '' @ u64_dec (rp_QueueSize s) @ ''/'' @ u64_dec (rp_QueueCapacity s)"

definition store_alerts :: "store_report option \<Rightarrow> string list" where
  "store_alerts stats =
     (case stats of
        None \<Rightarrow> []
      | Some s \<Rightarrow>
          (if rp_QueueSize s > rp_QueueCapacity s * 8 div 10 then [queue_alert s] else []) @
          (if sa_FailedBatches (rp_stats s) > 10
           then [''High batch failures: '' @ u64_dec (sa_FailedBatches (rp_stats s)) @ '' batches''] else []))"

definition getSystemStats :: "gtime \<Rightarrow> api_server \<Rightarrow> reply" where
  "getSystemStats now s =
     (let ebpf = map_option Tracer_GetStats (sr_tracer s);
          corr = map_option Correlator_GetStats (sr_correlator s);
          ch = map_option Store_GetStats (sr_store s);
          (alerts, warnings) = ebpf_alerts ebpf
      in success ''success'' (VObj (
           (case ebpf of None \<Rightarrow> [] | Some b \<Rightarrow>
              [(''ebpf'', VBpf b), (''ebpf_drop_rate'', VFloat (drop_rate (bs_EventsDropped b + bs_RingbufDropped b) (bs_EventsTotal b)))]) @
           (case corr of None \<Rightarrow> [] | Some c \<Rightarrow>
              [(''correlator'', VCorrelator c), (''correlator_drop_rate'', VFloat (drop_rate (cs_DroppedEvents c) (cs_TotalEvents c)))]) @
           (case ch of None \<Rightarrow> [] | Some r \<Rightarrow>
              [(''clickhouse'', VStore r),
               (''clickhouse_drop_rate'', VFloat (drop_rate (sa_DroppedSpans (rp_stats r)) (sa_TotalSpans (rp_stats r)))),
               (''queue_usage_percent'', VFloat (percent (rp_QueueSize r) (rp_QueueCapacity r)))]) @
           (case sr_sampler s of None \<Rightarrow> [] | Some d \<Rightarrow> [(''sampling'', VSampling (Dynamic_Stats d))]) @
           [(''alerts'', VList (map VStr (alerts @ store_alerts ch))),
            (''warnings'', VList (map VStr warnings)),
            (''timestamp'', VInt (now div second))])))"

text \<open>The sampler is called without a test for nil.\<close>

definition getSamplingStats :: "api_server \<Rightarrow> reply go" where
  "getSamplingStats s =
     (case sr_sampler s of
        None \<Rightarrow> Inl NilDeref
      | Some d \<Rightarrow> Inr (success ''success'' (VSampling (Dynamic_Stats d))))"

text \<open>\<open>keys\<close> is the order in which the map of the statistics is visited.\<close>

definition operation_value :: "operation_key \<Rightarrow> latency_stats \<Rightarrow> api_value" where
  "operation_value key stats = VObj
     [(''service'', VStr (ok_ServiceName key)), (''operation'', VStr (ok_Operation key)),
      (''protocol'', VStr (ok_Protocol key)), (''count'', VInt (uint (ls_Count stats))),
      (''mean'', VFloat (ls_Mean stats)), (''std_dev'', VFloat (ls_StdDev stats)),
      (''ewma'', VFloat (ls_EWMA stats)), (''ewma_var'', VFloat (ls_EWMAVar stats)),
      (''threshold'', VFloat (f_add (ls_EWMA stats) (f_mul (Fin 3) (ls_StdDev stats)))),
      (''last_update'', VTime (ls_LastUpdate stats))]"

definition getAnomalyStats :: "operation_key list \<Rightarrow> api_server \<Rightarrow> reply" where
  "getAnomalyStats keys s =
     (case sr_anomalyDetector s of
        None \<Rightarrow> success ''anomaly detection disabled'' VNull
      | Some d \<Rightarrow>
          let allStats = Anomaly_GetAllStats d;
              result = List.map_filter (\<lambda>k. map_option (operation_value k) (allStats k)) keys
          in success ''success'' (VObj [(''operations'', VList result), (''total'', VInt (int (length result)))]))"

definition signature_value :: "subtree_sig \<Rightarrow> api_value" where
  "signature_value sig = VObj
     [(''hash'', VStr (ss_Hash sig)), (''operations'', VList (map VStr (ss_Operations sig))),
      (''depth'', VInt (int (ss_Depth sig))), (''count'', VInt (ss_Count sig)),
      (''structure'', VStr (ss_Structure sig))]"

definition savings_percent :: "compression_stats \<Rightarrow> f64" where
  "savings_percent stats = f_mul (f_sub (Fin 1) (f_div (Fin 1) (za_CompressionRatio stats))) (Fin 100)"

definition getCompressionStats :: "string list \<Rightarrow> api_server \<Rightarrow> reply" where
  "getCompressionStats keys s =
     (case sr_compressor s of
        None \<Rightarrow> success ''compression disabled'' VNull
      | Some c \<Rightarrow>
          let stats = Compressor_GetStats c;
              sigs = filter (\<lambda>sig. ss_Count sig > 1) (List.map_filter (GetSignatureCache c) keys)
          in success ''success'' (VObj
               [(''total_spans'', VInt (za_TotalSpans stats)),
                (''compressed_spans'', VInt (za_CompressedSpans stats)),
                (''total_original_bytes'', VInt (za_TotalOriginal stats)),
                (''total_compressed_bytes'', VInt (za_TotalCompressed stats)),
                (''compression_ratio'', VFloat (za_CompressionRatio stats)),
                (''savings_percent'', VFloat (savings_percent stats)),
                (''cache_hits'', VInt (za_CacheHits stats)),
                (''cache_misses'', VInt (za_CacheMisses stats)),
                (''duplicate_subtrees'', VInt (int (length sigs))),
                (''top_signatures'', VList (map signature_value sigs))]))"

section \<open>Flame graphs\<close>

text \<open>
  The handler reads the root span with \<open>store.GetTraceTree\<close>, a method the store does not
  have; its result is the argument \<open>tree\<close>. \<open>srt\<close> and \<open>srtf\<close> are the two sorts, \<open>levels\<close> the
  stack of the goroutine.
\<close>

definition flame_svg_config :: "string \<Rightarrow> string \<Rightarrow> svg_config" where
  "flame_svg_config width title =
     (let widthInt = parse_int_value width;
          widthInt = (if widthInt \<le> 0 then 1200 else widthInt)
      in server_svg widthInt title)"

definition flame_title :: "string \<Rightarrow> string" where
  "flame_title traceID = ''Trace '' @ traceID @ '' Flame Graph''"

definition getFlameGraph ::
  "((addr \<Rightarrow> addr \<Rightarrow> bool) \<Rightarrow> addr list \<Rightarrow> addr list) \<Rightarrow>
   ((flame_frame \<Rightarrow> flame_frame \<Rightarrow> bool) \<Rightarrow> flame_frame list \<Rightarrow> flame_frame list) \<Rightarrow> nat \<Rightarrow>
   string + addr option \<Rightarrow> heap \<Rightarrow> string \<Rightarrow> string option \<Rightarrow> string option \<Rightarrow> reply go"
where
  "getFlameGraph srt srtf levels tree h traceID formatParam widthParam =
     (let format = (case formatParam of Some f \<Rightarrow> f | None \<Rightarrow> ''svg'');
          width = (case widthParam of Some w \<Rightarrow> w | None \<Rightarrow> ''1200'')
      in if traceID = '''' then Inr (failure 400 ''traceId is required'')
         else (case tree of
             Inl err \<Rightarrow> Inr (failure 500 (''Failed to get trace: '' @ err))
           | Inr None \<Rightarrow> Inr (failure 404 ''Trace not found'')
           | Inr (Some a) \<Rightarrow>
               let title = flame_title traceID in
               go_bind (NewFlameGraph srt levels (Some a) title h) (\<lambda>(fg, h).
                 case fg of
                   None \<Rightarrow> Inr (failure 500 ''Failed to generate flame graph'')
                 | Some fg \<Rightarrow>
                     if format = ''folded'' then
                       Inr (Content 200 ''text/plain; charset=utf-8'' '''' (ToFolded fg))
                     else if format = ''stats'' then
                       Inr (success ''success'' (VObj [(''frames'', VFrameStats (GetFrameStats fg)),
                         (''hot_spots'', VFrames (GetHotSpots srtf fg 10))]))
                     else
                       go_bind (ToSVG fg (Some (flame_svg_config width title))) (\<lambda>(svg, config).
                         Inr (Content 200 ''image/svg+xml''
                           (''inline; filename=\"flamegraph-'' @ traceID @ ''.svg\"'') svg)))))"

section \<open>The server itself\<close>

text \<open>\<open>serve\<close> is the outcome of \<open>ListenAndServe\<close>: its error, unless it is \<open>ErrServerClosed\<close>.\<close>

definition Server_Start :: "string option \<Rightarrow> api_server \<Rightarrow> string option \<times> api_server" where
  "Server_Start serve s =
     (let addr = '':'' @ int_dec (sv_HTTPPort (sr_cfg s)); s = s\<lparr>sr_server := Some addr\<rparr> in
      case serve of
        Some err \<Rightarrow> (if err \<noteq> ''http: Server closed'' then (Some (''server error: '' @ err), s) else (None, s))
      | None \<Rightarrow> (None, s))"

text \<open>\<open>Shutdown\<close> on the nil server, before \<open>Start\<close> has run, panics; \<open>shut\<close> is its error.\<close>

definition Server_Stop :: "string option \<Rightarrow> api_server \<Rightarrow> string option go" where
  "Server_Stop shut s = (case sr_server s of None \<Rightarrow> Inl NilDeref | Some addr \<Rightarrow> Inr shut)"

text \<open>The headers of every reply; \<open>OPTIONS\<close> is answered with status 204 and goes no further.\<close>

definition corsMiddleware :: "string \<Rightarrow> (string \<times> string) list \<times> int option" where
  "corsMiddleware method =
     ([(''Access-Control-Allow-Origin'', ''*''),
       (''Access-Control-Allow-Methods'', ''GET, POST, PUT, DELETE, OPTIONS''),
       (''Access-Control-Allow-Headers'', ''Content-Type, Authorization'')],
      if method = ''OPTIONS'' then Some 204 else None)"

section \<open>Properties\<close>

text \<open>
  The system statistics warn of the write queue exactly when more than eight tenths of it
  are used: the test, which multiplies and divides 64-bit integers, neither overflows nor
  rounds wrongly for any queue that fits into memory.
\<close>

theorem queue_alert_exact:
  assumes "sr_store s = Some st" "length (cs_writeQueue st) \<le> cs_queueCapacity st"
    and "cs_queueCapacity st < 2 ^ 60"
  shows "queue_alert (Store_GetStats st) \<in> set (store_alerts (map_option Store_GetStats (sr_store s))) \<longleftrightarrow>
     10 * length (cs_writeQueue st) > 8 * cs_queueCapacity st"
proof -
  let ?n = "length (cs_writeQueue st)" and ?c = "cs_queueCapacity st"
  have n: "?n < 2 ^ 60" using assms(2,3) by linarith
  have c8: "unat (of_nat ?c * 8 :: u64) = ?c * 8"
    using assms(3) by (simp add: unat_word_ariths unat_of_nat)
  have "unat (of_nat ?c * 8 div 10 :: u64) = ?c * 8 div 10"
    by (simp add: unat_div c8)
  moreover have "unat (of_nat ?n :: u64) = ?n" using n by (simp add: unat_of_nat)
  ultimately have "(of_nat ?n :: u64) > of_nat ?c * 8 div 10 \<longleftrightarrow> ?n > ?c * 8 div 10"
    by (simp add: word_less_nat_alt)
  also have "\<dots> \<longleftrightarrow> 10 * ?n > 8 * ?c" by (simp add: div_less_iff_less_mult mult.commute)
  finally show ?thesis
    by (auto simp: assms(1) store_alerts_def Store_GetStats_def queue_alert_def)
qed

text \<open>
  A search is always bound to a window of time: a start or an end that the request does
  not give, or gives as a number that is not positive, is replaced by the last 24 hours; and
  unless the database fails the reply has the traces of the ids that were found, and their
  number.
\<close>

theorem search_window:
  assumes "run (query_traces (search_query now req)) = Inr (map Inr ids, None)"
  shows "tq_StartTime (search_query now req) =
       Some (if 0 < sq_StartTime req then unix_milli (sq_StartTime req) else now 0 - 24 * 3600 * second) \<and>
     tq_EndTime (search_query now req) =
       Some (if 0 < sq_EndTime req then unix_milli (sq_EndTime req) else now 1) \<and>
     (\<exists>ts. searchTraces now run fetch base h (Inr req) = Inr (success ''success'' (VObj
          [(''traces'', VTraces ts), (''total'', VInt (int (length ts))),
           (''limit'', VInt (sq_Limit req)), (''offset'', VInt (sq_Offset req))])) \<and>
        length ts = length (filter (readable fetch) (map trim_space ids)))"
proof -
  obtain h' ts where "load_traces fetch (map trim_space ids) base h = Inr (h', ts)"
      "length ts = length (filter (readable fetch) (map trim_space ids))"
    using load_traces_total by blast
  then have "searchTraces now run fetch base h (Inr req) = Inr (success ''success'' (VObj
          [(''traces'', VTraces ts), (''total'', VInt (int (length ts))),
           (''limit'', VInt (sq_Limit req)), (''offset'', VInt (sq_Offset req))]))"
    by (simp add: searchTraces_def QueryTraces_def assms scan_rows_all)
  moreover have "tq_StartTime (search_query now req) =
       Some (if 0 < sq_StartTime req then unix_milli (sq_StartTime req) else now 0 - 24 * 3600 * second)"
     "tq_EndTime (search_query now req) =
       Some (if 0 < sq_EndTime req then unix_milli (sq_EndTime req) else now 1)"
    by (simp_all add: search_query_def Let_def)
  ultimately show ?thesis
    using \<open>length ts = _\<close> by blast
qed

text \<open>
  The compression statistics can be sent exactly when the compression ratio is a number
  other than zero; before the first span was compressed it is zero, the savings are minus
  infinity, and \<open>encoding/json\<close> refuses the reply.
\<close>

theorem compression_stats_sendable:
  assumes "sr_compressor s = Some c"
  shows "\<exists>v. getCompressionStats keys s = success ''success'' v \<and>
     (encodable h v \<longleftrightarrow> (\<exists>r. za_CompressionRatio (zc_stats c) = Fin r \<and> r \<noteq> 0))"
proof -
  have str: "list_all (encodable h) (map VStr xs)" for xs by (induction xs) simp_all
  have sigs: "list_all (encodable h) (map signature_value xs)" for xs
    by (induction xs) (simp_all add: signature_value_def str)
  have ratio: "f_finite r \<and> f_finite (f_mul (f_sub (Fin 1) (f_div (Fin 1) r)) (Fin 100)) \<longleftrightarrow>
      (\<exists>x. r = Fin x \<and> x \<noteq> 0)" for r
    by (cases r) (auto simp: f_sub_def f_inf_def)
  show ?thesis
    using ratio [of "za_CompressionRatio (zc_stats c)"]
    by (simp add: getCompressionStats_def assms Let_def success_def savings_percent_def
        Compressor_GetStats_def sigs)
qed

definition status :: "reply \<Rightarrow> int" where
  "status r = (case r of JSON code _ \<Rightarrow> code | Content code _ _ _ \<Rightarrow> code)"

abbreviation span_value :: "heap \<Rightarrow> addr \<Rightarrow> int" where
  "span_value h b \<equiv> ff_Value (frame_of_span (the (h b)) [])"



theorem compression_stats_sendable_witness:
  "\<exists>v. getCompressionStats [] (NewServer \<lparr>sv_HTTPPort = 8080, sv_GRPCPort = 0\<rparr> None None None None None
       (Some (empty_compressor 10))) = success ''success'' v \<and> \<not> encodable Map.empty v"
  using compression_stats_sendable [of "NewServer \<lparr>sv_HTTPPort = 8080, sv_GRPCPort = 0\<rparr> None None None None None
       (Some (empty_compressor 10))" "empty_compressor 10" "[]"]
  by (simp add: NewServer_def empty_compressor_def)

definition find_one :: "string \<times> sql_arg list \<Rightarrow> string query_result" where
  "find_one q = Inr (map Inr [''t''], None)"

definition any_search :: search_request where
  "any_search = \<lparr>sq_ServiceName = '''', sq_StartTime = 0, sq_EndTime = 5, sq_MinLatencyMs = Fin 0,
     sq_MaxLatencyMs = Fin 0, sq_Protocol = '''', sq_TraceID = '''', sq_Limit = 20, sq_Offset = 0\<rparr>"

theorem search_window_witness:
  "tq_EndTime (search_query (\<lambda>_. 7) any_search) = Some 5000000 \<and>
   (\<exists>v. searchTraces (\<lambda>_. 7) find_one (\<lambda>_. Inl ''down'') 0 Map.empty (Inr any_search) = Inr (success ''success'' v))"
proof -
  have "find_one (query_traces (search_query (\<lambda>_. 7) any_search)) = Inr (map Inr [''t''], None)"
    by (simp add: find_one_def)
  from search_window [of find_one "\<lambda>_. 7" any_search "[''t'']" "\<lambda>_. Inl ''down''" 0 Map.empty, OF this]
  show ?thesis by (auto simp: any_search_def unix_milli_def)
qed

theorem queue_alert_exact_witness:
  "queue_alert (Store_GetStats (NewClickHouseStore demo_store_config)) \<notin>
     set (store_alerts (Some (Store_GetStats (NewClickHouseStore demo_store_config))))"
  using queue_alert_exact [of "NewServer \<lparr>sv_HTTPPort = 8080, sv_GRPCPort = 0\<rparr>
      (Some (NewClickHouseStore demo_store_config)) None None None None None" "NewClickHouseStore demo_store_config"]
  by (simp add: NewServer_def NewClickHouseStore_def demo_store_config_def)

section \<open>Flaws of the handlers\<close>

text \<open>\<open>format=stats\<close> on a root of duration zero: the percentage of the root is not a number.\<close>

lemma zero_duration_unsendable:
  assumes "fg_Root fg = Frame name svc 0 st en (Fin 0) sid []"
  shows "\<not> encodable h (VFrameStats (GetFrameStats fg))"
  by (simp add: GetFrameStats_def assms f_inf_def)

lemma server_stop_before_start: "Server_Stop shut (NewServer cfg st smp tr corr anom cpr) = Inl NilDeref"
  by (simp add: Server_Stop_def NewServer_def)

section \<open>The API as a whole\<close>

text \<open>
  What a request meets: the clock, the answers of the database to the queries that the handlers
  make, the traces as trees, the orders of the maps; and the parameters of the request.
\<close>

record api_env =
  av_now :: "nat \<Rightarrow> gtime"
  av_trace :: "string \<Rightarrow> span_row query_result"
  av_ids :: "string \<times> sql_arg list \<Rightarrow> string query_result"
  av_services :: "string query_result"
  av_stats :: "string \<Rightarrow> gtime \<Rightarrow> gtime \<Rightarrow> operation_stats query_result"
  av_edges :: "gtime \<Rightarrow> gtime \<Rightarrow> service_edge query_result"
  av_tree :: "string \<Rightarrow> string + addr option"
  av_sort :: "(addr \<Rightarrow> addr \<Rightarrow> bool) \<Rightarrow> addr list \<Rightarrow> addr list"
  av_sort_frames :: "(flame_frame \<Rightarrow> flame_frame \<Rightarrow> bool) \<Rightarrow> flame_frame list \<Rightarrow> flame_frame list"
  av_levels :: nat
  av_base :: addr
  av_heap :: heap
  av_operations :: "operation_key list"
  av_signatures :: "string list"
  av_metrics :: "reply go"

record api_params =
  rq_bound :: "string + search_request"
  rq_startTime :: "string option"
  rq_endTime :: "string option"
  rq_format :: "string option"
  rq_width :: "string option"

definition serve :: "api_env \<Rightarrow> api_params \<Rightarrow> api_server \<Rightarrow> endpoint \<Rightarrow> reply go" where
  "serve v p s e =
     (case e of
        EGetTrace i \<Rightarrow> getTrace (av_trace v i) (av_base v) (av_heap v) i
      | EFlameGraph i \<Rightarrow> getFlameGraph (av_sort v) (av_sort_frames v) (av_levels v) (av_tree v i)
          (av_heap v) i (rq_format p) (rq_width p)
      | ESearchTraces \<Rightarrow> searchTraces (av_now v) (av_ids v) (av_trace v) (av_base v) (av_heap v) (rq_bound p)
      | EServices \<Rightarrow> Inr (getServices (av_services v))
      | EServiceStats n \<Rightarrow> Inr (getServiceStats (av_now v) (av_stats v) n (rq_startTime p) (rq_endTime p))
      | EServiceMap \<Rightarrow> Inr (getServiceMap (av_now v) (av_edges v) (rq_startTime p) (rq_endTime p))
      | ESamplingStats \<Rightarrow> getSamplingStats s
      | EAnomalyStats \<Rightarrow> Inr (getAnomalyStats (av_operations v) s)
      | ECompressionStats \<Rightarrow> Inr (getCompressionStats (av_signatures v) s)
      | EHealth \<Rightarrow> Inr (healthCheck (av_now v 0) (av_services v))
      | ESystemStats \<Rightarrow> Inr (getSystemStats (av_now v 0) s)
      | EMetrics \<Rightarrow> av_metrics v
      | ENotFound \<Rightarrow> Inr not_found_reply)"

text \<open>
  The contract of a reply: the code in the body is the status of the reply, an error has no
  data, and content other than JSON is only sent with status 200.
\<close>

definition reply_ok :: "reply \<Rightarrow> bool" where
  "reply_ok r =
     (case r of
        JSON st resp \<Rightarrow> st = ar_Code resp \<and> st \<in> {200, 400, 404, 500, 503} \<and>
          (st \<noteq> 200 \<longrightarrow> ar_Data resp = VNull)
      | Content st _ _ _ \<Rightarrow> st = 200)"

lemma reply_ok_simps [simp]:
  "reply_ok (success msg d)" "reply_ok (failure code msg) \<longleftrightarrow> code \<in> {200, 400, 404, 500, 503}"
  "reply_ok (Content 200 ct disp body)"
  by (auto simp: reply_ok_def success_def failure_def)

lemma reply_ok_with:
  "code \<in> {400, 404, 500, 503} \<Longrightarrow> (\<And>x. reply_ok (ok x)) \<Longrightarrow> reply_ok (reply_with code what r ok)"
  by (auto simp: reply_with_def split: prod.split option.split)

lemma reply_ok_getTrace: "getTrace res base h i = Inr r \<Longrightarrow> reply_ok r"
  by (cases "GetTraceByID res base h i") (auto simp: getTrace_def split: if_splits sum.splits option.splits)

lemma reply_ok_searchTraces: "searchTraces now run fetch base h bound = Inr r \<Longrightarrow> reply_ok r"
  by (cases bound; cases "QueryTraces run fetch (search_query now (projr bound)) base h")
     (auto simp: searchTraces_def split: sum.splits)

lemma reply_ok_getFlameGraph: "getFlameGraph srt srtf levels tree h i f w = Inr r \<Longrightarrow> reply_ok r"
  by (auto simp: getFlameGraph_def go_bind_eq_Inr Let_def split: if_splits sum.splits prod.splits option.splits)


definition empty_env :: api_env where
  "empty_env = \<lparr>av_now = (\<lambda>_. 0), av_trace = (\<lambda>_. Inl ''down''), av_ids = find_one,
     av_services = Inl ''down'', av_stats = (\<lambda>_ _ _. Inl ''down''), av_edges = (\<lambda>_ _. Inl ''down''),
     av_tree = (\<lambda>_. Inr None), av_sort = insertion_sort, av_sort_frames = insertion_sort, av_levels = 0,
     av_base = 0, av_heap = Map.empty, av_operations = [], av_signatures = [],
     av_metrics = Inr not_found_reply\<rparr>"


end
