(* ===== verification/Correlator_Flows.thy ===== *)
theory Correlator_Flows
  imports Correlator
begin

text \<open>
  What the correlator promises: the gauges and how they drift from what they count, the
  in-flight queues, the match of responses to requests, the clean-up, and the states that a
  sequence of events can reach.
\<close>

section \<open>The gauges\<close>

text \<open>
  \<open>waiting\<close> is the number of unanswered requests in the table, as a counter sees it. The
  drifts are by how much the two gauges differ from what they are meant to count.
\<close>

definition queue_len :: "correlator \<Rightarrow> string \<Rightarrow> u64" where
  "queue_len c key =
     (case co_connections c key of None \<Rightarrow> 0 | Some flow \<Rightarrow> of_nat (length (cf_inflightReqs flow)))"

definition waiting :: "correlator \<Rightarrow> u64" where
  "waiting c = (\<Sum>key\<in>dom (co_connections c). queue_len c key)"

definition active_drift :: "correlator \<Rightarrow> u64" where
  "active_drift c = cs_ActiveConnections (co_stats c) - of_nat (card (dom (co_connections c)))"

definition inflight_drift :: "correlator \<Rightarrow> u64" where
  "inflight_drift c =
     cs_InflightRequests (co_stats c) - waiting c - cs_DroppedEvents (co_stats c)"

text \<open>The numbers the gauges are made of.\<close>

definition gauges :: "correlator \<Rightarrow> u64 \<times> u64 \<times> u64" where
  "gauges c = (cs_ActiveConnections (co_stats c), cs_InflightRequests (co_stats c),
     cs_DroppedEvents (co_stats c))"

lemma waiting_split:
  assumes "finite (dom (co_connections c))"
  shows "waiting c = queue_len c key + (\<Sum>k\<in>dom (co_connections c) - {key}. queue_len c k)"
proof (cases "key \<in> dom (co_connections c)")
  case True
  with assms show ?thesis by (simp add: waiting_def sum.remove)
next
  case False
  then have "queue_len c key = 0" by (simp add: queue_len_def domIff)
  with False show ?thesis by (simp add: waiting_def)
qed

lemma waiting_put:
  assumes "finite (dom (co_connections c))"
  shows "waiting (put_flow key flow c) =
     waiting c - queue_len c key + of_nat (length (cf_inflightReqs flow))"
proof -
  let ?D = "dom (co_connections c)" and ?c = "put_flow key flow c"
  have same: "(\<Sum>k\<in>?D - {key}. queue_len ?c k) = (\<Sum>k\<in>?D - {key}. queue_len c k)"
    by (rule sum.cong) (auto simp: queue_len_def)
  have "waiting ?c = queue_len ?c key + (\<Sum>k\<in>?D - {key}. queue_len ?c k)"
    using assms by (simp add: waiting_def sum.insert_remove)
  with waiting_split [OF assms, of key] same show ?thesis by (simp add: queue_len_def)
qed

lemma waiting_delete:
  assumes "finite (dom (co_connections c))"
  shows "waiting (c\<lparr>co_connections := (co_connections c)(key := None)\<rparr>) = waiting c - queue_len c key"
proof -
  let ?D = "dom (co_connections c)" and ?c = "c\<lparr>co_connections := (co_connections c)(key := None)\<rparr>"
  have same: "(\<Sum>k\<in>?D - {key}. queue_len ?c k) = (\<Sum>k\<in>?D - {key}. queue_len c k)"
    by (rule sum.cong) (auto simp: queue_len_def)
  have "waiting ?c = (\<Sum>k\<in>?D - {key}. queue_len ?c k)" by (simp add: waiting_def)
  with waiting_split [OF assms, of key] show ?thesis by (simp add: same)
qed

lemma waiting_cong: "co_connections c' = co_connections c \<Longrightarrow> waiting c' = waiting c"
  by (simp add: waiting_def queue_len_def)

lemma queue_len_cong: "co_connections c' = co_connections c \<Longrightarrow> queue_len c' key = queue_len c key"
  by (simp add: queue_len_def)

lemma gauges_neutral [simp]:
  "gauges (upd_span a f c) = gauges c" "gauges (put_flow key flow c) = gauges c"
  "gauges (call_handler a c) = gauges c" "gauges (add_processed n c) = gauges c"
  "gauges (report a c) = gauges c" "gauges (report_pair a b c) = gauges c"
  "gauges (assign_ids r a c) = gauges c" "gauges (link_response now r a req c) = gauges c"
  "gauges (close_request req c) = gauges c" "gauges (timeout_request req c) = gauges c"
  "gauges (c\<lparr>co_connections := m\<rparr>) = gauges c" "gauges (c\<lparr>co_pendingRequests := ps\<rparr>) = gauges c"
  "gauges (removeFromPending a c) = gauges c" "gauges (expire_span rnd a c) = gauges c"
  "gauges (alloc_span s c) = gauges c" "gauges (add_total n c) = gauges c"
  by (simp_all add: gauges_def effect_defs report_def report_pair_def assign_ids_def
      link_response_def close_request_def timeout_request_def removeFromPending_def
      expire_span_def Let_def)

lemma gauges_fold: "(\<And>x c. gauges (f x c) = gauges c) \<Longrightarrow> gauges (fold f xs c) = gauges c"
  by (induction xs arbitrary: c) simp_all

lemma gauges_add:
  "gauges c = (x, y, z) \<Longrightarrow> gauges (add_active n c) = (x + n, y, z)"
  "gauges c = (x, y, z) \<Longrightarrow> gauges (add_inflight n c) = (x, y + n, z)"
  "gauges c = (x, y, z) \<Longrightarrow> gauges (add_dropped n c) = (x, y, z + n)"
  by (simp_all add: gauges_def add_active_def add_inflight_def add_dropped_def)

text \<open>\<open>steady c c'\<close>: neither gauge has drifted between \<open>c\<close> and \<open>c'\<close>.\<close>

definition steady :: "correlator \<Rightarrow> correlator \<Rightarrow> bool" where
  "steady c c' \<longleftrightarrow> finite (dom (co_connections c')) \<and>
     active_drift c' = active_drift c \<and> inflight_drift c' = inflight_drift c"

lemma steady_trans: "steady a b \<Longrightarrow> steady b c \<Longrightarrow> steady a c"
  by (simp add: steady_def)

lemma drift_gauges:
  "gauges c = (x, y, z) \<Longrightarrow> active_drift c = x - of_nat (card (dom (co_connections c)))"
  "gauges c = (x, y, z) \<Longrightarrow> inflight_drift c = y - waiting c - z"
  by (simp_all add: gauges_def active_drift_def inflight_drift_def)

lemma steady_neutral:
  assumes "finite (dom (co_connections c))" "co_connections c' = co_connections c" "gauges c' = gauges c"
  shows "steady c c'"
  using assms
  by (simp add: steady_def active_drift_def inflight_drift_def gauges_def waiting_cong [OF assms(2)])

lemma steady_getOrCreateFlow:
  assumes "finite (dom (co_connections c))" "getOrCreateFlow a key c = (flow, c')"
  shows "steady c c'" "co_connections c' key = Some flow"
proof -
  obtain x y z where g: "gauges c = (x, y, z)" by (metis prod_cases3)
  have "steady c c' \<and> co_connections c' key = Some flow"
  proof (cases "co_connections c key")
    case (Some f)
    with assms have "c' = c" "f = flow" by (simp_all add: getOrCreateFlow_def)
    with assms Some show ?thesis by (simp add: steady_def)
  next
    case None
    let ?p = "put_flow key (new_flow (span_at c a)) c"
    from None assms(2) have c': "c' = add_active 1 ?p" "flow = new_flow (span_at c a)"
      by (auto simp: getOrCreateFlow_def Let_def)
    have g': "gauges c' = (x + 1, y, z)" using g by (simp add: c' gauges_add)
    have "waiting c' = waiting c"
      using None waiting_put [OF assms(1), of key "new_flow (span_at c a)"] waiting_cong [of c' ?p]
      by (simp add: c' queue_len_def new_flow_def)
    moreover have "card (dom (co_connections c')) = Suc (card (dom (co_connections c)))"
      using None assms(1) by (simp add: c' domIff)
    moreover have "finite (dom (co_connections c'))" "co_connections c' key = Some flow"
      using assms(1) by (simp_all add: c')
    ultimately show ?thesis
      by (simp add: steady_def drift_gauges [OF g] drift_gauges [OF g'])
  qed
  then show "steady c c'" "co_connections c' key = Some flow" by simp_all
qed

text \<open>
  Writing back a flow of the table: the gauges have to move by what the queue has gained and
  by what has been dropped from it.
\<close>

lemma steady_put_flow:
  assumes "finite (dom (co_connections c))" "co_connections c key = Some flow"
    and "co_connections c' = (co_connections c)(key \<mapsto> flow')"
    and "gauges c = (x, y, z)" "gauges c' = (x, y', z')"
    and "y' - z' + of_nat (length (cf_inflightReqs flow)) = y - z + of_nat (length (cf_inflightReqs flow'))"
  shows "steady c c'"
proof -
  have "waiting c' = waiting (put_flow key flow' c)"
    by (rule waiting_cong) (simp add: assms(3))
  then have "waiting c' = waiting c - of_nat (length (cf_inflightReqs flow)) + of_nat (length (cf_inflightReqs flow'))"
    by (simp add: waiting_put [OF assms(1)] queue_len_def assms(2))
  moreover have "y' = (y - z + of_nat (length (cf_inflightReqs flow'))) -
      of_nat (length (cf_inflightReqs flow)) + z'"
    by (simp flip: assms(6))
  ultimately have "y' - waiting c' - z' = y - waiting c - z" by simp
  moreover have "dom (co_connections c') = dom (co_connections c)"
    using assms(2,3) by auto
  ultimately show ?thesis
    using assms(1)
    by (simp add: steady_def drift_gauges [OF assms(4)] drift_gauges [OF assms(5)])
qed

lemma steady_delete:
  assumes "finite (dom (co_connections c))" "co_connections c key = Some flow"
    and "co_connections c' = (co_connections c)(key := None)"
    and "gauges c = (x, y, z)" "gauges c' = (x - 1, y - of_nat (length (cf_inflightReqs flow)), z)"
  shows "steady c c'"
proof -
  let ?D = "dom (co_connections c)"
  have "waiting c' = waiting (c\<lparr>co_connections := (co_connections c)(key := None)\<rparr>)"
    by (rule waiting_cong) (simp add: assms(3))
  then have "waiting c' = waiting c - of_nat (length (cf_inflightReqs flow))"
    by (simp add: waiting_delete [OF assms(1)] queue_len_def assms(2))
  moreover have "of_nat (card ?D) = (1 + of_nat (card (?D - {key})) :: u64)"
    using assms(1,2) card.remove [of ?D key] by (simp add: domI)
  ultimately show ?thesis
    using assms(1,3)
    by (simp add: steady_def drift_gauges [OF assms(4)] drift_gauges [OF assms(5)])
qed

lemma steady_write_back:
  assumes "finite (dom (co_connections c))" "co_connections c key = Some flow"
    and "length (cf_inflightReqs flow') = length (cf_inflightReqs flow)"
  shows "steady c (put_flow key flow' c)"
proof -
  obtain x y z where g: "gauges c = (x, y, z)" by (metis prod_cases3)
  from steady_put_flow [OF assms(1,2) _ g, of "put_flow key flow' c" flow' y z] g assms(3) show ?thesis
    by simp
qed

lemma minus_one_neg: "(x :: u64) + NOT 0 = x - 1" "x + NOT (n - 1) = x - n"
  by (simp_all add: minus_eq_not_minus_1 [symmetric] flip: diff_conv_add_uminus)

lemma gauges_drop_oldest:
  assumes "drop_oldest flow c = (flow', c')" "0 < co_maxInflight c" "gauges c = (x, y, z)"
  obtains d where "gauges c' = (x, y, z + of_nat d)" "co_connections c' = co_connections c"
    "length (cf_inflightReqs flow) = length (cf_inflightReqs flow') + d"
proof (cases "co_maxInflight c \<le> int (length (cf_inflightReqs flow))")
  case True
  then obtain req rest where "cf_inflightReqs flow = req # rest"
    using assms(2) by (cases "cf_inflightReqs flow") auto
  with True assms that [of 1] show thesis by (auto simp: drop_oldest_def gauges_add)
next
  case False
  with assms that [of 0] show thesis by (auto simp: drop_oldest_def)
qed

lemma steady_handleSend:
  assumes "finite (dom (co_connections c))" "0 < co_maxInflight c"
  shows "steady c (handleSend clock rnd a event key info c)"
proof -
  obtain flow c1 where g: "getOrCreateFlow a key c = (flow, c1)" by force
  note s1 = steady_getOrCreateFlow [OF assms(1) g]
  have e1: "extends c c1" using extends_getOrCreateFlow [of c a key] g by simp
  let ?flow = "flow\<lparr>cf_LastSend := clock 0\<rparr>"
  let ?c2 = "put_flow key ?flow c1"
  have f1: "finite (dom (co_connections c1))" using s1(1) by (simp add: steady_def)
  from steady_write_back [OF f1 s1(2), of ?flow] have s2: "steady c ?c2"
    using steady_trans [OF s1(1)] by simp
  show ?thesis
  proof (cases "isRequestPayload event")
    case False
    with s2 show ?thesis by (simp add: handleSend_def g Let_def)
  next
    case True
    let ?c3 = "assign_ids (rnd 2) a ?c2"
    obtain flow4 c4 where d: "drop_oldest ?flow ?c3 = (flow4, c4)" by force
    obtain x y z where g3: "gauges ?c2 = (x, y, z)" by (metis prod_cases3)
    have "extends c ?c3" by (intro extends_step e1)
    from extends_settings(1) [OF this] assms(2) have "0 < co_maxInflight ?c3" by simp
    from gauges_drop_oldest [OF d this, of x y z] g3 obtain n where
      n: "gauges c4 = (x, y, z + of_nat n)" "co_connections c4 = co_connections ?c2"
        "length (cf_inflightReqs flow) = length (cf_inflightReqs flow4) + n" by auto
    let ?flow5 = "flow4\<lparr>cf_seqCounter := cf_seqCounter flow4 + 1,
       cf_inflightReqs := cf_inflightReqs flow4 @
         [\<lparr>iq_span = a, iq_event = event, iq_protoInfo = info, iq_sendTime = clock 1,
           iq_seq = cf_seqCounter flow4 + 1\<rparr>]\<rparr>"
    have f: "finite (dom (co_connections ?c2))" using f1 by simp
    have "steady ?c2 (handleSend clock rnd a event key info c)"
      by (rule steady_put_flow [OF f, of key ?flow _ ?flow5 x y z "y + 1" "z + of_nat n"])
         (use True n g3 in \<open>simp_all add: handleSend_def g d Let_def gauges_add\<close>)
    with s2 show ?thesis by (rule steady_trans)
  qed
qed

lemma gauges_pair:
  obtains x y z where "gauges c = (x, y, z)"
  by (metis prod_cases3)

lemma steady_handleRecv:
  assumes "finite (dom (co_connections c))"
  shows "steady c (handleRecv clock rnd a event key c)"
proof -
  obtain flow c1 where g: "getOrCreateFlow a key c = (flow, c1)" by force
  note s1 = steady_getOrCreateFlow [OF assms(1) g]
  let ?flow = "flow\<lparr>cf_LastRecv := clock 0\<rparr>"
  let ?c2 = "put_flow key ?flow c1"
  have f1: "finite (dom (co_connections c1))" using s1(1) by (simp add: steady_def)
  from steady_write_back [OF f1 s1(2), of ?flow] have s2: "steady c ?c2"
    using steady_trans [OF s1(1)] by simp
  have f: "finite (dom (co_connections ?c2))" using f1 by simp
  have "steady ?c2 (handleRecv clock rnd a event key c)"
  proof (cases "isResponsePayload event \<and> cf_inflightReqs flow \<noteq> []")
    case True
    then obtain req rest where q: "cf_inflightReqs flow = req # rest" by (cases "cf_inflightReqs flow") auto
    obtain x y z where g2: "gauges ?c2 = (x, y, z)" by (rule gauges_pair)
    then have "gauges c1 = (x, y, z)" by simp
    then show ?thesis
      by (intro steady_put_flow [OF f, of key ?flow _ "?flow\<lparr>cf_inflightReqs := rest\<rparr>" x y z "y - 1" z])
         (use True q in \<open>simp_all add: handleRecv_def g Let_def gauges_add minus_one_neg\<close>)
  next
    case False
    then show ?thesis
      by (intro steady_neutral [OF f]) (auto simp: handleRecv_def g Let_def split: list.split)
  qed
  with s2 show ?thesis by (rule steady_trans)
qed

lemma steady_tryCorrelate:
  assumes "finite (dom (co_connections c))"
  shows "steady c (tryCorrelate now r a event key c)"
proof -
  obtain flow c1 where g: "getOrCreateFlow a key c = (flow, c1)" by force
  note s1 = steady_getOrCreateFlow [OF assms(1) g]
  have f: "finite (dom (co_connections c1))" using s1(1) by (simp add: steady_def)
  have "steady c1 (tryCorrelate now r a event key c)"
  proof (cases "ev_EventType event = EventTypeRecvFrom \<and> cf_inflightReqs flow \<noteq> []")
    case True
    then obtain req rest where q: "cf_inflightReqs flow = req # rest" by (cases "cf_inflightReqs flow") auto
    obtain x y z where g2: "gauges c1 = (x, y, z)" by (rule gauges_pair)
    show ?thesis
      by (rule steady_put_flow [OF f s1(2), of _ "flow\<lparr>cf_inflightReqs := rest\<rparr>" x y z "y - 1" z])
         (use True q g2 in \<open>simp_all add: tryCorrelate_def removeFromPending_def g Let_def gauges_add minus_one_neg\<close>)
  next
    case False
    then show ?thesis
      by (intro steady_neutral [OF f]) (auto simp: tryCorrelate_def g split: list.split)
  qed
  with s1(1) show ?thesis by (rule steady_trans)
qed

lemma steady_handleClose:
  assumes "finite (dom (co_connections c))"
  shows "steady c (handleClose key c)"
proof (cases "co_connections c key")
  case None
  with assms show ?thesis by (simp add: handleClose_def steady_def)
next
  case (Some flow)
  obtain x y z where g: "gauges c = (x, y, z)" by (rule gauges_pair)
  then have "gauges (fold close_request (cf_inflightReqs flow) c) = (x, y, z)"
    by (simp add: gauges_fold)
  then show ?thesis
    by (intro steady_delete [OF assms Some _ g])
       (simp_all add: handleClose_def Some Let_def fold_tables gauges_add minus_one_neg)
qed

lemma steady_finish_event:
  assumes "finite (dom (co_connections c))"
  shows "steady c (finish_event clock rnd a event key c)"
proof -
  let ?c1 = "c\<lparr>co_pendingRequests := co_pendingRequests c @
      [\<lparr>pr_Span = a, pr_RawEvent = event, pr_ProtocolInfo = None, pr_Timestamp = clock 2\<rparr>]\<rparr>"
  have "steady c ?c1" by (rule steady_neutral [OF assms]) simp_all
  moreover have "steady ?c1 (tryCorrelate (clock 3) (rnd 3) a event key ?c1)"
    by (rule steady_tryCorrelate) (simp add: assms)
  moreover have "steady c c" "steady c (add_processed 1 (call_handler a c))"
    by (rule steady_neutral [OF assms]; simp)+
  ultimately show ?thesis by (auto simp: finish_event_def intro: steady_trans)
qed

lemma steady_expire_flow:
  assumes "finite (dom (co_connections c))"
  shows "steady c (expire_flow now key c)"
proof (cases "\<exists>flow. co_connections c key = Some flow \<and> flow_expired now (co_timeout c) flow")
  case False
  with assms show ?thesis by (auto simp: expire_flow_def steady_def split: option.split)
next
  case True
  then obtain flow where f: "co_connections c key = Some flow" "flow_expired now (co_timeout c) flow" by auto
  obtain x y z where g: "gauges c = (x, y, z)" by (rule gauges_pair)
  then have "gauges (fold timeout_request (cf_inflightReqs flow) c) = (x, y, z)"
    by (simp add: gauges_fold)
  then show ?thesis
    by (intro steady_delete [OF assms f(1) _ g])
       (simp_all add: expire_flow_def f Let_def fold_tables timeout_request_frame gauges_add minus_one_neg)
qed

lemma steady_expire_flows:
  "finite (dom (co_connections c)) \<Longrightarrow> steady c (fold (expire_flow now) keys c)"
proof (induction keys arbitrary: c)
  case (Cons k ks)
  from steady_expire_flow [OF Cons.prems] have s: "steady c (expire_flow now k c)" .
  then have "finite (dom (co_connections (expire_flow now k c)))" by (simp add: steady_def)
  from steady_trans [OF s Cons.IH [OF this]] show ?case by simp
qed (simp add: steady_def)

section \<open>Requests and responses\<close>

lemma getOrCreateFlow_known [simp]:
  "co_connections c key = Some flow \<Longrightarrow> getOrCreateFlow a key c = (flow, c)"
  by (simp add: getOrCreateFlow_def)

lemma getOrCreateFlow_frame:
  assumes "getOrCreateFlow a key c = (flow, c')"
  shows "co_heap c' = co_heap c" "co_log c' = co_log c" "co_spanHandler c' = co_spanHandler c"
    "co_next c' = co_next c" "co_maxInflight c' = co_maxInflight c"
    "co_pendingRequests c' = co_pendingRequests c"
    "cs_ProcessedSpans (co_stats c') = cs_ProcessedSpans (co_stats c)"
  using assms by (auto simp: getOrCreateFlow_def Let_def effect_defs split: option.splits)

lemma getOrCreateFlow_flow:
  "getOrCreateFlow a key c = (flow, c') \<Longrightarrow>
   flow = (case co_connections c key of Some f \<Rightarrow> f | None \<Rightarrow> new_flow (span_at c a))"
  by (auto simp: getOrCreateFlow_def Let_def split: option.splits)

text \<open>The queue of the flow with a key; a missing flow has an empty one.\<close>

definition inflight_of :: "correlator \<Rightarrow> string \<Rightarrow> inflight_request list" where
  "inflight_of c key =
     (case co_connections c key of None \<Rightarrow> [] | Some flow \<Rightarrow> cf_inflightReqs flow)"

lemma getOrCreateFlow_inflight:
  "getOrCreateFlow a key c = (flow, c') \<Longrightarrow> cf_inflightReqs flow = inflight_of c key"
  by (auto simp: inflight_of_def new_flow_def dest!: getOrCreateFlow_flow split: option.split)

text \<open>What the match of a response leaves in the heap.\<close>

definition elapsed_ms :: "gtime \<Rightarrow> inflight_request \<Rightarrow> f64" where
  "elapsed_ms now req = f_div (f_of_int (time_sub now (iq_sendTime req))) (Fin (10 ^ 6))"

definition answered :: "gtime \<Rightarrow> inflight_request \<Rightarrow> span \<Rightarrow> span" where
  "answered now req r =
     SetTag (r\<lparr>sp_DurationMs := elapsed_ms now req\<rparr>) ''response_seq'' (TagU64 (iq_seq req))"

definition answer :: "gtime \<Rightarrow> string \<Rightarrow> inflight_request \<Rightarrow> span \<Rightarrow> span \<Rightarrow> span" where
  "answer now rnd req r s =
     SetTag (s\<lparr>sp_ParentSpanID := sp_SpanID r, sp_TraceID := sp_TraceID r,
               sp_SpanID := GenerateSpanID rnd, sp_DurationMs := elapsed_ms now req\<rparr>)
       ''request_seq'' (TagU64 (iq_seq req))"

lemma handleRecv_match:
  assumes "co_heap c a = Some s" "co_heap c (iq_span req) = Some r" "iq_span req \<noteq> a"
    and "isResponsePayload event" "inflight_of c key = req # rest" "co_spanHandler c"
  shows "inflight_of (handleRecv clock rnd a event key c) key = rest"
    "co_log (handleRecv clock rnd a event key c) =
       co_log c @ [(iq_span req, answered (clock 1) req r), (a, answer (clock 1) (rnd 2) req r s)]"
    "co_heap (handleRecv clock rnd a event key c) =
       (co_heap c)(iq_span req \<mapsto> answered (clock 1) req r,
                   a \<mapsto> SetTag (answer (clock 1) (rnd 2) req r s) ''matched'' (TagBool True))"
    "cs_ProcessedSpans (co_stats (handleRecv clock rnd a event key c)) =
       cs_ProcessedSpans (co_stats c) + 2"
    "co_spanHandler (handleRecv clock rnd a event key c)"
proof -
  obtain flow c1 where g: "getOrCreateFlow a key c = (flow, c1)" by force
  note fr = getOrCreateFlow_frame [OF g] and q = getOrCreateFlow_inflight [OF g]
  let ?flow = "flow\<lparr>cf_LastRecv := clock 0\<rparr>"
  let ?c3 = "put_flow key (?flow\<lparr>cf_inflightReqs := rest\<rparr>) (put_flow key ?flow c1)"
  have run: "handleRecv clock rnd a event key c =
      upd_span a (\<lambda>s. SetTag s ''matched'' (TagBool True))
        (report_pair (iq_span req) a (add_inflight (NOT 0)
          (upd_span (iq_span req) (\<lambda>s. SetTag s ''response_seq'' (TagU64 (iq_seq req)))
            (upd_span a (\<lambda>s. SetTag s ''request_seq'' (TagU64 (iq_seq req)))
              (link_response (clock 1) (rnd 2) a req ?c3)))))"
    using assms(4,5) q by (simp add: handleRecv_def g Let_def)
  show "inflight_of (handleRecv clock rnd a event key c) key = rest"
    unfolding run by (simp add: inflight_of_def)
  note defs = effect_defs report_pair_def link_response_def Let_def span_at_def answered_def
    answer_def elapsed_ms_def
  show "co_log (handleRecv clock rnd a event key c) =
      co_log c @ [(iq_span req, answered (clock 1) req r), (a, answer (clock 1) (rnd 2) req r s)]"
    "co_heap (handleRecv clock rnd a event key c) =
       (co_heap c)(iq_span req \<mapsto> answered (clock 1) req r,
                   a \<mapsto> SetTag (answer (clock 1) (rnd 2) req r s) ''matched'' (TagBool True))"
    "cs_ProcessedSpans (co_stats (handleRecv clock rnd a event key c)) =
       cs_ProcessedSpans (co_stats c) + 2"
    "co_spanHandler (handleRecv clock rnd a event key c)"
    unfolding run using assms(1-3,6) by (simp_all add: defs fr fun_eq_iff)
qed

definition with_ids :: "string \<Rightarrow> span \<Rightarrow> span" where
  "with_ids rnd s =
     (if sp_TraceID s = '''' then
        s\<lparr>sp_TraceID := generateDeterministicTraceID s, sp_SpanID := GenerateSpanID rnd\<rparr>
      else s)"

lemma with_ids_nonempty [simp]: "sp_TraceID (with_ids rnd s) \<noteq> ''''"
  by (simp add: with_ids_def)

lemma handleSend_request:
  assumes "co_heap c a = Some s" "isRequestPayload event" "0 < co_maxInflight c"
  obtains req where
    "iq_span req = a" "iq_sendTime req = clock 1" "iq_event req = event"
    "inflight_of (handleSend clock rnd a event key info c) key =
       (if co_maxInflight c \<le> int (length (inflight_of c key)) then tl (inflight_of c key)
        else inflight_of c key) @ [req]"
    "co_heap (handleSend clock rnd a event key info c) =
       (co_heap c)(a \<mapsto> SetTag (with_ids (rnd 2) s) ''request_seq'' (TagU64 (iq_seq req)))"
    "int (length (inflight_of c key)) < co_maxInflight c \<Longrightarrow>
       co_log (handleSend clock rnd a event key info c) = co_log c \<and>
       cs_ProcessedSpans (co_stats (handleSend clock rnd a event key info c)) =
         cs_ProcessedSpans (co_stats c)"
    "co_spanHandler (handleSend clock rnd a event key info c) = co_spanHandler c"
    "co_maxInflight (handleSend clock rnd a event key info c) = co_maxInflight c"
proof -
  obtain flow c1 where g: "getOrCreateFlow a key c = (flow, c1)" by force
  note fr = getOrCreateFlow_frame [OF g] and q = getOrCreateFlow_inflight [OF g]
  let ?flow = "flow\<lparr>cf_LastSend := clock 0\<rparr>"
  let ?c3 = "assign_ids (rnd 2) a (put_flow key ?flow c1)"
  obtain flow4 c4 where d: "drop_oldest ?flow ?c3 = (flow4, c4)" by force
  let ?req = "\<lparr>iq_span = a, iq_event = event, iq_protoInfo = info, iq_sendTime = clock 1,
               iq_seq = cf_seqCounter flow4 + 1\<rparr>"
  have run: "handleSend clock rnd a event key info c =
      upd_span a (\<lambda>s. SetTag s ''request_seq'' (TagU64 (iq_seq ?req)))
        (add_inflight 1 (put_flow key
          (flow4\<lparr>cf_seqCounter := cf_seqCounter flow4 + 1,
                 cf_inflightReqs := cf_inflightReqs flow4 @ [?req]\<rparr>) c4))"
    using assms(2) by (simp add: handleSend_def g d Let_def)
  have "co_maxInflight ?c3 = co_maxInflight c"
    by (simp add: assign_ids_def effect_defs fr)
  with d q assms(3) have q4: "cf_inflightReqs flow4 =
      (if co_maxInflight c \<le> int (length (inflight_of c key)) then tl (inflight_of c key)
       else inflight_of c key)"
    by (auto simp: drop_oldest_def split: if_splits list.splits)
  have h3: "co_heap ?c3 = (co_heap c)(a \<mapsto> with_ids (rnd 2) s)"
    using assms(1) by (auto simp: assign_ids_def with_ids_def effect_defs fr span_at_def fun_eq_iff)
  have o3: "co_log ?c3 = co_log c" "co_spanHandler ?c3 = co_spanHandler c"
    "cs_ProcessedSpans (co_stats ?c3) = cs_ProcessedSpans (co_stats c)"
    "co_maxInflight ?c3 = co_maxInflight c"
    by (simp_all add: assign_ids_def effect_defs fr)
  have h4: "co_heap c4 = co_heap ?c3" "co_spanHandler c4 = co_spanHandler ?c3"
    "co_maxInflight c4 = co_maxInflight ?c3"
    using d by (auto simp: drop_oldest_def report_def effect_defs split: if_splits list.splits)
  have l4: "c4 = ?c3" if "int (length (inflight_of c key)) < co_maxInflight c"
    using d that q o3(4) by (auto simp: drop_oldest_def)
  show thesis
  proof (rule that [of ?req])
    show "inflight_of (handleSend clock rnd a event key info c) key =
       (if co_maxInflight c \<le> int (length (inflight_of c key)) then tl (inflight_of c key)
        else inflight_of c key) @ [?req]"
      unfolding run using q4 by (simp add: inflight_of_def)
    show "co_heap (handleSend clock rnd a event key info c) =
       (co_heap c)(a \<mapsto> SetTag (with_ids (rnd 2) s) ''request_seq'' (TagU64 (iq_seq ?req)))"
      unfolding run using h3 h4(1) by (simp add: upd_span_def add_inflight_def put_flow_def)
    show "co_log (handleSend clock rnd a event key info c) = co_log c \<and>
       cs_ProcessedSpans (co_stats (handleSend clock rnd a event key info c)) =
         cs_ProcessedSpans (co_stats c)"
      if "int (length (inflight_of c key)) < co_maxInflight c"
      unfolding run using l4 [OF that] o3 by (simp add: upd_span_def add_inflight_def put_flow_def)
    show "co_spanHandler (handleSend clock rnd a event key info c) = co_spanHandler c"
      "co_maxInflight (handleSend clock rnd a event key info c) = co_maxInflight c"
      unfolding run using h4(2,3) o3 by (simp_all add: upd_span_def add_inflight_def put_flow_def)
  qed simp_all
qed

text \<open>
  The in-flight queue as a sliding queue: the entries are the addresses of the spans, and
  the queue of one connection is fed by the requests sent on it.
\<close>

definition send_request ::
  "string \<Rightarrow> (nat \<Rightarrow> gtime) \<times> (nat \<Rightarrow> string) \<times> raw_event \<times> protocol_info option \<times> span \<Rightarrow>
   correlator \<Rightarrow> correlator"
where
  "send_request key x c =
     (case x of (clock, rnd, event, info, s) \<Rightarrow>
        handleSend clock rnd (co_next c) event key info (alloc_span s c))"

lemma inflight_of_alloc [simp]: "inflight_of (alloc_span s c) key = inflight_of c key"
  by (simp add: inflight_of_def)

lemma send_request_queue:
  assumes "isRequestPayload event" "0 < co_maxInflight c"
  shows "map iq_event (inflight_of (send_request key (clock, rnd, event, info, s) c) key) =
     (if co_maxInflight c \<le> int (length (inflight_of c key)) then tl (map iq_event (inflight_of c key))
      else map iq_event (inflight_of c key)) @ [event]"
    "co_maxInflight (send_request key (clock, rnd, event, info, s) c) = co_maxInflight c"
proof -
  have h: "co_heap (alloc_span s c) (co_next c) = Some s" by simp
  have m: "0 < co_maxInflight (alloc_span s c)" using assms(2) by simp
  show "map iq_event (inflight_of (send_request key (clock, rnd, event, info, s) c) key) =
     (if co_maxInflight c \<le> int (length (inflight_of c key)) then tl (map iq_event (inflight_of c key))
      else map iq_event (inflight_of c key)) @ [event]"
    by (rule handleSend_request [OF h assms(1) m, of clock rnd key info])
       (simp add: send_request_def map_tl)
  show "co_maxInflight (send_request key (clock, rnd, event, info, s) c) = co_maxInflight c"
    by (rule handleSend_request [OF h assms(1) m, of clock rnd key info]) (simp add: send_request_def)
qed

definition request_input ::
  "(nat \<Rightarrow> gtime) \<times> (nat \<Rightarrow> string) \<times> raw_event \<times> protocol_info option \<times> span \<Rightarrow> bool"
where
  "request_input x = (case x of (clock, rnd, event, info, s) \<Rightarrow> isRequestPayload event)"

definition request_event ::
  "(nat \<Rightarrow> gtime) \<times> (nat \<Rightarrow> string) \<times> raw_event \<times> protocol_info option \<times> span \<Rightarrow> raw_event"
where
  "request_event x = (case x of (clock, rnd, event, info, s) \<Rightarrow> event)"

text \<open>The settings of the correlator are those of \<open>NewCorrelator\<close> for ever.\<close>

lemma handleSend_settings:
  "co_maxInflight (handleSend clock rnd a event key info c) = co_maxInflight c"
proof -
  obtain flow c1 where g: "getOrCreateFlow a key c = (flow, c1)" by force
  let ?c3 = "assign_ids (rnd 2) a (put_flow key (flow\<lparr>cf_LastSend := clock 0\<rparr>) c1)"
  obtain flow4 c4 where d: "drop_oldest (flow\<lparr>cf_LastSend := clock 0\<rparr>) ?c3 = (flow4, c4)" by force
  have "extends ?c3 c4" using extends_drop_oldest [of ?c3 "flow\<lparr>cf_LastSend := clock 0\<rparr>"] d by simp
  from extends_settings(1) [OF this] have "co_maxInflight c4 = co_maxInflight c"
    by (simp add: assign_ids_def effect_defs getOrCreateFlow_frame [OF g])
  moreover have "co_maxInflight (upd_span a f e) = co_maxInflight e"
    "co_maxInflight (add_inflight n e) = co_maxInflight e"
    "co_maxInflight (put_flow key fl e) = co_maxInflight e" for f e n fl
    by (simp_all add: effect_defs)
  ultimately show ?thesis
    by (simp add: handleSend_def g d Let_def getOrCreateFlow_frame [OF g])
qed

interpretation inflight: sliding_queue "send_request key" "\<lambda>c. map iq_event (inflight_of c key)"
  request_event "\<lambda>c. nat (co_maxInflight c)" request_input
  for key :: string
proof unfold_locales
  fix x c
  assume "request_input x" "0 < nat (co_maxInflight c)"
    and "length (map iq_event (inflight_of c key)) \<le> nat (co_maxInflight c)"
  then show "map iq_event (inflight_of (send_request key x c) key) =
      (if length (map iq_event (inflight_of c key)) = nat (co_maxInflight c)
       then tl (map iq_event (inflight_of c key)) else map iq_event (inflight_of c key)) @ [request_event x]"
    by (cases x) (auto simp: request_input_def request_event_def send_request_queue)
next
  fix x c
  assume "request_input x"
  then show "nat (co_maxInflight (send_request key x c)) = nat (co_maxInflight c)"
    by (cases x)
       (auto simp: request_input_def send_request_def handleSend_settings)
qed

section \<open>Reachable states\<close>

inductive correlator_step :: "correlator \<Rightarrow> correlator \<Rightarrow> bool" where
  step_handler: "correlator_step c (SetSpanHandler c)"
| step_event: "ProcessEvent clock rnd event c = Inr c' \<Longrightarrow> correlator_step c c'"
| step_cleanup: "distinct keys \<Longrightarrow> set keys = dom (co_connections c) \<Longrightarrow>
    correlator_step c (cleanupExpired now rnd keys c)"


inductive correlator_reach :: "correlator \<Rightarrow> bool" where
  reach_new: "correlator_reach NewCorrelator"
| reach_step: "correlator_reach c \<Longrightarrow> correlator_step c c' \<Longrightarrow> correlator_reach c'"

lemma ProcessEvent_extends:
  assumes "correlator_ok c" "ProcessEvent clock rnd event c = Inr c'"
  obtains s where "extends (alloc_span s (add_total 1 c)) c'"
proof -
  from assms(2) obtain info s where c': "c' = finish_event clock rnd (co_next c) event (event_key event)
       (handle_event clock rnd (co_next c) event (event_key event) info
         (alloc_span s (add_total 1 c)))"
    by (rule ProcessEvent_Inr)
  let ?c1 = "alloc_span s (add_total 1 c)"
  have "correlator_ok (add_total 1 c)" using assms(1) by simp
  from ok_alloc [OF this, of s] have "correlator_ok ?c1" "unqueued ?c1 (co_next c)" by simp_all
  note h = ok_handle_event [OF this(1) _ this(2), simplified, of clock rnd event "event_key event" info]
  have "co_next c < co_next (handle_event clock rnd (co_next c) event (event_key event) info ?c1)"
    by (simp add: extends_settings(4) [OF h(2)])
  note f = ok_finish_event(2) [OF h(1) this, of clock rnd event "event_key event"]
  have "extends ?c1 c'" unfolding c' by (rule extends_trans [OF h(2) f])
  then show thesis by (rule that)
qed

lemma ProcessEvent_settings:
  assumes "correlator_ok c" "ProcessEvent clock rnd event c = Inr c'"
  shows "co_maxInflight c' = co_maxInflight c"
proof (rule ProcessEvent_extends [OF assms])
  fix s assume "extends (alloc_span s (add_total 1 c)) c'"
  from extends_settings(1) [OF this] show ?thesis by simp
qed

lemma ProcessEvent_log:
  assumes "correlator_ok c" "ProcessEvent clock rnd event c = Inr c'"
  obtains calls where "co_log c' = co_log c @ calls"
proof (rule ProcessEvent_extends [OF assms])
  fix s assume "extends (alloc_span s (add_total 1 c)) c'"
  then show thesis using that by (auto simp: extends_def)
qed

lemma cleanupExpired_run:
  obtains rest c1 where
    "rest = filter (\<lambda>r. \<not> co_timeout c < time_sub now (pr_Timestamp r)) (co_pendingRequests c)"
    "extends c c1" "co_connections c1 = co_connections c" "gauges c1 = gauges c"
    "cleanupExpired now rnd keys c = fold (expire_flow now) keys (c1\<lparr>co_pendingRequests := rest\<rparr>)"
proof -
  obtain rest c1 where e: "expire_pending now rnd (co_pendingRequests c) c = (rest, c1)" by force
  have gauges: "gauges (snd (expire_pending now rnd rs d)) = gauges d" for rs d
    by (induction rs arbitrary: d) (auto split: prod.split, metis snd_conv)
  show thesis
    by (rule that [of rest c1])
       (use e expire_pending_rest [where c = c and now = now and rnd = rnd and rs = "co_pendingRequests c"]
          expire_pending_frame [where c = c and now = now and rnd = rnd and rs = "co_pendingRequests c"]
          gauges [of "co_pendingRequests c" c]
        in \<open>simp_all add: cleanupExpired_def\<close>)
qed

lemma cleanupExpired_settings: "co_maxInflight (cleanupExpired now rnd keys c) = co_maxInflight c"
proof (rule cleanupExpired_run [of c now rnd keys])
  fix rest c1
  assume e: "extends c c1"
    and run: "cleanupExpired now rnd keys c = fold (expire_flow now) keys (c1\<lparr>co_pendingRequests := rest\<rparr>)"
  show ?thesis
    unfolding run
    using extends_settings(1) [OF fold_expire_flow(1)] extends_settings(1) [OF e] by simp
qed

lemma ok_SetSpanHandler [simp]: "correlator_ok (SetSpanHandler c) \<longleftrightarrow> correlator_ok c"
  by (simp add: SetSpanHandler_def correlator_ok_def queue_ok_def has_id_def)

lemma reach_ok: "correlator_reach c \<Longrightarrow> correlator_ok c \<and> co_maxInflight c = 1000"
proof (induction rule: correlator_reach.induct)
  case reach_new
  show ?case by (simp add: correlator_ok_def NewCorrelator_def)
next
  case (reach_step c c')
  from reach_step(2) show ?case
  proof (cases rule: correlator_step.cases)
    case step_handler
    with reach_step.IH show ?thesis by simp (simp add: SetSpanHandler_def)
  next
    case (step_event clock rnd event)
    with reach_step.IH show ?thesis
      using ok_ProcessEvent ProcessEvent_settings by metis
  next
    case (step_cleanup keys now rnd)
    with reach_step.IH show ?thesis
      by (simp add: ok_cleanupExpired cleanupExpired_settings)
  qed
qed

text \<open>The whole processing of a request and of a response that finds a request waiting.\<close>

lemma finish_reported:
  assumes "co_heap c a = Some s" "sp_TraceID s \<noteq> ''''" "co_spanHandler c"
  shows "co_log (finish_event clock rnd a event key c) = co_log c @ [(a, s)]"
    "co_heap (finish_event clock rnd a event key c) = co_heap c"
    "co_spanHandler (finish_event clock rnd a event key c)"
    "inflight_of (finish_event clock rnd a event key c) k = inflight_of c k"
    "cs_ProcessedSpans (co_stats (finish_event clock rnd a event key c)) =
       cs_ProcessedSpans (co_stats c) + 1"
  using assms by (simp_all add: finish_event_def span_at_def effect_defs inflight_of_def)

lemma ProcessEvent_request:
  assumes "correlator_ok c" "co_spanHandler c" "ev_EventType event = EventTypeSendTo"
    and "isRequestPayload event" "ProcessEvent clock rnd event c = Inr c'"
    and "int (length (inflight_of c (event_key event))) < co_maxInflight c"
  obtains req s where
    "iq_span req = co_next c" "iq_sendTime req = clock 1" "sp_TraceID s \<noteq> ''''"
    "inflight_of c' (event_key event) = inflight_of c (event_key event) @ [req]"
    "co_heap c' = (co_heap c)(co_next c \<mapsto> s)" "co_log c' = co_log c @ [(co_next c, s)]"
    "co_spanHandler c'" "cs_ProcessedSpans (co_stats c') = cs_ProcessedSpans (co_stats c) + 1"
proof -
  let ?key = "event_key event" and ?a = "co_next c"
  from assms(5) obtain info s0 where c': "c' = finish_event clock rnd ?a event ?key
      (handle_event clock rnd ?a event ?key info (alloc_span s0 (add_total 1 c)))"
    by (rule ProcessEvent_Inr)
  let ?c1 = "alloc_span s0 (add_total 1 c)"
  have h: "co_heap ?c1 ?a = Some s0" "0 < co_maxInflight ?c1"
    using assms(1) by (simp_all add: correlator_ok_def)
  have t: "inflight_of (add_total 1 c) ?key = inflight_of c ?key"
    "co_stats ?c1 = co_stats (add_total 1 c)"
    "cs_ProcessedSpans (co_stats (add_total 1 c)) = cs_ProcessedSpans (co_stats c)"
    by (simp_all add: inflight_of_def add_total_def)
  show thesis
  proof (rule handleSend_request [OF h(1) assms(4) h(2), of clock rnd ?key info])
    fix req :: inflight_request
    let ?c2 = "handleSend clock rnd ?a event ?key info ?c1"
    let ?s = "SetTag (with_ids (rnd 2) s0) ''request_seq'' (TagU64 (iq_seq req))"
    assume req: "iq_span req = ?a" "iq_sendTime req = clock 1"
      and q: "inflight_of ?c2 ?key = (if co_maxInflight ?c1 \<le> int (length (inflight_of ?c1 ?key))
          then tl (inflight_of ?c1 ?key) else inflight_of ?c1 ?key) @ [req]"
      and hp: "co_heap ?c2 = (co_heap ?c1)(?a \<mapsto> ?s)"
      and lg: "int (length (inflight_of ?c1 ?key)) < co_maxInflight ?c1 \<Longrightarrow>
          co_log ?c2 = co_log ?c1 \<and>
          cs_ProcessedSpans (co_stats ?c2) = cs_ProcessedSpans (co_stats ?c1)"
      and hd: "co_spanHandler ?c2 = co_spanHandler ?c1"
    have run: "c' = finish_event clock rnd ?a event ?key ?c2"
      unfolding c' handle_event_def using assms(3) by (simp add: event_type_defs)
    have hs: "co_heap ?c2 ?a = Some ?s" "sp_TraceID ?s \<noteq> ''''" by (simp_all add: hp)
    have "co_spanHandler ?c2" using hd assms(2) by simp
    note fin = finish_reported [OF hs this, of clock rnd event ?key]
    show thesis
      by (rule that [of req ?s]) (use req q hp lg assms(6) t in \<open>simp_all add: run fin\<close>)
  qed
qed

lemma ProcessEvent_response:
  assumes "correlator_ok c" "co_spanHandler c" "ev_EventType event = EventTypeRecvFrom"
    and "isResponsePayload event" "ProcessEvent clock rnd event c = Inr c'"
    and "inflight_of c (event_key event) = req # rest" "co_heap c (iq_span req) = Some r"
  obtains s where
    "inflight_of c' (event_key event) = rest"
    "co_log c' = co_log c @
       [(iq_span req, answered (clock 1) req r), (co_next c, answer (clock 1) (rnd 2) req r s),
        (co_next c, SetTag (answer (clock 1) (rnd 2) req r s) ''matched'' (TagBool True))]"
    "co_heap c' = (co_heap c)(iq_span req \<mapsto> answered (clock 1) req r,
       co_next c \<mapsto> SetTag (answer (clock 1) (rnd 2) req r s) ''matched'' (TagBool True))"
    "cs_ProcessedSpans (co_stats c') = cs_ProcessedSpans (co_stats c) + 3"
    "sp_TraceID r \<noteq> ''''" "iq_span req \<noteq> co_next c"
proof -
  let ?key = "event_key event" and ?a = "co_next c"
  from assms(5) obtain info s0 where c': "c' = finish_event clock rnd ?a event ?key
      (handle_event clock rnd ?a event ?key info (alloc_span s0 (add_total 1 c)))"
    by (rule ProcessEvent_Inr)
  let ?c1 = "alloc_span s0 (add_total 1 c)"
  have lt: "iq_span req < ?a"
    using assms(1,7) by (auto simp: correlator_ok_def)
  obtain flow where f: "co_connections c ?key = Some flow" "cf_inflightReqs flow = req # rest"
    using assms(6) by (auto simp: inflight_of_def split: option.splits)
  then have id: "sp_TraceID r \<noteq> ''''"
    using correlator_ok_queue [OF assms(1) f(1)] assms(7) by (auto simp: queue_ok_def has_id_def)
  have pre: "co_heap ?c1 ?a = Some s0" "co_heap ?c1 (iq_span req) = Some r" "iq_span req \<noteq> ?a"
    "inflight_of ?c1 ?key = req # rest" "co_spanHandler ?c1"
    using lt assms(2,6,7) by (simp_all add: inflight_of_def)
  let ?c2 = "handleRecv clock rnd ?a event ?key ?c1"
  note m = handleRecv_match [OF pre(1-3) assms(4) pre(4,5), of clock rnd]
  let ?s = "SetTag (answer (clock 1) (rnd 2) req r s0) ''matched'' (TagBool True)"
  have run: "c' = finish_event clock rnd ?a event ?key ?c2"
    unfolding c' handle_event_def using assms(3) by (simp add: event_type_defs)
  have hs: "co_heap ?c2 ?a = Some ?s" "sp_TraceID ?s \<noteq> ''''"
    using id by (simp_all add: m(3) answer_def)
  note fin = finish_reported [OF hs m(5), of clock rnd event ?key]
  have t: "co_stats ?c1 = co_stats (add_total 1 c)"
    "cs_ProcessedSpans (co_stats (add_total 1 c)) = cs_ProcessedSpans (co_stats c)"
    by (simp_all add: add_total_def)
  have upd: "(co_heap c)(?a \<mapsto> s0, iq_span req \<mapsto> u, ?a \<mapsto> v) = (co_heap c)(iq_span req \<mapsto> u, ?a \<mapsto> v)" for u v
    using lt by auto
  show thesis
    by (rule that [of s0]) (use lt id in \<open>simp_all add: run fin m t upd\<close>)
qed

section \<open>Properties\<close>

text \<open>
  C13: Whatever events arrive and however often the clean-up runs, an in-flight queue never
  holds more than 1000 requests, no span waits twice in a queue, every waiting span has a
  trace id, and the sequence numbers of a queue are consecutive and end at the counter of its
  flow.
\<close>

theorem inflight_queues_bounded:
  assumes "correlator_reach c" "co_connections c key = Some flow"
  shows "length (cf_inflightReqs flow) \<le> 1000 \<and> distinct (map iq_span (cf_inflightReqs flow)) \<and>
     (\<forall>q\<in>set (cf_inflightReqs flow). \<exists>s. co_heap c (iq_span q) = Some s \<and> sp_TraceID s \<noteq> '''') \<and>
     counts_down (cf_seqCounter flow) (rev (map iq_seq (cf_inflightReqs flow)))"
  using reach_ok [OF assms(1)] correlator_ok_queue [OF _ assms(2)]
  by (auto simp: queue_ok_def has_id_def)

text \<open>
  Two events belong to the same flow exactly when they are of the same process and their
  endpoints are the same, in either direction.
\<close>

theorem connection_key_exact:
  "getConnectionKey pid (intToIP a) (intToIP b) p q = getConnectionKey pid' (intToIP a') (intToIP b') p' q' \<longleftrightarrow>
   pid = pid' \<and> ((intToIP a, p) = (intToIP a', p') \<and> (intToIP b, q) = (intToIP b', q') \<or>
                 (intToIP a, p) = (intToIP b', q') \<and> (intToIP b, q) = (intToIP a', p'))"
  by (rule conn.same_connection) (rule intToIP_no_colon)+

text \<open>A flow that is put over another one: the tables and gauges that come out of it.\<close>

lemma connect_tables:
  assumes "finite (dom (co_connections c))" "gauges c = (x, y, z)" "c2 = add_active 1 (put_flow key (new_flow s) c)"
  shows "gauges c2 = (x + 1, y, z)" "waiting c2 = waiting c - queue_len c key"
    "card (dom (co_connections c2)) =
       card (dom (co_connections c)) + (if key \<in> dom (co_connections c) then 0 else 1)"
proof -
  show "gauges c2 = (x + 1, y, z)" using assms(2) by (simp add: assms(3) gauges_add)
  have "waiting c2 = waiting (put_flow key (new_flow s) c)" by (rule waiting_cong) (simp add: assms(3))
  then show "waiting c2 = waiting c - queue_len c key" by (simp add: waiting_put [OF assms(1)] new_flow_def)
  show "card (dom (co_connections c2)) =
      card (dom (co_connections c)) + (if key \<in> dom (co_connections c) then 0 else 1)"
    using assms(1) by (simp add: assms(3) card_insert_if)
qed

text \<open>
  C14: The gauges. Handling an event other than a connect or an accept leaves the difference
  between the connection gauge and the size of the table unchanged, and that between the
  in-flight gauge and the number of waiting requests plus all dropped ones: a dropped request
  is never taken off the in-flight gauge. A connect or accept on a key that is already in the
  table makes the first drift by one and the second by the length of the queue it discards.
\<close>

theorem gauges_drift:
  assumes "finite (dom (co_connections c))" "0 < co_maxInflight c"
    and "ProcessEvent clock rnd event c = Inr c'"
  shows "(active_drift c', inflight_drift c') =
     (if ev_EventType event = EventTypeConnect \<or> ev_EventType event = EventTypeAccept then
        (active_drift c + (if event_key event \<in> dom (co_connections c) then 1 else 0),
         inflight_drift c + queue_len c (event_key event))
      else (active_drift c, inflight_drift c))"
proof -
  from assms(3) obtain info s where
    p: "Parser_Parse event (ConvertRawEventToSpan event (rnd 0) (rnd 1)) = Inr (info, s)" and
    c': "c' = finish_event clock rnd (co_next c) event (event_key event)
       (handle_event clock rnd (co_next c) event (event_key event) info
         (alloc_span s (add_total 1 c)))"
    by (rule ProcessEvent_Inr)
  let ?key = "event_key event" and ?c1 = "alloc_span s (add_total 1 c)"
  let ?c2 = "handle_event clock rnd (co_next c) event ?key info ?c1"
  have f1: "finite (dom (co_connections ?c1))" using assms(1) by simp
  have s1: "steady c ?c1" by (rule steady_neutral [OF assms(1)]) simp_all
  show ?thesis
  proof (cases "ev_EventType event = EventTypeConnect \<or> ev_EventType event = EventTypeAccept")
    case False
    have "steady ?c1 ?c1" by (rule steady_neutral [OF f1]) simp_all
    then have "steady ?c1 ?c2"
      using False steady_handleSend [OF f1] steady_handleRecv [OF f1] steady_handleClose [OF f1] assms(2)
      by (simp add: handle_event_def)
    with s1 have s2: "steady c ?c2" by (rule steady_trans)
    then have "steady ?c2 c'" unfolding c' by (intro steady_finish_event) (simp add: steady_def)
    with s2 have "steady c c'" by (rule steady_trans)
    with False show ?thesis by (simp add: steady_def)
  next
    case True
    have key: "span_key_of s = ?key" by (rule span_key_parsed [OF p])
    have c2: "?c2 = add_active 1 (put_flow ?key (new_flow s) ?c1)"
      using True by (auto simp: handle_event_def handleConnect_def handleAccept_def Let_def span_at_def
          key event_type_defs)
    obtain x y z where g: "gauges c = (x, y, z)" by (rule gauges_pair)
    then have "gauges ?c1 = (x, y, z)" by simp
    note t = connect_tables [OF f1 this c2]
    have w: "waiting ?c1 = waiting c" "queue_len ?c1 ?key = queue_len c ?key"
      by (simp_all add: waiting_cong [of ?c1 c] queue_len_def)
    have "steady ?c2 c'" unfolding c'
      by (rule steady_finish_event) (use assms(1) in \<open>simp add: c2\<close>)
    then show ?thesis
      using True t(2,3) w by (simp add: steady_def drift_gauges [OF g] drift_gauges [OF t(1)])
  qed
qed

text \<open>
  C7: A response answers the oldest waiting request of its flow. Its span gets the trace id
  of the request and the request as its parent, both spans get the time since the request was
  sent, and the request leaves the queue. The handler is called three times for the two spans:
  the response span is reported when it is matched and once more when the event is finished.
\<close>

theorem response_answers_oldest:
  assumes "correlator_reach c" "co_spanHandler c" "ev_EventType event = EventTypeRecvFrom"
    and "isResponsePayload event" "ProcessEvent clock rnd event c = Inr c'"
    and "inflight_of c (event_key event) = req # rest" "co_heap c (iq_span req) = Some r"
  shows "\<exists>s s'. inflight_of c' (event_key event) = rest \<and>
     co_heap c' = (co_heap c)(iq_span req \<mapsto> answered (clock 1) req r, co_next c \<mapsto> s') \<and>
     co_log c' = co_log c @ [(iq_span req, answered (clock 1) req r), (co_next c, s), (co_next c, s')] \<and>
     sp_TraceID s = sp_TraceID r \<and> sp_TraceID r \<noteq> '''' \<and> sp_ParentSpanID s = sp_SpanID r \<and>
     sp_DurationMs s = elapsed_ms (clock 1) req \<and>
     s' = SetTag s ''matched'' (TagBool True)"
proof -
  have "correlator_ok c" using reach_ok [OF assms(1)] by simp
  then show ?thesis
  proof (rule ProcessEvent_response [OF _ assms(2-7)])
    fix s
    let ?s = "answer (clock 1) (rnd 2) req r s"
    assume "inflight_of c' (event_key event) = rest"
      "co_log c' = co_log c @ [(iq_span req, answered (clock 1) req r), (co_next c, ?s),
         (co_next c, SetTag ?s ''matched'' (TagBool True))]"
      "co_heap c' = (co_heap c)(iq_span req \<mapsto> answered (clock 1) req r,
         co_next c \<mapsto> SetTag ?s ''matched'' (TagBool True))" "sp_TraceID r \<noteq> ''''"
    then show ?thesis
      by (intro exI [of _ ?s] exI [of _ "SetTag ?s ''matched'' (TagBool True)"])
         (simp add: answer_def)
  qed
qed

text \<open>One request and its response: what reaches the handler.\<close>

lemma exchange_calls:
  assumes "correlator_reach c" "co_spanHandler c"
    and "ev_EventType e1 = EventTypeSendTo" "isRequestPayload e1"
    and "ev_EventType e2 = EventTypeRecvFrom" "isResponsePayload e2"
    and "event_key e2 = event_key e1" "inflight_of c (event_key e1) = []"
    and "ProcessEvent k1 r1 e1 c = Inr c1" "ProcessEvent k2 r2 e2 c1 = Inr c2"
  shows "\<exists>a b s1 s2 s3 s4. a \<noteq> b \<and> co_log c2 = co_log c @ [(a, s1), (a, s2), (b, s3), (b, s4)] \<and>
     sp_TraceID s1 \<noteq> '''' \<and> sp_TraceID s2 = sp_TraceID s1 \<and> sp_TraceID s3 = sp_TraceID s1 \<and>
     sp_ParentSpanID s3 = sp_SpanID s1 \<and> inflight_of c2 (event_key e1) = [] \<and>
     cs_ProcessedSpans (co_stats c2) = cs_ProcessedSpans (co_stats c) + 4"
proof -
  have ok: "correlator_ok c" "co_maxInflight c = 1000" using reach_ok [OF assms(1)] by simp_all
  have room: "int (length (inflight_of c (event_key e1))) < co_maxInflight c"
    using ok(2) assms(8) by simp
  show ?thesis
  proof (rule ProcessEvent_request [OF ok(1) assms(2-4,9) room])
    fix req :: inflight_request and s
    assume r: "iq_span req = co_next c" "sp_TraceID s \<noteq> ''''"
      "inflight_of c1 (event_key e1) = inflight_of c (event_key e1) @ [req]"
      "co_heap c1 = (co_heap c)(co_next c \<mapsto> s)" "co_log c1 = co_log c @ [(co_next c, s)]"
      "co_spanHandler c1" "cs_ProcessedSpans (co_stats c1) = cs_ProcessedSpans (co_stats c) + 1"
    have ok1: "correlator_ok c1" by (rule ok_ProcessEvent [OF ok(1) assms(9)])
    have q: "inflight_of c1 (event_key e2) = req # []" "co_heap c1 (iq_span req) = Some s"
      using r assms(7,8) by simp_all
    show ?thesis
      by (rule ProcessEvent_response [OF ok1 r(6) assms(5,6,10) q])
         (use r assms(7) in \<open>auto simp: answered_def answer_def\<close>)
  qed
qed


text \<open>
  C36: A flow holds the newest requests: however many requests are sent on a connection, its
  queue is the last ones of them, in the order in which they were sent, and all older ones
  have been dropped.
\<close>

theorem inflight_keeps_newest:
  assumes "list_all request_input xs" "0 < co_maxInflight c"
    and "int (length (inflight_of c key)) \<le> co_maxInflight c"
  shows "map iq_event (inflight_of (fold (send_request key) xs c) key) =
     drop (length (inflight_of c key) + length xs - nat (co_maxInflight c))
       (map iq_event (inflight_of c key) @ map request_event xs)"
  using inflight.keeps_newest [of xs c key] assms by simp


section \<open>Concrete runs\<close>

text \<open>
  Events of no known protocol between two fixed endpoints: parsing them changes nothing, so
  any payload that does not look like an Envoy frame can be used to drive the correlator.
\<close>

definition demo_event :: "u8 \<Rightarrow> string \<Rightarrow> raw_event" where
  "demo_event et p = (event_with ProtocolUnknown p)\<lparr>ev_EventType := et\<rparr>"

lemma demo_parse:
  assumes "p \<noteq> []" "length p \<le> 1024" "p ! 0 \<noteq> CHR ''E''"
  shows "\<exists>i. Parser_Parse (demo_event et p) s = Inr (i, s)"
proof -
  have "event_payload (demo_event et p) p"
    using event_with_payload [OF assms(1,2), of ProtocolUnknown]
    by (simp add: demo_event_def event_payload_def raw_wf_def)
  from Parser_Parse_plain [OF this assms(3)] show ?thesis
    by (simp add: demo_event_def parse_dispatch_def protocol_defs)
qed

lemma demo_runs:
  assumes "p \<noteq> []" "length p \<le> 1024" "p ! 0 \<noteq> CHR ''E''"
  shows "\<exists>c'. ProcessEvent clock rnd (demo_event et p) c = Inr c'"
proof -
  obtain i where "Parser_Parse (demo_event et p)
      (ConvertRawEventToSpan (demo_event et p) (rnd 0) (rnd 1)) =
      Inr (i, ConvertRawEventToSpan (demo_event et p) (rnd 0) (rnd 1))"
    using demo_parse [OF assms] by blast
  then show ?thesis by (simp add: ProcessEvent_def Let_def)
qed

lemma demo_get: "\<exists>c'. ProcessEvent clock rnd (demo_event et ''GET /'') c = Inr c'"
  by (rule demo_runs) simp_all

lemma demo_ok: "\<exists>c'. ProcessEvent clock rnd (demo_event et ''HTTP/1.1 200'') c = Inr c'"
  by (rule demo_runs) simp_all

lemma demo_fields [simp]:
  "ev_EventType (demo_event et p) = et" "event_key (demo_event et p) = event_key zero_event"
  by (simp_all add: demo_event_def event_key_def event_with_def)

lemma demo_payloads [simp]:
  "isRequestPayload (demo_event et ''GET /'')" "isResponsePayload (demo_event et ''HTTP/1.1 200'')"
  by (simp_all add: isRequestPayload_def isResponsePayload_def demo_event_def event_with_def word_less_nat_alt)

definition demo_start :: correlator where "demo_start = SetSpanHandler NewCorrelator"

lemma demo_start_fields [simp]:
  "co_spanHandler demo_start" "inflight_of demo_start key = []" "co_log demo_start = []"
  "co_maxInflight demo_start = 1000" "co_connections demo_start = Map.empty" "co_next demo_start = 0"
  "co_pendingRequests demo_start = []"
  by (simp_all add: demo_start_def SetSpanHandler_def NewCorrelator_def inflight_of_def)

lemma demo_start_reach: "correlator_reach demo_start"
  unfolding demo_start_def by (intro reach_step [OF reach_new] step_handler)

text \<open>After one request the queue of its flow holds it.\<close>

lemma demo_request:
  obtains c req s where
    "ProcessEvent clock rnd (demo_event EventTypeSendTo ''GET /'') demo_start = Inr c"
    "correlator_reach c" "co_spanHandler c" "inflight_of c (event_key zero_event) = [req]"
    "co_heap c (iq_span req) = Some s"
proof -
  obtain c where run: "ProcessEvent clock rnd (demo_event EventTypeSendTo ''GET /'') demo_start = Inr c"
    using demo_get by blast
  have reach: "correlator_reach c"
    by (rule reach_step [OF demo_start_reach step_event [OF run]])
  have ok: "correlator_ok demo_start" using reach_ok [OF demo_start_reach] by simp
  show thesis
  proof (rule ProcessEvent_request [OF ok _ _ _ run])
    fix req :: inflight_request and s
    assume "iq_span req = co_next demo_start" "co_spanHandler c"
      "inflight_of c (event_key (demo_event EventTypeSendTo ''GET /'')) =
         inflight_of demo_start (event_key (demo_event EventTypeSendTo ''GET /'')) @ [req]"
      "co_heap c = (co_heap demo_start)(co_next demo_start \<mapsto> s)"
    with run reach show thesis by (intro that [of c req s]) simp_all
  qed simp_all
qed

theorem inflight_queues_bounded_witness:
  "\<exists>c flow. correlator_reach c \<and> co_connections c (event_key zero_event) = Some flow \<and>
     cf_inflightReqs flow \<noteq> [] \<and> length (cf_inflightReqs flow) \<le> 1000"
proof (rule demo_request [of "\<lambda>_. 0" "\<lambda>_. ''''"])
  fix c req s
  assume r: "correlator_reach c" and q: "inflight_of c (event_key zero_event) = [req]"
  then obtain flow where f: "co_connections c (event_key zero_event) = Some flow"
    "cf_inflightReqs flow \<noteq> []"
    by (auto simp: inflight_of_def split: option.splits)
  from inflight_queues_bounded [OF r f(1)] r f show ?thesis by blast
qed

theorem gauges_drift_witness:
  "\<exists>c. ProcessEvent (\<lambda>_. 0) (\<lambda>_. '''') (demo_event EventTypeSendTo ''GET /'') demo_start = Inr c \<and>
     active_drift c = active_drift demo_start"
proof -
  obtain c where run: "ProcessEvent (\<lambda>_. 0) (\<lambda>_. '''') (demo_event EventTypeSendTo ''GET /'') demo_start = Inr c"
    using demo_get by blast
  from gauges_drift [OF _ _ this] run show ?thesis by (auto simp: event_type_defs)
qed

theorem response_answers_oldest_witness:
  "\<exists>c c' req. ProcessEvent (\<lambda>_. 9) (\<lambda>_. '''') (demo_event EventTypeRecvFrom ''HTTP/1.1 200'') c = Inr c' \<and>
     inflight_of c (event_key zero_event) = [req] \<and> inflight_of c' (event_key zero_event) = []"
proof (rule demo_request [of "\<lambda>_. 0" "\<lambda>_. ''''"])
  fix c req s
  assume r: "correlator_reach c" "co_spanHandler c"
    and q: "inflight_of c (event_key zero_event) = [req]" "co_heap c (iq_span req) = Some s"
  obtain c' where run: "ProcessEvent (\<lambda>_. 9) (\<lambda>_. '''') (demo_event EventTypeRecvFrom ''HTTP/1.1 200'') c = Inr c'"
    using demo_ok by blast
  from response_answers_oldest [OF r _ _ run, of req "[]" s] run q show ?thesis by auto
qed


theorem inflight_keeps_newest_witness:
  "map iq_event (inflight_of (fold (send_request ''k'')
       [(\<lambda>_. 0, \<lambda>_. '''', demo_event EventTypeSendTo ''GET /'', None, ConvertRawEventToSpan zero_event '''' '''')]
       demo_start) ''k'') = [demo_event EventTypeSendTo ''GET /'']"
  by (subst inflight_keeps_newest) (simp_all add: request_input_def request_event_def)


end
