(* ===== verification/Handler_Calls.thy ===== *)
theory Handler_Calls
  imports Correlator_Flows
begin

text \<open>
  What the correlator hands to the span handler: every call is for an allocated span that has
  a trace id, on every path (direct reports, answered requests, requests dropped from a full
  queue, closed and expired connections, expired pending spans).
\<close>

section \<open>Calls with a trace id\<close>

definition calls_ok :: "correlator \<Rightarrow> bool" where
  "calls_ok c \<longleftrightarrow> (\<forall>(a, s)\<in>set (co_log c). sp_TraceID s \<noteq> '''' \<and> a \<in> dom (co_heap c))"

lemma span_at_id: "has_id c a \<Longrightarrow> sp_TraceID (span_at c a) \<noteq> '''' \<and> a \<in> dom (co_heap c)"
  by (auto simp: has_id_def span_at_def)

text \<open>Operations that neither log nor change the heap, and updates of spans.\<close>

lemma calls_neutral [simp]:
  "calls_ok (put_flow key flow c) \<longleftrightarrow> calls_ok c" "calls_ok (add_inflight n c) \<longleftrightarrow> calls_ok c"
  "calls_ok (add_active n c) \<longleftrightarrow> calls_ok c" "calls_ok (add_dropped n c) \<longleftrightarrow> calls_ok c"
  "calls_ok (add_processed n c) \<longleftrightarrow> calls_ok c" "calls_ok (add_total n c) \<longleftrightarrow> calls_ok c"
  "calls_ok (c\<lparr>co_connections := m\<rparr>) \<longleftrightarrow> calls_ok c"
  "calls_ok (c\<lparr>co_pendingRequests := ps\<rparr>) \<longleftrightarrow> calls_ok c"
  "calls_ok (upd_span a f c) \<longleftrightarrow> calls_ok c" "calls_ok (SetSpanHandler c) \<longleftrightarrow> calls_ok c"
  by (auto simp: calls_ok_def effect_defs SetSpanHandler_def split: if_splits)

lemma calls_alloc: "calls_ok c \<Longrightarrow> calls_ok (alloc_span s c)"
  by (auto simp: calls_ok_def alloc_span_def)

lemma calls_assign_ids [simp]: "calls_ok (assign_ids r a c) \<longleftrightarrow> calls_ok c"
  by (simp add: assign_ids_def)

lemma calls_link [simp]: "calls_ok (link_response now r a req c) \<longleftrightarrow> calls_ok c"
  by (simp add: link_response_def Let_def)

lemma calls_call_handler: "calls_ok c \<Longrightarrow> has_id c a \<Longrightarrow> calls_ok (call_handler a c)"
  by (auto simp: calls_ok_def call_handler_def dest: span_at_id)

lemma id_neutral [simp]:
  "has_id (put_flow key flow c) a \<longleftrightarrow> has_id c a" "has_id (add_inflight n c) a \<longleftrightarrow> has_id c a"
  "has_id (add_active n c) a \<longleftrightarrow> has_id c a" "has_id (add_dropped n c) a \<longleftrightarrow> has_id c a"
  "has_id (add_processed n c) a \<longleftrightarrow> has_id c a" "has_id (call_handler b c) a \<longleftrightarrow> has_id c a"
  "has_id (upd_span b (\<lambda>s. SetTag s k v) c) a \<longleftrightarrow> has_id c a"
  by (auto simp: has_id_def effect_defs)

lemma calls_report: "calls_ok c \<Longrightarrow> has_id c a \<Longrightarrow> calls_ok (report a c)"
  by (simp add: report_def calls_call_handler)

lemma calls_report_pair: "calls_ok c \<Longrightarrow> has_id c r \<Longrightarrow> has_id c a \<Longrightarrow> calls_ok (report_pair r a c)"
  by (simp add: report_pair_def calls_call_handler)

text \<open>A response inherits the trace id of its request.\<close>

lemma link_ids:
  assumes "has_id c (iq_span req)" "a \<in> dom (co_heap c)"
  shows "has_id (link_response now r a req c) (iq_span req)" "has_id (link_response now r a req c) a"
proof -
  show "has_id (link_response now r a req c) (iq_span req)"
    by (rule extends_settings(6) [OF extends_link [OF assms(1)] assms(1)])
  show "has_id (link_response now r a req c) a"
    using assms span_at_id [OF assms(1)]
    by (auto simp: link_response_def Let_def has_id_def upd_span_def)
qed

text \<open>A list of reports of spans with ids.\<close>

lemma calls_fold:
  assumes "\<And>q c. calls_ok c \<Longrightarrow> has_id c (iq_span q) \<Longrightarrow> calls_ok (f q c)"
    and "\<And>q c. extends c (f q c)"
    and "calls_ok c" "\<forall>q\<in>set qs. has_id c (iq_span q)"
  shows "calls_ok (fold f qs c)"
  using assms(3,4)
proof (induction qs arbitrary: c)
  case (Cons q qs)
  have "\<forall>p\<in>set qs. has_id (f q c) (iq_span p)"
    using Cons.prems(2) extends_settings(6) [OF assms(2)] by auto
  with Cons assms(1) show ?case by simp
qed simp

section \<open>The handlers\<close>

lemma queued_ids:
  "correlator_ok c \<Longrightarrow> co_connections c key = Some flow \<Longrightarrow> q \<in> set (cf_inflightReqs flow) \<Longrightarrow>
   has_id c (iq_span q)"
  by (auto dest: correlator_ok_queue simp: queue_ok_def)

lemma calls_getOrCreateFlow: "getOrCreateFlow a key c = (flow, c') \<Longrightarrow> calls_ok c' \<longleftrightarrow> calls_ok c"
  by (auto simp: getOrCreateFlow_def Let_def split: option.splits)

lemma calls_handleSend:
  assumes "correlator_ok c" "a < co_next c" "calls_ok c"
  shows "calls_ok (handleSend clock rnd a event key info c)"
proof -
  obtain flow c1 where g: "getOrCreateFlow a key c = (flow, c1)" by force
  note o1 = ok_getOrCreateFlow [OF assms(1) g]
  let ?flow = "flow\<lparr>cf_LastSend := clock 0\<rparr>"
  let ?c3 = "assign_ids (rnd 2) a (put_flow key ?flow c1)"
  have q: "has_id ?c3 (iq_span q)" if "q \<in> set (cf_inflightReqs ?flow)" for q
    using o1(3) that extends_settings(6) [OF extends_assign_ids] by (simp add: queue_ok_def)
  obtain flow4 c4 where d: "drop_oldest ?flow ?c3 = (flow4, c4)" by force
  have "calls_ok ?c3" using assms(3) calls_getOrCreateFlow [OF g] by simp
  with d q have "calls_ok c4"
    by (auto simp: drop_oldest_def calls_report split: if_splits list.splits)
  moreover have "calls_ok (put_flow key ?flow c1)" using \<open>calls_ok ?c3\<close> by simp
  ultimately show ?thesis by (simp add: handleSend_def g d Let_def)
qed

lemma calls_handleRecv:
  assumes "correlator_ok c" "a < co_next c" "calls_ok c"
  shows "calls_ok (handleRecv clock rnd a event key c)"
proof -
  obtain flow c1 where g: "getOrCreateFlow a key c = (flow, c1)" by force
  note o1 = ok_getOrCreateFlow [OF assms(1) g]
  have c1: "calls_ok c1" using assms(3) calls_getOrCreateFlow [OF g] by simp
  show ?thesis
  proof (cases "cf_inflightReqs flow")
    case Nil
    with c1 show ?thesis by (simp add: handleRecv_def g Let_def)
  next
    case (Cons req rest)
    let ?c3 = "put_flow key (flow\<lparr>cf_LastRecv := clock 0, cf_inflightReqs := rest\<rparr>)
        (put_flow key (flow\<lparr>cf_LastRecv := clock 0\<rparr>) c1)"
    have "has_id ?c3 (iq_span req)" using o1(3) Cons by (simp add: queue_ok_def)
    moreover have "a \<in> dom (co_heap ?c3)"
      using assms(1,2) o1(7) by (simp add: correlator_ok_def put_flow_def)
    ultimately show ?thesis
      using c1 Cons by (simp add: handleRecv_def g Let_def calls_report_pair link_ids)
  qed
qed

lemma calls_handleClose:
  assumes "correlator_ok c" "calls_ok c"
  shows "calls_ok (handleClose key c)"
proof (cases "co_connections c key")
  case (Some flow)
  have "calls_ok (fold close_request (cf_inflightReqs flow) c)"
    by (rule calls_fold [OF _ extends_close_request assms(2)])
       (auto simp: close_request_def calls_call_handler queued_ids [OF assms(1) Some])
  with Some show ?thesis by (simp add: handleClose_def Let_def)
qed (simp add: handleClose_def assms)

lemma calls_tryCorrelate:
  assumes "correlator_ok c" "a < co_next c" "calls_ok c"
  shows "calls_ok (tryCorrelate now r a event key c)"
proof -
  obtain flow c1 where g: "getOrCreateFlow a key c = (flow, c1)" by force
  note o1 = ok_getOrCreateFlow [OF assms(1) g]
  have c1: "calls_ok c1" using assms(3) calls_getOrCreateFlow [OF g] by simp
  show ?thesis
  proof (cases "cf_inflightReqs flow")
    case Nil
    with c1 show ?thesis by (simp add: tryCorrelate_def g)
  next
    case (Cons req rest)
    let ?c3 = "put_flow key (flow\<lparr>cf_inflightReqs := rest\<rparr>) c1"
    have "has_id ?c3 (iq_span req)" using o1(3) Cons by (simp add: queue_ok_def)
    moreover have "a \<in> dom (co_heap ?c3)"
      using assms(1,2) o1(7) by (simp add: correlator_ok_def put_flow_def)
    ultimately show ?thesis
      using c1 Cons by (simp add: tryCorrelate_def g Let_def removeFromPending_def calls_report_pair link_ids)
  qed
qed

lemma calls_handle_event:
  assumes "correlator_ok c" "a < co_next c" "calls_ok c"
  shows "calls_ok (handle_event clock rnd a event key info c)"
  using assms
  by (simp add: handle_event_def handleConnect_def handleAccept_def Let_def calls_handleSend
      calls_handleRecv calls_handleClose)

lemma calls_finish_event:
  assumes "correlator_ok c" "a < co_next c" "calls_ok c"
  shows "calls_ok (finish_event clock rnd a event key c)"
proof (cases "sp_TraceID (span_at c a) = ''''")
  case False
  moreover have "a \<in> dom (co_heap c)" using assms(1,2) by (simp add: correlator_ok_def)
  ultimately have "has_id c a" by (auto simp: has_id_def span_at_def)
  with False assms(3) show ?thesis by (simp add: finish_event_def calls_call_handler)
next
  case True
  let ?r = "\<lparr>pr_Span = a, pr_RawEvent = event, pr_ProtocolInfo = None, pr_Timestamp = clock 2\<rparr>"
  have "correlator_ok (c\<lparr>co_pendingRequests := co_pendingRequests c @ [?r]\<rparr>)"
    by (rule correlator_ok_extends [OF assms(1) extends_effects(8)])
       (use assms in \<open>auto simp: correlator_ok_def\<close>)
  from calls_tryCorrelate [OF this] True assms(2,3) show ?thesis by (simp add: finish_event_def)
qed

lemma calls_ProcessEvent:
  assumes "correlator_ok c" "ProcessEvent clock rnd event c = Inr c'" "calls_ok c"
  shows "calls_ok c'"
proof -
  from assms(2) obtain info s where c': "c' = finish_event clock rnd (co_next c) event (event_key event)
       (handle_event clock rnd (co_next c) event (event_key event) info
         (alloc_span s (add_total 1 c)))"
    by (rule ProcessEvent_Inr)
  let ?c1 = "alloc_span s (add_total 1 c)"
  have "correlator_ok (add_total 1 c)" using assms(1) by simp
  from ok_alloc [OF this, of s] have o: "correlator_ok ?c1" "unqueued ?c1 (co_next c)" by simp_all
  note h = ok_handle_event [OF o(1) _ o(2)]
  have "calls_ok ?c1" using assms(3) by (intro calls_alloc) simp
  then show ?thesis unfolding c'
    by (intro calls_finish_event h(1) calls_handle_event o(1))
       (simp_all add: extends_settings(4) [OF h(2)])
qed

section \<open>Clean-up\<close>

lemma calls_expire_pending:
  assumes "calls_ok c" "\<forall>r\<in>set rs. pr_Span r \<in> dom (co_heap c)"
  shows "calls_ok (snd (expire_pending now rnd rs c))"
  using assms
proof (induction rs arbitrary: c)
  case (Cons r rs)
  have "\<forall>p\<in>set rs. pr_Span p \<in> dom (co_heap (expire_span rnd (pr_Span r) c))"
    using Cons.prems(2) extends_settings(5) [OF expire_span_frame(1)] by simp
  moreover have "has_id (assign_ids (rnd (pr_Span r)) (pr_Span r) c) (pr_Span r)"
    using Cons.prems(2) by (auto simp: assign_ids_def has_id_def upd_span_def span_at_def)
  ultimately show ?case
    using Cons by (simp add: expire_span_def calls_report split: prod.split) (metis snd_conv)
qed simp

lemma calls_expire_flow:
  assumes "correlator_ok c" "calls_ok c"
  shows "calls_ok (expire_flow now key c)"
proof (cases "co_connections c key")
  case (Some flow)
  have "calls_ok (fold timeout_request (cf_inflightReqs flow) c)"
    by (rule calls_fold [OF _ timeout_request_frame(1) assms(2)])
       (auto simp: timeout_request_def calls_report queued_ids [OF assms(1) Some])
  with Some assms(2) show ?thesis by (simp add: expire_flow_def Let_def)
qed (simp add: expire_flow_def assms)

lemma calls_expire_flows:
  "correlator_ok c \<Longrightarrow> calls_ok c \<Longrightarrow> calls_ok (fold (expire_flow now) keys c)"
  by (induction keys arbitrary: c) (simp_all add: ok_expire_flow calls_expire_flow)

lemma calls_cleanupExpired:
  assumes "correlator_ok c" "calls_ok c"
  shows "calls_ok (cleanupExpired now rnd keys c)"
proof -
  obtain rest c1 where e: "expire_pending now rnd (co_pendingRequests c) c = (rest, c1)" by force
  note f = expire_pending_frame [where c = c and now = now and rnd = rnd and rs = "co_pendingRequests c", unfolded e]
  have "\<forall>r\<in>set (co_pendingRequests c). pr_Span r \<in> dom (co_heap c)"
    using assms(1) by (simp add: correlator_ok_def)
  from calls_expire_pending [OF assms(2) this, of now rnd] have c1: "calls_ok c1" by (simp add: e)
  have "set rest \<subseteq> set (co_pendingRequests c)"
    using expire_pending_rest [where c = c and now = now and rnd = rnd and rs = "co_pendingRequests c"] e
    by auto
  then have "correlator_ok (c1\<lparr>co_pendingRequests := rest\<rparr>)"
    by (intro ok_frame [OF assms(1) extends_trans [OF _ extends_effects(8)]]) (use f in simp_all)
  with c1 show ?thesis by (simp add: cleanupExpired_def e calls_expire_flows)
qed

lemma reach_calls_ok: "correlator_reach c \<Longrightarrow> calls_ok c"
proof (induction rule: correlator_reach.induct)
  case reach_new
  show ?case by (simp add: calls_ok_def NewCorrelator_def)
next
  case (reach_step c c')
  have ok: "correlator_ok c" using reach_ok [OF reach_step.hyps(1)] by simp
  from reach_step(2) show ?case
    by cases (use ok reach_step.IH in \<open>simp_all add: calls_ProcessEvent calls_cleanupExpired\<close>)
qed

text \<open>
  C2: Whatever events and clean-ups the correlator goes through, in any order, every span it
  hands to the span handler has a trace id at that moment and is a span it has allocated.
\<close>

theorem reported_spans_have_ids:
  assumes "correlator_reach c" "(a, s) \<in> set (co_log c)"
  shows "sp_TraceID s \<noteq> '''' \<and> a < co_next c"
  using reach_calls_ok [OF assms(1)] reach_ok [OF assms(1)] assms(2)
  by (auto simp: calls_ok_def correlator_ok_def)

theorem reported_spans_have_ids_witness:
  "\<exists>c a s. correlator_reach c \<and> co_log c = [(a, s)] \<and> sp_TraceID s \<noteq> ''''"
proof -
  obtain c where run: "ProcessEvent (\<lambda>_. 0) (\<lambda>_. '''') (demo_event EventTypeSendTo ''GET /'') demo_start = Inr c"
    using demo_get by blast
  have ok: "correlator_ok demo_start" using reach_ok [OF demo_start_reach] by simp
  obtain s where "co_log c = co_log demo_start @ [(co_next demo_start, s)]"
    by (rule ProcessEvent_request [OF ok _ _ _ run]) simp_all
  moreover have "correlator_reach c" by (rule reach_step [OF demo_start_reach step_event [OF run]])
  ultimately show ?thesis using reported_spans_have_ids [of c "co_next demo_start" s] by auto
qed

end
