(* ===== verification/App.thy ===== *)
theory App
  imports Api Handler_Calls
begin

text \<open>
  \<open>cmd/main.go\<close>: how the parts are put together. The tracer's workers and the event loop pass
  every event to the correlator, the correlator passes spans to \<open>handleSpan\<close>, which asks the
  trace-level sampler and hands the span to the store.
\<close>

section \<open>From an event to the store\<close>

record app =
  ap_correlator :: correlator
  ap_sampler :: "dynamic_sampler trace_sampler"
  ap_store :: clickhouse_store

text \<open>
  \<open>draw\<close> is the number the random generator yields for this span. A refused span and a full
  queue only leave a log line; so do the statistics of the sampler.
\<close>

definition handleSpan :: "gtime \<Rightarrow> f64 \<Rightarrow> addr \<times> span \<Rightarrow> app \<Rightarrow> app go" where
  "handleSpan now draw call app =
     go_bind (Trace_ShouldSample (Dynamic_ShouldSample draw) now (ap_sampler app) (snd call)) (\<lambda>(ok, smp).
       if \<not> ok then Inr (app\<lparr>ap_sampler := smp\<rparr>)
       else go_bind (SaveSpan (fst call) (ap_store app)) (\<lambda>(err, st).
         Inr (app\<lparr>ap_sampler := smp, ap_store := st\<rparr>)))"

fun handle_calls :: "(nat \<Rightarrow> gtime) \<Rightarrow> (nat \<Rightarrow> f64) \<Rightarrow> (addr \<times> span) list \<Rightarrow> app \<Rightarrow> app go" where
  "handle_calls now draw [] app = Inr app"
| "handle_calls now draw (x # xs) app =
     go_bind (handleSpan (now 0) (draw 0) x app) (handle_calls (now \<circ> Suc) (draw \<circ> Suc) xs)"

text \<open>
  One event: the correlator processes it, and its calls of the handler, which are the entries
  that \<open>ProcessEvent\<close> adds to the log, are \<open>handleSpan\<close> in their order. The handler does not
  touch the correlator.
\<close>

definition app_event ::
  "(nat \<Rightarrow> gtime) \<Rightarrow> (nat \<Rightarrow> string) \<Rightarrow> (nat \<Rightarrow> f64) \<Rightarrow> raw_event \<Rightarrow> app \<Rightarrow> app go"
where
  "app_event clock rnd draw event app =
     go_bind (ProcessEvent clock rnd event (ap_correlator app)) (\<lambda>c.
       handle_calls clock draw (drop (length (co_log (ap_correlator app))) (co_log c))
         (app\<lparr>ap_correlator := c\<rparr>))"

text \<open>The event loop takes events from the tracer's channel, in competition with its workers.\<close>

definition eventLoop_step ::
  "bool \<Rightarrow> (nat \<Rightarrow> gtime) \<Rightarrow> (nat \<Rightarrow> string) \<Rightarrow> (nat \<Rightarrow> f64) \<Rightarrow> tracer \<Rightarrow> app \<Rightarrow> (tracer \<times> app) option go"
where
  "eventLoop_step cancelled clock rnd draw t app =
     (if cancelled then Inr None
      else (case tc_eventChan t of
          event # rest \<Rightarrow>
            go_bind (app_event clock rnd draw event app) (\<lambda>app. Inr (Some (Events_recv event rest t, app)))
        | [] \<Rightarrow> if tc_eventChan_closed t then Inr None else Inr (Some (t, app))))"

section \<open>Starting and stopping\<close>

record main_env =
  me_goos :: string
  me_uid :: int
  me_read :: "string option"
  me_unmarshal :: "string option \<times> config"
  me_open :: "string option"
  me_ping :: "string option"
  me_exec :: "string \<Rightarrow> string option"
  me_numCPU :: nat
  me_bpf_load :: "string option"
  me_bpf_assign :: "string option"
  me_attach :: "string \<Rightarrow> string option"
  me_reader :: "string option"
  me_initSchema :: bool
  me_enableEBPF :: bool
  me_enableAPI :: bool

datatype deferred = CloseStore | StopTracer | StopServer

text \<open>
  \<open>log.Fatal\<close> ends the process without the deferred calls: \<open>Inl\<close> with its text. Otherwise the
  result is whether \<open>main\<close> waits for a signal, the deferred calls in the order in which they
  run, and the parts. A \<open>Load\<close> without an error has set \<open>AppConfig\<close>. \<open>api.NewServer\<close> takes seven arguments and is called with five, which does
  not compile: here the two missing ones are nil.
\<close>

record main_result =
  mr_waits :: bool
  mr_deferred :: "deferred list"
  mr_app :: app
  mr_tracer :: "tracer option"
  mr_server :: "api_server option"

definition main_start :: "main_env \<Rightarrow> string + main_result" where
  "main_start e =
     (if me_goos e \<noteq> ''linux'' then Inl ''This program must be run on Linux''
      else if me_uid e \<noteq> 0 then Inl ''This program must be run as root''
      else (case Load (me_read e) (me_unmarshal e) None of
        (Some err, _) \<Rightarrow> Inl (''Failed to load config: '' @ err)
      | (None, appConfig) \<Rightarrow> (case OpenClickHouseStore (me_open e) (me_ping e) (cg_ClickHouse (the appConfig)) of
          Inl err \<Rightarrow> Inl (''Failed to create ClickHouse store: '' @ err)
        | Inr store \<Rightarrow>
            let cfg = the appConfig;
                smp = NewDynamicSampler (cg_Sampling cfg);
                app = \<lparr>ap_correlator = SetSpanHandler NewCorrelator,
                  ap_sampler = NewTraceLevelSampler smp, ap_store = store\<rparr>
            in if me_initSchema e then
                 (case InitSchema (me_exec e) store of
                    (_, Some err) \<Rightarrow> Inl (''Failed to initialize schema: '' @ err)
                  | (_, None) \<Rightarrow> Inr \<lparr>mr_waits = False, mr_deferred = [CloseStore], mr_app = app,
                      mr_tracer = None, mr_server = None\<rparr>)
               else
                 (case (if me_enableEBPF e then
                     (case NewTracer (me_numCPU e) (me_bpf_load e) (me_bpf_assign e) (me_attach e) (me_reader e) of
                        (Inl err, _) \<Rightarrow> Inl (''Failed to create eBPF tracer: '' @ err)
                      | (Inr t, _) \<Rightarrow> (case Tracer_Start (SetEventHandler t) of
                          Inl err \<Rightarrow> Inl (''Failed to start eBPF tracer: '' @ err)
                        | Inr t \<Rightarrow> Inr (Some t)))
                   else Inr None) of
                   Inl err \<Rightarrow> Inl err
                 | Inr tr \<Rightarrow>
                     let srv = (if me_enableAPI e then
                           Some (NewServer (cg_Server cfg) (Some store) (Some smp) tr
                             (Some (ap_correlator app)) None None) else None)
                     in Inr \<lparr>mr_waits = True,
                          mr_deferred = (if me_enableAPI e then [StopServer] else []) @
                            (if me_enableEBPF e then [StopTracer] else []) @ [CloseStore],
                          mr_app = app, mr_tracer = tr, mr_server = srv\<rparr>))))"

section \<open>Handler calls and the queue\<close>

text \<open>A sampler that refuses nothing, and has refused nothing so far.\<close>

definition samples_all :: "dynamic_sampler trace_sampler \<Rightarrow> bool" where
  "samples_all s \<longleftrightarrow>
     f_le (Fin 1) (ds_highLatencySampleRate (ts_innerSampler s)) \<and>
     f_le (Fin 1) (ds_lowLatencySampleRate (ts_innerSampler s)) \<and>
     (\<forall>k b u. ts_sampledTraces s k = Some (b, u) \<longrightarrow> b)"

lemma samples_all_step:
  assumes "samples_all s"
  shows "\<exists>s'. Trace_ShouldSample (Dynamic_ShouldSample draw) now s sp = Inr (True, s') \<and> samples_all s'"
proof -
  have "\<exists>d'. Dynamic_ShouldSample draw (ts_innerSampler s) sp = Inr (True, d') \<and>
      ds_highLatencySampleRate d' = ds_highLatencySampleRate (ts_innerSampler s) \<and>
      ds_lowLatencySampleRate d' = ds_lowLatencySampleRate (ts_innerSampler s)"
    using assms by (simp add: samples_all_def Dynamic_ShouldSample_def Dynamic_SamplingRate_def Let_def)
  then obtain d' where d: "Dynamic_ShouldSample draw (ts_innerSampler s) sp = Inr (True, d')"
      "ds_highLatencySampleRate d' = ds_highLatencySampleRate (ts_innerSampler s)"
      "ds_lowLatencySampleRate d' = ds_lowLatencySampleRate (ts_innerSampler s)" by blast
  show ?thesis
  proof (cases "ts_sampledTraces s (sp_TraceID sp)")
    case None
    with d assms show ?thesis by (auto simp: Trace_ShouldSample_def samples_all_def)
  next
    case (Some bu)
    obtain b u where "bu = (b, u)" by force
    with Some assms have b: "ts_sampledTraces s (sp_TraceID sp) = Some (True, u)"
      by (auto simp: samples_all_def)
    with d assms show ?thesis by (auto simp: Trace_ShouldSample_def samples_all_def)
  qed
qed

definition free_slots :: "clickhouse_store \<Rightarrow> nat" where
  "free_slots s = cs_queueCapacity s - length (cs_writeQueue s)"

lemma handle_calls_all:
  assumes "samples_all (ap_sampler app)" "\<not> cs_queueClosed (ap_store app)"
    and "length xs \<le> free_slots (ap_store app)"
  shows "\<exists>app'. handle_calls now draw xs app = Inr app' \<and> ap_correlator app' = ap_correlator app \<and>
    samples_all (ap_sampler app') \<and> \<not> cs_queueClosed (ap_store app') \<and>
    cs_queueCapacity (ap_store app') = cs_queueCapacity (ap_store app) \<and>
    cs_writeQueue (ap_store app') = cs_writeQueue (ap_store app) @ map fst xs"
  using assms
proof (induction xs arbitrary: app now draw)
  case (Cons x xs)
  obtain smp where smp: "Trace_ShouldSample (Dynamic_ShouldSample (draw 0)) (now 0) (ap_sampler app) (snd x) =
      Inr (True, smp)" "samples_all smp"
    using samples_all_step [OF Cons.prems(1)] by blast
  have room: "length (cs_writeQueue (ap_store app)) < cs_queueCapacity (ap_store app)"
    using Cons.prems(3) by (simp add: free_slots_def)
  obtain st where st: "SaveSpan (fst x) (ap_store app) = Inr (None, st)"
      "cs_writeQueue st = cs_writeQueue (ap_store app) @ [fst x]"
      "cs_queueCapacity st = cs_queueCapacity (ap_store app)" "\<not> cs_queueClosed st"
    using Cons.prems(2) room by (simp add: SaveSpan_def chan_send_def Let_def)
  let ?app = "app\<lparr>ap_sampler := smp, ap_store := st\<rparr>"
  have "handleSpan (now 0) (draw 0) x app = Inr ?app"
    by (simp add: handleSpan_def smp st)
  moreover have "length xs \<le> free_slots (ap_store ?app)"
    using Cons.prems(3) by (simp add: free_slots_def st)
  then obtain app' where "handle_calls (now \<circ> Suc) (draw \<circ> Suc) xs ?app = Inr app' \<and>
      ap_correlator app' = ap_correlator ?app \<and> samples_all (ap_sampler app') \<and>
      \<not> cs_queueClosed (ap_store app') \<and> cs_queueCapacity (ap_store app') = cs_queueCapacity (ap_store ?app) \<and>
      cs_writeQueue (ap_store app') = cs_writeQueue (ap_store ?app) @ map fst xs"
    using Cons.IH [of ?app] smp(2) st(4) by auto
  ultimately show ?case using st by auto
qed simp

text \<open>An event that is processed, when everything is sampled and fits into the queue.\<close>

lemma app_event_all:
  assumes "ProcessEvent clock rnd e (ap_correlator app) = Inr c"
    and "samples_all (ap_sampler app)" "\<not> cs_queueClosed (ap_store app)"
    and "co_log c = co_log (ap_correlator app) @ calls" "length calls \<le> free_slots (ap_store app)"
  obtains app' where "app_event clock rnd draw e app = Inr app'" "ap_correlator app' = c"
    "samples_all (ap_sampler app')" "\<not> cs_queueClosed (ap_store app')"
    "free_slots (ap_store app') = free_slots (ap_store app) - length calls"
    "cs_writeQueue (ap_store app') = cs_writeQueue (ap_store app) @ map fst calls"
proof -
  have "app_event clock rnd draw e app = handle_calls clock draw calls (app\<lparr>ap_correlator := c\<rparr>)"
    using assms(1,4) by (simp add: app_event_def)
  with handle_calls_all [of "app\<lparr>ap_correlator := c\<rparr>" calls clock draw] assms(2,3,5) that
  show thesis by (auto simp: free_slots_def)
qed


definition demo_app :: app where
  "demo_app = \<lparr>ap_correlator = demo_start,
     ap_sampler = NewTraceLevelSampler
       (NewDynamicSampler (demo_sampling\<lparr>sc_LowLatencySampleRate := Fin 1\<rparr>)),
     ap_store = NewClickHouseStore (demo_store_config\<lparr>ch_QueueCapacity := 8\<rparr>)\<rparr>"

lemma demo_app_simps [simp]:
  "ap_correlator demo_app = demo_start" "samples_all (ap_sampler demo_app)"
  "cs_queueClosed (ap_store demo_app) = False" "free_slots (ap_store demo_app) = 8"
  "cs_writeQueue (ap_store demo_app) = []"
  by (simp_all add: demo_app_def samples_all_def NewTraceLevelSampler_def NewDynamicSampler_def
      demo_sampling_def NewClickHouseStore_def free_slots_def demo_store_config_def)


section \<open>Events of the kernel program\<close>



section \<open>Whole traces\<close>

text \<open>The trace with this id has been chosen to be kept, or decided about at all.\<close>

definition chosen :: "app \<Rightarrow> addr \<times> span \<Rightarrow> bool" where
  "chosen app call \<longleftrightarrow> (\<exists>u. ts_sampledTraces (ap_sampler app) (sp_TraceID (snd call)) = Some (True, u))"

definition decided :: "app \<Rightarrow> addr \<times> span \<Rightarrow> bool" where
  "decided app call \<longleftrightarrow> ts_sampledTraces (ap_sampler app) (sp_TraceID (snd call)) \<noteq> None"

text \<open>
  \<open>kept_exactly calls app\<close>: the calls that the handler has had so far are all decided about,
  the store was given the chosen ones and its queue has the first of them that fit.
\<close>

definition kept_exactly :: "(addr \<times> span) list \<Rightarrow> app \<Rightarrow> bool" where
  "kept_exactly calls app \<longleftrightarrow>
     list_all (decided app) calls \<and> \<not> cs_queueClosed (ap_store app) \<and>
     cs_writeQueue (ap_store app) = take (cs_queueCapacity (ap_store app)) (map fst (filter (chosen app) calls)) \<and>
     sa_TotalSpans (cs_stats (ap_store app)) = of_nat (length (filter (chosen app) calls))"

text \<open>The laws of the sampler's table of decisions, for the state of the program.\<close>

lemma decided_iff: "decided app = (\<lambda>x. trace_decision (ap_sampler app) (sp_TraceID (snd x)) \<noteq> None)"
  "chosen app = (\<lambda>x. trace_decision (ap_sampler app) (sp_TraceID (snd x)) = Some True)"
  by (auto simp: decided_def chosen_def trace_decision_def fun_eq_iff)

lemma decided_mono:
  assumes "Trace_ShouldSample (Dynamic_ShouldSample draw) now (ap_sampler app) sp = Inr (b, ap_sampler app')"
    and "list_all (decided app) calls"
  shows "list_all (decided app') calls" "filter (chosen app') calls = filter (chosen app) calls"
    "sp_TraceID (snd x) \<noteq> '''' \<Longrightarrow> snd x = sp \<Longrightarrow> decided app' x \<and> (chosen app' x \<longleftrightarrow> b)"
proof -
  have ask: "trace_step Dynamic_ShouldSample (draw, now) (ap_sampler app) sp = Inr (b, ap_sampler app')"
    using assms(1) by (simp add: trace_step_def)
  show "list_all (decided app') calls" "filter (chosen app') calls = filter (chosen app) calls"
    using decisions.stable [OF ask, of snd calls] assms(2) by (simp_all add: decided_iff)
  show "decided app' x \<and> (chosen app' x \<longleftrightarrow> b)" if "sp_TraceID (snd x) \<noteq> ''''" "snd x = sp"
    using decisions.records [OF ask] that by (simp add: decided_iff)
qed

lemma SaveSpan_run:
  assumes "SaveSpan a st = Inr (err, st')" "cs_writeQueue st = take (cs_queueCapacity st) xs"
  shows "cs_writeQueue st' = take (cs_queueCapacity st') (xs @ [a])" "cs_queueClosed st' = cs_queueClosed st"
    "sa_TotalSpans (cs_stats st') = sa_TotalSpans (cs_stats st) + 1"
  using assms by (auto simp: SaveSpan_def Let_def chan_send_def split: if_splits)

lemma kept_handleSpan:
  assumes "kept_exactly calls app" "sp_TraceID (snd x) \<noteq> ''''" "handleSpan now draw x app = Inr app'"
  shows "kept_exactly (calls @ [x]) app' \<and> ap_correlator app' = ap_correlator app"
proof -
  from assms(3) obtain b smp where s:
    "Trace_ShouldSample (Dynamic_ShouldSample draw) now (ap_sampler app) (snd x) = Inr (b, smp)"
    by (auto simp: handleSpan_def go_bind_eq_Inr)
  have smp: "ap_sampler app' = smp" "ap_correlator app' = ap_correlator app"
    using assms(3) s by (auto simp: handleSpan_def go_bind_eq_Inr split: if_splits)
  have "list_all (decided app) calls" using assms(1) by (simp add: kept_exactly_def)
  note m = decided_mono [OF s [folded smp(1)] this]
  have x: "decided app' x" "chosen app' x \<longleftrightarrow> b" using m(3) [OF assms(2) refl] by simp_all
  show ?thesis
  proof (cases b)
    case False
    then have "ap_store app' = ap_store app" using assms(3) s by (auto simp: handleSpan_def)
    with False x m assms(1) smp show ?thesis by (simp add: kept_exactly_def)
  next
    case True
    then obtain err where st: "SaveSpan (fst x) (ap_store app) = Inr (err, ap_store app')"
      using assms(3) s by (auto simp: handleSpan_def go_bind_eq_Inr)
    from assms(1) have q: "cs_writeQueue (ap_store app) =
        take (cs_queueCapacity (ap_store app)) (map fst (filter (chosen app) calls))"
      by (simp add: kept_exactly_def)
    from SaveSpan_run [OF st q] True x m assms(1) smp show ?thesis by (simp add: kept_exactly_def)
  qed
qed

lemma kept_handle_calls:
  assumes "kept_exactly calls app" "\<forall>x\<in>set xs. sp_TraceID (snd x) \<noteq> ''''"
    and "handle_calls now draw xs app = Inr app'"
  shows "kept_exactly (calls @ xs) app' \<and> ap_correlator app' = ap_correlator app"
  using assms
proof (induction xs arbitrary: calls app now draw)
  case (Cons x xs)
  then obtain app1 where a: "handleSpan (now 0) (draw 0) x app = Inr app1"
    "handle_calls (now \<circ> Suc) (draw \<circ> Suc) xs app1 = Inr app'"
    by (auto simp: go_bind_eq_Inr)
  have "kept_exactly (calls @ [x]) app1 \<and> ap_correlator app1 = ap_correlator app"
    by (rule kept_handleSpan [OF Cons.prems(1) _ a(1)]) (use Cons.prems(2) in simp)
  with Cons.IH [OF _ _ a(2), of "calls @ [x]"] Cons.prems(2) show ?case by simp
qed simp

type_synonym app_input = "(nat \<Rightarrow> gtime) \<times> (nat \<Rightarrow> string) \<times> (nat \<Rightarrow> f64) \<times> raw_event"

fun app_run :: "app_input list \<Rightarrow> app \<Rightarrow> app go" where
  "app_run [] app = Inr app"
| "app_run ((clock, rnd, draw, event) # xs) app = go_bind (app_event clock rnd draw event app) (app_run xs)"

definition app_inv :: "app \<Rightarrow> bool" where
  "app_inv app \<longleftrightarrow> correlator_reach (ap_correlator app) \<and> kept_exactly (co_log (ap_correlator app)) app"

lemma app_inv_event:
  assumes "app_inv app" "app_event clock rnd draw event app = Inr app'"
  shows "app_inv app'"
proof -
  let ?c = "ap_correlator app"
  from assms(2) obtain c where c: "ProcessEvent clock rnd event ?c = Inr c"
    and h: "handle_calls clock draw (drop (length (co_log ?c)) (co_log c)) (app\<lparr>ap_correlator := c\<rparr>) = Inr app'"
    by (auto simp: app_event_def go_bind_eq_Inr)
  have reach: "correlator_reach ?c" "correlator_reach c"
    using assms(1) reach_step [OF _ step_event [OF c]] by (auto simp: app_inv_def)
  have ok: "correlator_ok ?c" using reach_ok [OF reach(1)] by simp
  obtain calls where log: "co_log c = co_log ?c @ calls" by (rule ProcessEvent_log [OF ok c])
  have "\<forall>x\<in>set calls. sp_TraceID (snd x) \<noteq> ''''"
    using reach_calls_ok [OF reach(2)] by (auto simp: calls_ok_def log)
  moreover have "decided (app\<lparr>ap_correlator := c\<rparr>) = decided app" "chosen (app\<lparr>ap_correlator := c\<rparr>) = chosen app"
    by (auto simp: decided_def chosen_def)
  then have "kept_exactly (co_log ?c) (app\<lparr>ap_correlator := c\<rparr>)"
    using assms(1) by (simp add: app_inv_def kept_exactly_def)
  ultimately have "kept_exactly (co_log ?c @ calls) app' \<and> ap_correlator app' = c"
    using kept_handle_calls [of "co_log ?c" "app\<lparr>ap_correlator := c\<rparr>" calls clock draw app'] h log by simp
  with log reach(2) show ?thesis by (simp add: app_inv_def)
qed

lemma app_inv_run: "app_run xs app = Inr app' \<Longrightarrow> app_inv app \<Longrightarrow> app_inv app'"
proof (induction xs arbitrary: app)
  case (Cons x xs)
  obtain clock rnd draw event where "x = (clock, rnd, draw, event)" by (cases x) auto
  with Cons show ?case by (auto simp: go_bind_eq_Inr intro: app_inv_event)
qed simp

text \<open>The program starts in such a state.\<close>

lemma main_start_inv:
  assumes "main_start e = Inr r"
  shows "app_inv (mr_app r)"
proof -
  define cfg where "cfg = the (snd (Load (me_read e) (me_unmarshal e) None))"
  from assms have "mr_app r = \<lparr>ap_correlator = SetSpanHandler NewCorrelator,
      ap_sampler = NewTraceLevelSampler (NewDynamicSampler (cg_Sampling cfg)),
      ap_store = NewClickHouseStore (cg_ClickHouse cfg)\<rparr>"
    by (auto simp: main_start_def OpenClickHouseStore_def Let_def cfg_def split: if_splits option.splits sum.splits prod.splits)
  then show ?thesis
    using demo_start_reach
    by (simp add: app_inv_def kept_exactly_def NewTraceLevelSampler_def NewClickHouseStore_def
        zero_store_stats_def demo_start_def SetSpanHandler_def NewCorrelator_def)
qed


definition demo_config :: config where
  "demo_config =
     \<lparr>cg_Server = \<lparr>sv_HTTPPort = 8080, sv_GRPCPort = 9090\<rparr>, cg_ClickHouse = demo_store_config,
      cg_Sampling = demo_sampling\<lparr>sc_LowLatencySampleRate := Fin 1\<rparr>,
      cg_EBPF = \<lparr>eb_PerfBufferSize = 0, eb_PollTimeoutMs = 0\<rparr>,
      cg_Protocols = \<lparr>ps_HTTP = \<lparr>pc_Enabled = True, pc_Ports = []\<rparr>,
        ps_GRPC = \<lparr>pc_Enabled = True, pc_Ports = []\<rparr>, ps_Redis = \<lparr>pc_Enabled = True, pc_Ports = []\<rparr>\<rparr>,
      cg_Anomaly = \<lparr>an_Enabled = False, an_Alpha = Fin 0, an_DeviationThreshold = Fin 0, an_MinSamples = 0,
        an_CooldownSeconds = 0, an_AlertManager = \<lparr>ac_Enabled = False, ac_URL = '''', ac_TimeoutMs = 0\<rparr>\<rparr>,
      cg_Compression = \<lparr>zc_Enabled = False, zc_CompressionLevel = 0, zc_MaxCacheSize = 0,
        zc_SimilarityThreshold = Fin 0\<rparr>,
      cg_FlameGraph = \<lparr>fg_Enabled = False, fg_DefaultWidth = 0, fg_HeightPerFrame = 0, fg_MaxDepth = 0\<rparr>,
      cg_Envoy = \<lparr>ec_Enabled = False, ec_DetectAllPorts = False\<rparr>\<rparr>"

definition demo_env :: main_env where
  "demo_env = \<lparr>me_goos = ''linux'', me_uid = 0, me_read = None, me_unmarshal = (None, demo_config),
     me_open = None, me_ping = None,
     me_exec = (\<lambda>_. None), me_numCPU = 2, me_bpf_load = None, me_bpf_assign = None,
     me_attach = (\<lambda>_. None), me_reader = None, me_initSchema = False, me_enableEBPF = False,
     me_enableAPI = False\<rparr>"


end
