(* ===== verification/Trace_Views.thy ===== *)
theory Trace_Views
  imports Flamegraph
begin

text \<open>
  From a list of spans to a picture: \<open>BuildTraceTree\<close> of \<open>pkg/model/trace.go\<close> and
  \<open>NewFlameGraph\<close> of \<open>pkg/flamegraph/flamegraph.go\<close> one after the other. What the first leaves
  in the heap is a tree without repetitions, which is what the second needs.
\<close>

section \<open>The spans under a root\<close>

lemma unfold_tree_nodes:
  assumes "unfold_tree h (Suc n) a = Some t"
  obtains ts where "t = SNode a ts" "map st_root ts = kids h a"
    "\<And>u. u \<in> set ts \<Longrightarrow> unfold_tree h n (st_root u) = Some u \<and> st_root u \<in> set (kids h a)"
proof -
  from assms obtain s ts where s: "h a = Some s" "t = SNode a ts"
    and ts: "map (unfold_tree h n) (sp_Children s) = map Some ts"
    by (auto simp: unfold_tree_Some simp del: unfold_tree.simps)
  have roots: "map st_root ts = kids h a" using unfold_trees_roots [OF ts] s(1) by (simp add: kids_def)
  have "unfold_tree h n (st_root u) = Some u \<and> st_root u \<in> set (kids h a)" if "u \<in> set ts" for u
  proof -
    have "Some u \<in> set (map (unfold_tree h n) (sp_Children s))" unfolding ts using that by simp
    then obtain b where "unfold_tree h n b = Some u" by auto
    moreover have "st_root u = b" using unfold_tree_root [OF calculation] by simp
    moreover have "st_root u \<in> set (map st_root ts)" using that by simp
    ultimately show ?thesis unfolding roots by simp
  qed
  with that s(2) roots show thesis by blast
qed

lemma preorder_climb:
  assumes "\<And>p c. c \<in> set (kids h p) \<Longrightarrow> par c = Some p"
    and "unfold_tree h n a = Some t" "b \<in> set (preorder t)"
  shows "\<exists>m. climb par m b = Some a"
  using assms(2,3)
proof (induction n arbitrary: a t b)
  case (Suc n)
  obtain ts where t: "t = SNode a ts"
    and ts: "\<And>u. u \<in> set ts \<Longrightarrow> unfold_tree h n (st_root u) = Some u \<and> st_root u \<in> set (kids h a)"
    using unfold_tree_nodes [OF Suc.prems(1)] by metis
  show ?case
  proof (cases "b = a")
    case True
    then show ?thesis by (intro exI [of _ 0]) simp
  next
    case False
    then obtain u where u: "u \<in> set ts" "b \<in> set (preorder u)" using Suc.prems(2) t by auto
    then obtain m where "climb par m b = Some (st_root u)" using Suc.IH ts by blast
    moreover have "par (st_root u) = Some a" using assms(1) ts [OF u(1)] by blast
    ultimately show ?thesis using climb_snoc by blast
  qed
qed simp

text \<open>Above a node that climbs to a root without parent there is no cycle.\<close>

lemma no_cycle:
  assumes "climb par j a = Some r" "par r = None"
  shows "climb par (Suc k) a \<noteq> Some a"
proof
  assume "climb par (Suc k) a = Some a"
  then obtain l where c: "climb par l a = Some a" "0 < l" by blast
  have loop: "climb par (q * l) a = Some a" for q
    by (induction q) (simp_all add: climb_add c(1))
  have "j < Suc j * l" using c(2) by (cases l) simp_all
  then obtain d where d: "Suc j * l = j + Suc d" using less_imp_Suc_add by auto
  have "climb par (j + Suc d) a = None"
    unfolding climb_add using assms by simp
  with loop [of "Suc j"] show False unfolding d by simp
qed

lemma preorder_distinct:
  assumes par: "\<And>p c. c \<in> set (kids h p) \<Longrightarrow> par c = Some p" and d: "\<And>p. distinct (kids h p)"
    and r: "par r = None"
    and "unfold_tree h n a = Some t" "climb par j a = Some r"
  shows "distinct (preorder t)"
  using assms(4,5)
proof (induction n arbitrary: a t j)
  case (Suc n)
  obtain ts where t: "t = SNode a ts" and roots: "map st_root ts = kids h a"
    and ts: "\<And>u. u \<in> set ts \<Longrightarrow> unfold_tree h n (st_root u) = Some u \<and> st_root u \<in> set (kids h a)"
    using unfold_tree_nodes [OF Suc.prems(1)] by metis
  have up: "par (st_root u) = Some a" if "u \<in> set ts" for u using ts [OF that] par by blast
  have sub: "distinct (preorder u)" if "u \<in> set ts" for u
    using Suc.IH [of "st_root u" u "Suc j"] ts [OF that] up [OF that] Suc.prems(2) by simp
  have to_root: "\<exists>m. climb par m b = Some (st_root u)" if "u \<in> set ts" "b \<in> set (preorder u)" for u b
    using preorder_climb [where h = h and par = par, OF par, of n "st_root u" u b] ts [OF that(1)] that(2) by simp
  have cycle: False if "climb par e a = Some (st_root u)" "u \<in> set ts" for e u
    using climb_snoc [OF that(1) up [OF that(2)]] no_cycle [OF Suc.prems(2) r] by blast
  have "a \<notin> set (preorder u)" if "u \<in> set ts" for u
    using to_root [OF that] cycle that by blast
  moreover have "distinct ts" using d [of a] unfolding roots [symmetric] by (simp add: distinct_map)
  moreover have disjoint: "u = v" if uv: "u \<in> set ts" "v \<in> set ts" "b \<in> set (preorder u)" "b \<in> set (preorder v)"
    and "climb par m b = Some (st_root u)" "climb par (m + e) b = Some (st_root v)" for u v b m e
  proof (cases e)
    case 0
    with that(5,6) have "st_root u = st_root v" by simp
    then have "Some u = Some v" using ts [OF uv(1)] ts [OF uv(2)] by metis
    then show ?thesis by simp
  next
    case (Suc e')
    have "climb par (Suc e') (st_root u) = Some (st_root v)"
      using that(5,6) unfolding Suc climb_add by simp
    then have "climb par e' a = Some (st_root v)" using up [OF uv(1)] by simp
    with cycle uv(2) show ?thesis by blast
  qed
  have same: "u = v" if uv: "u \<in> set ts" "v \<in> set ts" "b \<in> set (preorder u)" "b \<in> set (preorder v)" for u v b
  proof -
    obtain m where m1: "climb par m b = Some (st_root u)" using to_root [OF uv(1,3)] by blast
    obtain m' where m2: "climb par m' b = Some (st_root v)" using to_root [OF uv(2,4)] by blast
    note m = m1 m2
    show ?thesis
    proof (cases "m \<le> m'")
      case True
      then show ?thesis using disjoint [OF uv m(1), of "m' - m"] m(2) by simp
    next
      case False
      then show ?thesis using disjoint [OF uv(2,1,4,3) m(2), of "m - m'"] m(1) by simp
    qed
  qed
  have "distinct (concat (map preorder us))" if "set us \<subseteq> set ts" "distinct us" for us
    using that
  proof (induction us)
    case (Cons u us)
    then have "x \<notin> set (preorder v)" if "v \<in> set us" "x \<in> set (preorder u)" for v x
      using same [of u v x] that by auto
    with Cons sub show ?case by auto
  qed simp
  ultimately show ?case using t by auto
qed simp

lemma preorder_allocated: "unfold_tree h n a = Some t \<Longrightarrow> b \<in> set (preorder t) \<Longrightarrow> h b \<noteq> None"
proof (induction n arbitrary: a t)
  case (Suc n)
  obtain ts where t: "t = SNode a ts"
    and ts: "\<And>u. u \<in> set ts \<Longrightarrow> unfold_tree h n (st_root u) = Some u \<and> st_root u \<in> set (kids h a)"
    using unfold_tree_nodes [OF Suc.prems(1)] by metis
  have "h a \<noteq> None" using unfold_tree_root [OF Suc.prems(1)] by simp
  moreover have "h b \<noteq> None" if "u \<in> set ts" "b \<in> set (preorder u)" for u
    using Suc.IH ts that by blast
  ultimately show ?case using Suc.prems(2) t by auto
qed simp

lemma parent_of_mem: "parent_of h as b = Some p \<Longrightarrow> p \<in> set as"
  by (auto simp: parent_of_def dest: last_with_Some split: option.splits if_splits)

lemma preorder_kid:
  "unfold_tree h n a = Some t \<Longrightarrow> p \<in> set (preorder t) \<Longrightarrow> c \<in> set (kids h p) \<Longrightarrow> c \<in> set (preorder t)"
proof (induction n arbitrary: a t)
  case (Suc n)
  obtain ts where t: "t = SNode a ts" and roots: "map st_root ts = kids h a"
    and ts: "\<And>u. u \<in> set ts \<Longrightarrow> unfold_tree h n (st_root u) = Some u \<and> st_root u \<in> set (kids h a)"
    using unfold_tree_nodes [OF Suc.prems(1)] by metis
  show ?case
  proof (cases "p = a")
    case True
    with Suc.prems(3) have "c \<in> set (map st_root ts)" by (simp add: roots)
    then obtain u where u: "u \<in> set ts" "c = st_root u" by auto
    with ts [OF u(1)] unfold_tree_root have "c \<in> set (preorder u)" by blast
    with u(1) t show ?thesis by auto
  next
    case False
    then obtain u where "u \<in> set ts" "p \<in> set (preorder u)" using Suc.prems(2) t by auto
    with Suc.IH [of "st_root u" u] ts Suc.prems(3) t show ?thesis by auto
  qed
qed simp

lemma preorder_complete:
  assumes "unfold_tree h n a = Some t"
    and "\<And>b p. par b = Some p \<Longrightarrow> b \<in> A \<Longrightarrow> p \<in> A \<and> b \<in> set (kids h p)"
  shows "climb par m b = Some a \<Longrightarrow> b \<in> A \<Longrightarrow> b \<in> set (preorder t)"
proof (induction m arbitrary: b)
  case 0
  then show ?case using unfold_tree_root [OF assms(1)] by simp
next
  case (Suc m)
  then obtain p where p: "par b = Some p" "climb par m p = Some a" by (auto split: bind_splits)
  with Suc assms(2) have "p \<in> set (preorder t)" "b \<in> set (kids h p)" by blast+
  then show ?case by (rule preorder_kid [OF assms(1)])
qed

section \<open>From spans to frames\<close>

lemma frame_of_tree_heap [simp]: "frame_of_span (the (tree_heap h as b)) [] = frame_of_span (the (h b)) []"
  by (cases "h b") (simp_all add: tree_heap_def frame_of_span_def Let_def)

text \<open>
  C9: The flame graph of a trace shows every span that hangs together with the root, exactly
  once, and nothing else: for any list of different spans that has a root, whatever its parent
  ids say, building the tree and converting it never panics and needs at most as many levels of
  recursion as there are spans; spans whose chain of parents does not reach the root are left
  out without a word.
\<close>

theorem flame_graph_shows_connected_spans:
  assumes "fresh_spans h as" "distinct as" "last_root h as = Some r" "slice_sort srt"
  shows "\<exists>h' t f h'' shown. BuildTraceTree h as = Inr (h', Some t) \<and>
     NewFlameGraph srt (length as) (tr_RootSpan t) title h' =
       Inr (Some \<lparr>fg_Root = f, fg_Title = title, fg_Width = 1200\<rparr>, h'') \<and>
     distinct shown \<and> set shown = {b \<in> set as. \<exists>m. climb (parent_of h as) m b = Some r} \<and>
     mset (map bare (collectAllFrames f)) = mset (map (\<lambda>b. frame_of_span (the (h b)) []) shown)"
proof -
  let ?g = "span_pointers h as" and ?par = "parent_of h as"
  obtain t tr where t: "BuildTraceTree h as = Inr (tree_heap h as, Some t)" "tr_RootSpan t = Some r"
    and g: "unfold_tree ?g (length as) r = Some tr" and u: "unfold_tree (tree_heap h as) (length as) r = Some tr"
    by (rule built_tree [OF assms(1,3)])
  have par: "?par c = Some p" if "c \<in> set (kids ?g p)" for p c
    using that span_pointers_kids [OF assms(1), of p] by (simp split: if_splits)
  have d: "distinct (kids ?g p)" for p
    using assms(2) span_pointers_kids [OF assms(1), of p] by simp
  have r: "?par r = None" "r \<in> set as" using last_root_no_parent last_root_Some assms(3) by blast+
  have "distinct (preorder tr)"
    by (rule preorder_distinct [where par = ?par and h = ?g and j = 0, OF par d r(1) g]) simp_all
  moreover have "set (preorder tr) = {b \<in> set as. \<exists>m. climb ?par m b = Some r}"
  proof (intro set_eqI iffI)
    fix b assume b: "b \<in> set (preorder tr)"
    have "\<exists>m. climb ?par m b = Some r"
      by (rule preorder_climb [where h = ?g and par = ?par, OF par g b])
    then obtain m where m: "climb ?par m b = Some r" by blast
    have "b \<in> set as"
      using preorder_allocated [OF g b] by (auto simp: span_pointers_def restrict_map_def split: if_splits)
    with m show "b \<in> {b \<in> set as. \<exists>m. climb ?par m b = Some r}" by blast
  next
    fix b assume "b \<in> {b \<in> set as. \<exists>m. climb ?par m b = Some r}"
    then obtain m where "climb ?par m b = Some r" "b \<in> set as" by blast
    moreover have "p \<in> set as \<and> b \<in> set (kids ?g p)" if "?par b = Some p" "b \<in> set as" for b p
      using that parent_of_mem [OF that(1)] span_pointers_kids [OF assms(1)] by simp
    ultimately show "b \<in> set (preorder tr)" by (intro preorder_complete [OF g]) auto
  qed
  moreover obtain f h'' where "NewFlameGraph srt (length as) (Some r) title (tree_heap h as) =
      Inr (Some \<lparr>fg_Root = f, fg_Title = title, fg_Width = 1200\<rparr>, h'')"
    "mset (map bare (collectAllFrames f)) = mset (map (\<lambda>b. frame_of_span (the (tree_heap h as b)) []) (preorder tr))"
    by (rule NewFlameGraph_total [OF assms(4) u \<open>distinct (preorder tr)\<close>])
  ultimately show ?thesis using t by auto
qed

theorem flame_graph_shows_connected_spans_witness:
  "\<exists>h' t f h''. BuildTraceTree demo_heap [3, 4, 5] = Inr (h', Some t) \<and>
     NewFlameGraph insertion_sort 3 (tr_RootSpan t) ''t'' h' =
       Inr (Some \<lparr>fg_Root = f, fg_Title = ''t'', fg_Width = 1200\<rparr>, h'')"
  using flame_graph_shows_connected_spans [OF demo_fresh _ demo_root insertion_sort_contract, of "''t''"]
  by (auto simp: eval_nat_numeral)

end
