(* ===== verification/Spec2Isabelle.thy ===== *)
theory Spec2Isabelle
  imports App Trace_Views Compression Anomaly Config
begin

text \<open>
  A model of the tracing agent: a Go program that reads network events captured by a kernel
  (eBPF) program, recognises HTTP, gRPC, Redis and Envoy traffic in their payloads, joins
  requests and responses to spans and traces, samples the traces, writes them to ClickHouse and
  serves them over a REST API as traces, statistics and flame graphs.

  \<^bold>\<open>The parts and how they interact.\<close> \<open>cmd/main.go\<close> starts everything. The tracer
  (\<open>pkg/ebpf\<close>) polls a ring buffer, decodes records and puts the events into a bounded channel;
  its workers and the event loop of \<open>main\<close> take them from there and call
  \<open>Correlator.ProcessEvent\<close> (\<open>pkg/trace\<close>). The correlator converts an event to a span
  (\<open>pkg/model\<close>), lets the protocol parser (\<open>pkg/protocol\<close>) fill it in, keeps the unanswered
  requests of every connection, and calls the span handler of \<open>main\<close>, which asks the sampler
  (\<open>pkg/sampling\<close>) and hands the span to the store (\<open>pkg/storage\<close>). The store queues spans, its
  writer inserts them in batches. The REST server (\<open>pkg/api\<close>) reads traces back, and shows the
  counters of all parts, the latency statistics (\<open>pkg/anomaly\<close>), the compressor
  (\<open>pkg/compression\<close>) and flame graphs (\<open>pkg/flamegraph\<close>).

  \<^bold>\<open>Theories and sources.\<close>
  \<^item> \<open>Go_Prelude\<close>, \<open>Go_Strings\<close>, \<open>Go_Float\<close>, \<open>Go_Lib\<close>, \<open>Go_Chan\<close>, \<open>Sha256\<close>: what the program uses
    of the language and its standard library. A run-time panic is the left part of a sum
    (\<open>'a go\<close>), slices have a length and a capacity, \<open>int\<close> wraps at 64 bits where the source
    computes with lengths from outside, unsigned counters are words, instants and durations are
    nanoseconds. \<open>Go_Chan\<close> has the interfaces \<open>lossy_queue\<close> (a send that drops when full) and
    \<open>sliding_queue\<close> (an insertion that drops the oldest).
  \<^item> \<open>Trace_Model\<close>, \<open>Trace_Tree\<close>: \<open>pkg/model/trace.go\<close>. Spans live in a heap of addresses, because
    \<open>BuildTraceTree\<close> and the correlator change them through pointers.
  \<^item> \<open>Envoy\<close> (\<open>pkg/protocol/envoy.go\<close>), \<open>Http_Parser\<close>, \<open>Grpc_Parser\<close>, \<open>Redis_Parser\<close>,
    \<open>Protocol_Parser\<close> (\<open>pkg/protocol/parser.go\<close>): every loop over a payload is a recursion on
    the position with its measure.
  \<^item> \<open>Correlator\<close>, \<open>Correlator_Flows\<close>, \<open>Handler_Calls\<close>: \<open>pkg/trace/correlator.go\<close>. \<open>co_log\<close>
    observes the calls of the span handler with the span as it is at that moment.
  \<^item> \<open>Sampler\<close> (\<open>pkg/sampling/sampler.go\<close>), \<open>Anomaly\<close> (\<open>pkg/anomaly/anomaly.go\<close>),
    \<open>Config\<close> (\<open>pkg/config/config.go\<close>).
  \<^item> \<open>Storage\<close>, \<open>Store_Queries\<close>: \<open>pkg/storage/clickhouse.go\<close>; the writer, the callers and
    \<open>Close\<close> interleave as the step relation \<open>store_step\<close>.
  \<^item> \<open>Span_Walk\<close>, \<open>Flamegraph\<close>, \<open>Compression\<close>, \<open>Trace_Views\<close>: \<open>pkg/flamegraph/flamegraph.go\<close>,
    \<open>pkg/compression/compressor.go\<close>, and the way from \<open>BuildTraceTree\<close> to a flame graph. The
    recursion that both share is the interface \<open>span_walk\<close>.
  \<^item> \<open>Event_Bytes\<close>, \<open>Tracer\<close>: \<open>pkg/ebpf/tracer.go\<close> and the layout of the kernel's struct; pollers,
    workers and calls of \<open>Start\<close> and \<open>Stop\<close> interleave as \<open>tracer_step\<close>.
  \<^item> \<open>Api\<close>: \<open>pkg/api/server.go\<close>; \<open>serve\<close> is the reply to a request at an endpoint.
  \<^item> \<open>App\<close>: \<open>cmd/main.go\<close>; \<open>app_event\<close> is the way of one event through correlator, sampler and
    store, \<open>main_start\<close> the program up to its wait for a signal.

  \<^bold>\<open>What is shown.\<close> The parsers give back what was printed (HTTP requests, Redis pipelines, Envoy
  frames, events as bytes) and panic exactly where a slice or an allocation is out of range. The
  correlator keeps its invariant over every sequence of events and clean-ups: queues within
  their limit, sequence numbers in order, every reported span allocated and with a trace id; it
  answers the oldest request; its gauges drift by exactly what is stated. The samplers decide
  once per trace and count what they decide. Every span the
  store accepted stays in a flushed batch, the batch being built or the queue, in any
  interleaving; a flush succeeds exactly when one of its attempts does; \<open>Close\<close> never returns. The
  tracer counts every loss in any interleaving and panics only after \<open>Stop\<close>. Trees, frames,
  signatures and compressed spans have the stated relation to the spans they come from. The
  replies of the server keep one contract. Across the parts: from the start of the program the
  store gets exactly the reported spans of the chosen traces; an exchange is stored twice; an
  event with a payload that comes from the kernel makes the agent panic.

  \<^bold>\<open>Interfaces.\<close> \<open>lossy_queue\<close> is interpreted on the tracer's channel, the store's queue and the
  alert channel; \<open>sliding_queue\<close> on the in-flight queue; \<open>endpoint_key\<close> on the connection key;
  \<open>sampler\<close> and \<open>rate_sampler\<close> on the dynamic sampler, with the trace-level sampler over any
  sampler as a sublocale; \<open>decision_table\<close> on the trace-level sampler over any other, which is
  what the handler in \<open>App\<close> relies on; \<open>span_walk\<close> on the flame graph and on the compressor.

  \<^bold>\<open>Bounds and fuel.\<close> The only fuel is the number of levels that a recursion over the pointers of
  a trace may use, the stack of the goroutine: a trace that \<open>BuildTraceTree\<close> has built needs at
  most as many levels as it has spans. The counters of the tracer are natural numbers, all
  others words of their width. A queue has the capacity of its configuration.

  \<^bold>\<open>Arguments that stand for other code.\<close> The answers of the ClickHouse driver, of zstd, of
  \<open>encoding/json\<close>, of viper, of the gin binding, of the ring buffer and the kernel's maps; the
  clock, random bytes and random draws; the order in which Go visits a map; \<open>sort.Slice\<close>, with
  its contract \<open>slice_sort\<close> as a hypothesis.

  \<^bold>\<open>Not modelled.\<close> The rounding of floats (finite values are reals) and the Unicode tables behind
  case mapping and white space outside ASCII; the text of JSON documents (\<open>ToJSON\<close>, \<open>String\<close>,
  the body of an alert); sending alerts over HTTP, the gin engine itself and its logging
  middleware; the SQL that ClickHouse evaluates in the aggregating queries; loops that only log
  or only call a modelled operation at a tick; two events in the correlator at the same time,
  whose locks are taken per table and not per event; the kernel program except for the layout of its events; the
  demo services, the schema script and the deployment files.
\<close>

end
